(* ===== verification/Prelude.thy ===== *)
theory Prelude
  imports Main "HOL-Library.Word" "HOL-Library.Monad_Syntax"
begin

text \<open>
  Shared vocabulary of the development: the machine integer types of the Rust code, the
  \<open>Result\<close> type, big- and little-endian byte strings with their round trips, byte
  streams as the readers and writers of the code see them, and generic list lemmas.

  Rust's release profile is modelled throughout (\<^verbatim>\<open>Cargo.toml\<close> enables neither
  overflow checks nor debug assertions there): fixed-width arithmetic wraps and
  \<^verbatim>\<open>debug_assert!\<close> is absent. A \<^verbatim>\<open>usize\<close> that counts elements of a vector in
  memory is a \<open>nat\<close>.
\<close>

unbundle bit_operations_syntax

section \<open>Machine types\<close>

type_synonym u8 = "8 word"
type_synonym u16 = "16 word"
type_synonym u32 = "32 word"
type_synonym u64 = "64 word"
type_synonym i8 = "8 word"
type_synonym i16 = "16 word"
type_synonym i32 = "32 word"
type_synonym i64 = "64 word"
type_synonym f32_bits = "32 word"
type_synonym bytes = "u8 list"

named_theorems wire_simps \<open>evaluation of byte encodings\<close>
named_theorems size_simps \<open>lengths of encoded payloads\<close>

section \<open>Results\<close>

text \<open>Rust's \<open>Result<T, E>\<close> is \<open>'e + 'a\<close>, \<open>Inl\<close> for the error; \<open>result_bind\<close> is the
  question-mark operator.\<close>

primrec result_bind :: "'e + 'a \<Rightarrow> ('a \<Rightarrow> 'e + 'b) \<Rightarrow> 'e + 'b" where
  "result_bind (Inl e) f = Inl e"
| "result_bind (Inr a) f = f a"

lemma result_bind_Inr_iff:
  "result_bind m f = Inr b \<longleftrightarrow> (\<exists>a. m = Inr a \<and> f a = Inr b)"
  by (cases m) auto

lemma result_bind_Inl_iff:
  "result_bind m f = Inl e \<longleftrightarrow> m = Inl e \<or> (\<exists>a. m = Inr a \<and> f a = Inl e)"
  by (cases m) auto

section \<open>Byte strings of machine words\<close>

text \<open>\<open>to_be_bytes n w\<close> is \<^verbatim>\<open>w.to_be_bytes()\<close> of an \<open>n\<close>-byte integer, \<open>from_be_bytes\<close>
  its inverse; \<open>to_le_bytes\<close> is the little-endian variant.\<close>

primrec to_be_bytes :: "nat \<Rightarrow> 'a::len word \<Rightarrow> bytes" where
  "to_be_bytes 0 w = []"
| "to_be_bytes (Suc k) w = ucast (drop_bit (8 * k) w) # to_be_bytes k w"

primrec from_be_bytes :: "bytes \<Rightarrow> 'a::len word" where
  "from_be_bytes [] = 0"
| "from_be_bytes (b # bs) = push_bit (8 * length bs) (ucast b) OR from_be_bytes bs"

definition to_le_bytes :: "nat \<Rightarrow> 'a::len word \<Rightarrow> bytes" where
  "to_le_bytes n w = rev (to_be_bytes n w)"

lemma length_to_be_bytes [simp, size_simps]: "length (to_be_bytes n w) = n"
  by (induction n) auto

lemma length_to_le_bytes [simp, size_simps]: "length (to_le_bytes n w) = n"
  by (simp add: to_le_bytes_def)

lemma nth_to_be_bytes:
  "i < n \<Longrightarrow> to_be_bytes n w ! i = ucast (drop_bit (8 * (n - 1 - i)) w)"
proof (induction n arbitrary: i)
  case 0
  then show ?case by simp
next
  case (Suc n)
  then show ?case by (cases i) auto
qed

lemma bit_from_be_bytes:
  "bit (from_be_bytes bs :: 'a::len word) i \<longleftrightarrow>
     i < LENGTH('a) \<and> i div 8 < length bs \<and> bit (bs ! (length bs - 1 - i div 8)) (i mod 8)"
proof (induction bs)
  case Nil
  then show ?case by simp
next
  case (Cons b bs)
  let ?n = "length bs"
  consider (low) "i div 8 < ?n" | (top) "i div 8 = ?n" | (high) "?n < i div 8" by linarith
  then show ?case
  proof cases
    case low
    then have "i < 8 * ?n" by linarith
    moreover have "?n - i div 8 = Suc (?n - 1 - i div 8)" using low by linarith
    ultimately show ?thesis using low Cons
      by (simp add: bit_or_iff bit_push_bit_iff)
  next
    case top
    then have "8 * ?n \<le> i" "i - 8 * ?n = i mod 8" "i mod 8 < 8"
      by presburger+
    then show ?thesis using top Cons
      by (auto simp: bit_or_iff bit_push_bit_iff bit_ucast_iff)
  next
    case high
    then have "8 * ?n \<le> i" "\<not> i - 8 * ?n < 8" by linarith+
    moreover have "\<not> bit b (i - 8 * ?n)"
      using \<open>\<not> i - 8 * ?n < 8\<close> by (auto dest: bit_imp_le_length)
    ultimately show ?thesis using high Cons
      by (auto simp: bit_or_iff bit_push_bit_iff bit_ucast_iff)
  qed
qed

lemma from_be_to_be_bytes [simp]:
  assumes "LENGTH('a) \<le> 8 * n"
  shows "from_be_bytes (to_be_bytes n (w :: 'a::len word)) = w"
proof (rule bit_word_eqI)
  fix i assume i: "i < LENGTH('a)"
  then have "i div 8 < n" using assms by linarith
  then have ix: "n - 1 - i div 8 < n" "n - 1 - (n - 1 - i div 8) = i div 8" by linarith+
  show "bit (from_be_bytes (to_be_bytes n w) :: 'a word) i = bit w i"
    using i \<open>i div 8 < n\<close> ix
    by (simp add: bit_from_be_bytes nth_to_be_bytes bit_ucast_iff bit_drop_bit_eq)
qed

lemma to_be_from_be_bytes:
  assumes "length bs = n" "8 * n \<le> LENGTH('a)"
  shows "to_be_bytes n (from_be_bytes bs :: 'a::len word) = bs"
proof (rule nth_equalityI)
  fix i assume "i < length (to_be_bytes n (from_be_bytes bs :: 'a word))"
  then have i: "i < n" by simp
  show "to_be_bytes n (from_be_bytes bs :: 'a word) ! i = bs ! i"
  proof (rule bit_word_eqI)
    fix j assume j: "j < LENGTH(8)"
    let ?k = "8 * (n - 1 - i) + j"
    have k: "?k < LENGTH('a)" "?k div 8 = n - 1 - i" "?k mod 8 = j"
      using assms(2) i j by auto
    show "bit (to_be_bytes n (from_be_bytes bs :: 'a word) ! i) j = bit (bs ! i) j"
      using i j k assms(1)
      by (simp add: nth_to_be_bytes bit_ucast_iff bit_drop_bit_eq bit_from_be_bytes)
  qed
qed (simp add: assms)

section \<open>Streams\<close>

text \<open>
  The error kinds of \<^verbatim>\<open>std::io::Error\<close> the code distinguishes. A reader is the bytes
  that will still arrive and the error a read past them gets (\<open>UnexpectedEof\<close> for a
  peer that closed, \<open>ConnectionReset\<close> for one that vanished). A writer is what was
  written to it and the error its writes get, if it is broken.
\<close>

datatype io_error = UnexpectedEof | ConnectionReset | OtherIo string

record in_stream =
  pending :: bytes
  at_end :: io_error

record out_stream =
  written :: bytes
  broken :: "io_error option"

definition read_exact :: "nat \<Rightarrow> in_stream \<Rightarrow> io_error + (bytes \<times> in_stream)" where
  "read_exact n s =
     (if n \<le> length (pending s)
      then Inr (take n (pending s), s\<lparr>pending := drop n (pending s)\<rparr>)
      else Inl (at_end s))"

definition write_all :: "bytes \<Rightarrow> out_stream \<Rightarrow> io_error + out_stream" where
  "write_all bs s =
     (case broken s of Some e \<Rightarrow> Inl e | None \<Rightarrow> Inr (s\<lparr>written := written s @ bs\<rparr>))"

lemma read_exact_append:
  "read_exact (length xs) \<lparr>pending = xs @ ys, at_end = e\<rparr> = Inr (xs, \<lparr>pending = ys, at_end = e\<rparr>)"
  by (simp add: read_exact_def)

lemma read_exact_Inr_iff:
  "read_exact n s = Inr (xs, s') \<longleftrightarrow>
     length xs = n \<and> pending s = xs @ pending s' \<and> at_end s' = at_end s"
  by (cases s; cases s') (auto simp: read_exact_def append_eq_conv_conj)

section \<open>Lists\<close>

lemma take_Suc_nth: "n < length xs \<Longrightarrow> take (Suc n) xs = take n xs @ [xs ! n]"
  by (rule take_Suc_conv_app_nth)

lemma drop_eq_nth_Cons: "n < length xs \<Longrightarrow> drop n xs = xs ! n # drop (Suc n) xs"
  by (rule Cons_nth_drop_Suc [symmetric])

lemma drop_length_add: "length xs = n \<Longrightarrow> drop (n + k) (xs @ ys) = drop k ys"
  by auto

lemma take_length_add: "length xs = n \<Longrightarrow> take (n + k) (xs @ ys) = xs @ take k ys"
  by auto

end
