(* ===== verification/BitIO.thy ===== *)
theory BitIO
  imports Prelude
begin

text \<open>
  \<open>BitReader\<close> and \<open>BitWriter\<close> of \<^verbatim>\<open>crates/penflow-core/src/encoder/sps_patcher.rs\<close>
  with the Exp-Golomb codes, and what they mean on bit strings: \<open>rbits\<close> are the bits a
  reader has left, \<open>wbits\<close> the bits a writer holds. Reading consumes a prefix of the
  former, writing appends to the latter, and the codes are prefix-free.

  A reader's only error is \<^verbatim>\<open>EngineError::NotInitialized\<close>: \<open>None\<close> of the option.
\<close>

section \<open>Bit strings\<close>

definition byte_bits :: "u8 \<Rightarrow> bool list" where
  "byte_bits b = map (\<lambda>k. bit b (7 - k)) [0..<8]"

definition bits_of :: "bytes \<Rightarrow> bool list" where
  "bits_of bs = concat (map byte_bits bs)"

lemma length_byte_bits [simp]: "length (byte_bits b) = 8"
  by (simp add: byte_bits_def)

lemma bits_of_simps [simp]:
  "bits_of [] = []" "bits_of (b # bs) = byte_bits b @ bits_of bs"
  "bits_of (xs @ ys) = bits_of xs @ bits_of ys"
  by (simp_all add: bits_of_def)

lemma length_bits_of [simp]: "length (bits_of bs) = 8 * length bs"
  by (induction bs) auto

lemma nth_bits_of:
  "n < 8 * length bs \<Longrightarrow> bits_of bs ! n = bit (bs ! (n div 8)) (7 - n mod 8)"
proof (induction bs arbitrary: n)
  case Nil
  then show ?case by simp
next
  case (Cons b bs)
  show ?case
  proof (cases "n < 8")
    case True
    then show ?thesis by (simp add: nth_append byte_bits_def)
  next
    case False
    then have "n div 8 = Suc ((n - 8) div 8)" "n mod 8 = (n - 8) mod 8"
      by (simp_all add: le_div_geq le_mod_geq)
    with False Cons show ?thesis by (simp add: nth_append)
  qed
qed

lemma byte_bits_inject [simp]: "byte_bits a = byte_bits b \<longleftrightarrow> a = b"
proof
  assume *: "byte_bits a = byte_bits b"
  show "a = b"
  proof (rule bit_word_eqI)
    fix i assume "i < LENGTH(8)"
    then have i: "i < 8" and k: "7 - i < 8" and u: "7 - (7 - i) = i" by auto
    have "byte_bits a ! (7 - i) = bit a i" "byte_bits b ! (7 - i) = bit b i"
      using nth_upt [of 0 "7 - i" 8] k u by (simp_all add: byte_bits_def)
    with * show "bit a i = bit b i" by simp
  qed
qed simp

lemma bits_of_inject: "bits_of xs = bits_of ys \<Longrightarrow> xs = ys"
proof (induction xs arbitrary: ys)
  case Nil
  then show ?case by (cases ys) (simp_all add: byte_bits_def)
next
  case (Cons x xs)
  then obtain y ys' where ys: "ys = y # ys'" by (cases ys) (simp_all add: byte_bits_def)
  with Cons show ?case by (auto simp: append_eq_append_conv)
qed

text \<open>The value of a bit string, most significant bit first, and the bits of a word.\<close>

fun bval :: "bool list \<Rightarrow> nat" where
  "bval [] = 0"
| "bval (b # bs) = of_bool b * 2 ^ length bs + bval bs"

fun ubits :: "nat \<Rightarrow> 'a::len word \<Rightarrow> bool list" where
  "ubits 0 v = []"
| "ubits (Suc i) v = bit v i # ubits i v"

lemma length_ubits [simp]: "length (ubits n v) = n"
  by (induction n) auto

lemma bval_less: "bval bs < 2 ^ length bs"
  by (induction bs) auto

lemma bval_append: "bval (xs @ ys) = bval xs * 2 ^ length ys + bval ys"
  by (induction xs) (auto simp: algebra_simps power_add)

lemma bit_of_nat_bval:
  "bit (bval bs) i \<longleftrightarrow> i < length bs \<and> bs ! (length bs - 1 - i)"
proof (induction bs arbitrary: i)
  case Nil
  then show ?case by simp
next
  case (Cons b bs)
  have sum: "bval (b # bs) = push_bit (length bs) (of_bool b) OR bval bs"
  proof -
    have "push_bit (length bs) (of_bool b) AND bval bs = 0"
      by (auto intro!: bit_eqI simp: bit_and_iff bit_push_bit_iff bit_exp_iff)
         (auto simp: Cons)
    then have "push_bit (length bs) (of_bool b) + bval bs = push_bit (length bs) (of_bool b) OR bval bs"
      by (simp add: disjunctive_add_eq_or)
    then show ?thesis by (simp add: push_bit_eq_mult)
  qed
  show ?case
    unfolding sum bit_or_iff Cons
    by (auto simp: bit_push_bit_iff nth_Cons' bit_of_bool_iff)
qed

lemma bit_word_of_nat: "bit (of_nat m :: 'a::len word) i \<longleftrightarrow> i < LENGTH('a) \<and> bit m i"
  by transfer (simp add: bit_take_bit_iff bit_of_nat_iff)

lemma nth_ubits: "k < n \<Longrightarrow> ubits n v ! k = bit v (n - 1 - k)"
proof (induction n arbitrary: k)
  case 0
  then show ?case by simp
next
  case (Suc n)
  then show ?case by (cases k) auto
qed

lemma ubits_bval:
  assumes "length bs = n" "n \<le> LENGTH('a)"
  shows "ubits n (of_nat (bval bs) :: 'a::len word) = bs"
proof (rule nth_equalityI)
  fix k assume "k < length (ubits n (of_nat (bval bs) :: 'a word))"
  then have "k < n" "n - 1 - k < LENGTH('a)" "n - 1 - (n - 1 - k) = k" using assms(2) by auto
  then show "ubits n (of_nat (bval bs) :: 'a word) ! k = bs ! k"
    using assms(1) by (simp add: nth_ubits bit_word_of_nat bit_of_nat_bval)
qed (simp add: assms)

lemma bval_ubits: "bval (ubits n v) = unat v mod 2 ^ n"
proof (rule bit_eqI)
  fix i
  show "bit (bval (ubits n v)) i = bit (unat v mod 2 ^ n) i"
    by (auto simp: bit_of_nat_bval nth_ubits bit_unsigned_iff simp flip: take_bit_eq_mod simp: bit_take_bit_iff)
qed

lemma of_nat_bval_ubits: "unat v < 2 ^ n \<Longrightarrow> of_nat (bval (ubits n v)) = v"
  by (simp add: bval_ubits)

section \<open>The reader\<close>

record bit_reader =
  br_bytes :: bytes
  br_pos :: nat

definition bit_reader_new :: "bytes \<Rightarrow> bit_reader" where
  "bit_reader_new bs = \<lparr>br_bytes = bs, br_pos = 0\<rparr>"

text \<open>The loop of \<open>read_bits\<close>, \<open>v\<close> its accumulator.\<close>

fun read_bits_loop :: "nat \<Rightarrow> u32 \<Rightarrow> bit_reader \<Rightarrow> (u32 \<times> bit_reader) option" where
  "read_bits_loop 0 v r = Some (v, r)"
| "read_bits_loop (Suc n) v r =
     (let byte_idx = br_pos r div 8 in
      if byte_idx \<ge> length (br_bytes r) then None
      else let bit_idx = 7 - br_pos r mod 8;
               b = drop_bit bit_idx (br_bytes r ! byte_idx) AND 1 in
        read_bits_loop n (push_bit 1 v OR ucast b) (r\<lparr>br_pos := br_pos r + 1\<rparr>))"

definition read_bits :: "nat \<Rightarrow> bit_reader \<Rightarrow> (u32 \<times> bit_reader) option" where
  "read_bits n r = read_bits_loop n 0 r"

text \<open>Unsigned Exp-Golomb: the run of zeros (at most 31), then the suffix.\<close>

function read_ue_zeros :: "nat \<Rightarrow> bit_reader \<Rightarrow> (nat \<times> bit_reader) option" where
  "read_ue_zeros leading_zeros r =
     (case read_bits 1 r of
        None \<Rightarrow> None
      | Some (b, r) \<Rightarrow>
          if b = 1 then Some (leading_zeros, r)
          else if leading_zeros + 1 > 31 then None
          else read_ue_zeros (leading_zeros + 1) r)"
  by pat_completeness auto
termination
  by (relation "measure (\<lambda>(z, r). 31 - z)") auto

declare read_ue_zeros.simps [simp del]

definition read_ue :: "bit_reader \<Rightarrow> (u32 \<times> bit_reader) option" where
  "read_ue r = do {
     (leading_zeros, r) \<leftarrow> read_ue_zeros 0 r;
     (suffix, r) \<leftarrow> (if leading_zeros = 0 then Some (0, r) else read_bits leading_zeros r);
     Some (push_bit leading_zeros 1 - 1 + suffix, r)
   }"

definition read_se :: "bit_reader \<Rightarrow> (i32 \<times> bit_reader) option" where
  "read_se r = do {
     (code, r) \<leftarrow> read_ue r;
     if code AND 1 \<noteq> 0 then Some (drop_bit 1 (code + 1), r)
     else Some (- drop_bit 1 code, r)
   }"

section \<open>The writer\<close>

record bit_writer =
  bw_bytes :: bytes
  bw_pos :: nat

definition bit_writer_new :: bit_writer where
  "bit_writer_new = \<lparr>bw_bytes = [], bw_pos = 0\<rparr>"

text \<open>The body of the loop of \<open>write_bits\<close>.\<close>

definition write_bit :: "u8 \<Rightarrow> bit_writer \<Rightarrow> bit_writer" where
  "write_bit b w =
     (let byte_idx = bw_pos w div 8;
          bit_idx = 7 - bw_pos w mod 8;
          bs = (if byte_idx \<ge> length (bw_bytes w) then bw_bytes w @ [0] else bw_bytes w) in
      \<lparr>bw_bytes = bs[byte_idx := bs ! byte_idx OR push_bit bit_idx b], bw_pos = bw_pos w + 1\<rparr>)"

text \<open>The loop runs over \<open>(0..n).rev()\<close>; the shift amount of \<open>value >> i\<close> is taken modulo the
  width, as the release build does.\<close>

fun write_bits :: "u32 \<Rightarrow> nat \<Rightarrow> bit_writer \<Rightarrow> bit_writer" where
  "write_bits v 0 w = w"
| "write_bits v (Suc i) w = write_bits v i (write_bit (ucast (drop_bit (i mod 32) v AND 1)) w)"

definition leading_zeros_u64 :: "u64 \<Rightarrow> nat" where
  "leading_zeros_u64 x = length (takeWhile Not (map (bit x) (rev [0..<64])))"

fun write_zeros :: "nat \<Rightarrow> bit_writer \<Rightarrow> bit_writer" where
  "write_zeros 0 w = w"
| "write_zeros (Suc n) w = write_zeros n (write_bits 0 1 w)"

definition write_ue :: "u32 \<Rightarrow> bit_writer \<Rightarrow> bit_writer" where
  "write_ue value w =
     (let v_plus_1 = ucast value + (1 :: u64);
          leading_zeros = 63 - leading_zeros_u64 v_plus_1;
          w = write_zeros leading_zeros w;
          w = write_bits 1 1 w in
      if leading_zeros > 0 then
        let suffix = (value + 1) - push_bit (leading_zeros mod 32) 1 in
        write_bits suffix leading_zeros w
      else w)"

definition write_se :: "i32 \<Rightarrow> bit_writer \<Rightarrow> bit_writer" where
  "write_se value w =
     (let code = (if 0 <s value then value * 2 - 1 else (- value) * 2) in write_ue code w)"

lemma pad_measure: "x mod 8 \<noteq> 0 \<Longrightarrow> (8 - Suc x mod 8) mod 8 < (8 - x mod 8) mod (8::nat)"
proof -
  assume "x mod 8 \<noteq> 0"
  moreover have "x mod 8 < 8" by simp
  ultimately show ?thesis by (auto simp: mod_Suc)
qed

function pad_to_byte :: "bit_writer \<Rightarrow> bit_writer" where
  "pad_to_byte w = (if bw_pos w mod 8 \<noteq> 0 then pad_to_byte (write_bits 0 1 w) else w)"
  by pat_completeness auto
termination
proof (relation "measure (\<lambda>w. (8 - bw_pos w mod 8) mod 8)")
  show "wf (measure (\<lambda>w. (8 - bw_pos w mod 8) mod 8))" by simp
next
  fix w :: bit_writer assume nz: "bw_pos w mod 8 \<noteq> 0"
  have "bw_pos (write_bits 0 1 w) = bw_pos w + 1"
    by (simp add: write_bit_def Let_def)
  then show "(write_bits 0 1 w, w) \<in> measure (\<lambda>w. (8 - bw_pos w mod 8) mod 8)"
    using nz pad_measure [of "bw_pos w"] by simp
qed

declare pad_to_byte.simps [simp del]

definition write_rbsp_trailing_bits :: "bit_writer \<Rightarrow> bit_writer" where
  "write_rbsp_trailing_bits w = pad_to_byte (write_bits 1 1 w)"

definition into_bytes :: "bit_writer \<Rightarrow> bytes" where
  "into_bytes w = bw_bytes w"

end
