(* ===== verification/BitCodes.thy ===== *)
theory BitCodes
  imports BitIO "HOL-Library.Sublist"
begin

text \<open>
  The bit-string semantics of the reader and writer of \<open>BitIO\<close>: every read consumes, and
  every write appends, the code word of the value. The locale \<open>bit_code\<close> is the
  interface the SPS rewriters rely on; fixed-width fields, \<open>ue(v)\<close> and \<open>se(v)\<close> are its
  interpretations.
\<close>

section \<open>Readers\<close>

definition rbits :: "bit_reader \<Rightarrow> bool list" where
  "rbits r = drop (br_pos r) (bits_of (br_bytes r))"

definition adv :: "nat \<Rightarrow> bit_reader \<Rightarrow> bit_reader" where
  "adv n r = r\<lparr>br_pos := br_pos r + n\<rparr>"

lemma adv_simps [simp]: "adv 0 r = r" "adv m (adv n r) = adv (n + m) r"
  "br_bytes (adv n r) = br_bytes r" "br_pos (adv n r) = br_pos r + n"
  by (simp_all add: adv_def add.assoc)

lemma rbits_adv [simp]: "rbits (adv n r) = drop n (rbits r)"
  by (simp add: rbits_def add.commute)

lemma rbits_new [simp]: "rbits (bit_reader_new bs) = bits_of bs"
  by (simp add: rbits_def bit_reader_new_def)

lemma rbits_adv_append: "rbits r = c @ rest \<Longrightarrow> rbits (adv (length c) r) = rest"
  by simp

lemma drop_bit_and_1: "drop_bit i (x :: 'a::len word) AND 1 = of_bool (bit x i)"
  by (simp add: and_one_eq bit_iff_odd_drop_bit mod_2_eq_odd)

lemma push_or_of_bool: "push_bit 1 (v :: u32) OR of_bool b = v * 2 + of_bool b"
  by (cases b) (simp_all add: or_one_eq)

lemma read_bits_loop_eq:
  "read_bits_loop n v r =
     (if n \<le> length (rbits r)
      then Some (v * 2 ^ n + of_nat (bval (take n (rbits r))), adv n r) else None)"
proof (induction n arbitrary: v r)
  case 0
  then show ?case by simp
next
  case (Suc n)
  let ?i = "br_pos r"
  show ?case
  proof (cases "?i < 8 * length (br_bytes r)")
    case False
    then have "length (br_bytes r) \<le> ?i div 8" by linarith
    with False show ?thesis by (simp add: rbits_def Let_def)
  next
    case True
    then have idx: "\<not> length (br_bytes r) \<le> ?i div 8" by auto
    let ?b = "bits_of (br_bytes r) ! ?i"
    obtain t where rb: "rbits r = ?b # t" and rt: "rbits (adv 1 r) = t"
      using True by (simp add: rbits_def drop_eq_nth_Cons)
    have "read_bits_loop (Suc n) v r =
        read_bits_loop n (v * 2 + of_bool ?b) (adv 1 r)"
      using idx True push_or_of_bool [of v ?b]
      by (cases ?b) (simp_all add: Let_def drop_bit_and_1 nth_bits_of adv_def)
    then show ?thesis
      using rb rt Suc [of "v * 2 + of_bool ?b" "adv 1 r"]
      by (simp add: algebra_simps del: read_bits_loop.simps)
  qed
qed

lemma read_bits_iff:
  assumes "n \<le> 32"
  shows "read_bits n r = Some (v, r') \<longleftrightarrow>
     unat v < 2 ^ n \<and> prefix (ubits n v) (rbits r) \<and> r' = adv n r"
proof
  assume rd: "read_bits n r = Some (v, r')"
  let ?c = "take n (rbits r)"
  from rd have n: "n \<le> length (rbits r)" and v: "v = of_nat (bval ?c)" and r': "r' = adv n r"
    by (auto simp: read_bits_def read_bits_loop_eq split: if_splits)
  have len: "length ?c = n" using n by simp
  have lt: "bval ?c < 2 ^ n" using bval_less [of ?c] unfolding len .
  also have "(2::nat) ^ n \<le> 2 ^ LENGTH(32)" using assms by (intro power_increasing) auto
  finally have "unat v = bval ?c" unfolding v unat_of_nat by simp
  moreover have "ubits n v = ?c" unfolding v using assms len by (intro ubits_bval) auto
  ultimately show "unat v < 2 ^ n \<and> prefix (ubits n v) (rbits r) \<and> r' = adv n r"
    using r' lt by (simp add: take_is_prefix)
next
  assume *: "unat v < 2 ^ n \<and> prefix (ubits n v) (rbits r) \<and> r' = adv n r"
  then obtain t where t: "rbits r = ubits n v @ t" by (auto elim: prefixE)
  with * show "read_bits n r = Some (v, r')"
    by (simp add: read_bits_def read_bits_loop_eq of_nat_bval_ubits)
qed

lemma read_bit_iff:
  "read_bits 1 r = Some (v, r') \<longleftrightarrow> (\<exists>b t. v = of_bool b \<and> rbits r = b # t \<and> r' = adv 1 r)"
proof -
  have "read_bits 1 r = (case rbits r of [] \<Rightarrow> None | b # t \<Rightarrow> Some (of_bool b, adv 1 r))"
    by (cases "rbits r") (simp_all add: read_bits_def read_bits_loop_eq del: read_bits_loop.simps)
  then show ?thesis by (auto split: list.splits)
qed

section \<open>Writers\<close>

definition bit_at :: "bytes \<Rightarrow> nat \<Rightarrow> bool" where
  "bit_at bs k = bit (bs ! (k div 8)) (7 - k mod 8)"

text \<open>The writer's invariant: just enough bytes, and the unused bits of the last are zero.\<close>

definition wf_writer :: "bit_writer \<Rightarrow> bool" where
  "wf_writer w \<longleftrightarrow> length (bw_bytes w) = (bw_pos w + 7) div 8 \<and>
     (\<forall>k. bw_pos w \<le> k \<longrightarrow> k < 8 * length (bw_bytes w) \<longrightarrow> \<not> bit_at (bw_bytes w) k)"

definition wbits :: "bit_writer \<Rightarrow> bool list" where
  "wbits w = take (bw_pos w) (bits_of (bw_bytes w))"

lemma wf_writer_new [simp]: "wf_writer bit_writer_new" "wbits bit_writer_new = []"
  by (simp_all add: wf_writer_def bit_writer_new_def wbits_def)

lemma wf_writer_pos: "wf_writer w \<Longrightarrow> bw_pos w \<le> 8 * length (bw_bytes w)"
  by (auto simp: wf_writer_def)

lemma length_wbits: "wf_writer w \<Longrightarrow> length (wbits w) = bw_pos w"
  using wf_writer_pos [of w] by (simp add: wbits_def)

lemma write_bit_pos [simp]: "bw_pos (write_bit b w) = bw_pos w + 1"
  by (simp add: write_bit_def Let_def)

text \<open>The bytes of a writer after one more bit, seen bit by bit.\<close>

lemma write_bit_bytes:
  fixes b :: bool
  assumes "wf_writer w"
  defines "bs \<equiv> bw_bytes (write_bit (of_bool b) w)"
  shows "length bs = (bw_pos w + 8) div 8"
    and "k < 8 * length bs \<Longrightarrow>
      bit_at bs k = (if k < bw_pos w then bit_at (bw_bytes w) k else k = bw_pos w \<and> b)"
proof -
  let ?p = "bw_pos w" and ?n = "length (bw_bytes w)"
  define ex where "ex = (if ?p div 8 \<ge> ?n then bw_bytes w @ [0] else bw_bytes w)"
  have n: "?n = (?p + 7) div 8" using assms(1) by (simp add: wf_writer_def)
  have bs: "bs = ex[?p div 8 := ex ! (?p div 8) OR push_bit (7 - ?p mod 8) (of_bool b)]"
    by (simp add: bs_def write_bit_def Let_def ex_def)
  have lex: "length ex = (?p + 8) div 8"
    unfolding ex_def using n by auto
  then show "length bs = (?p + 8) div 8" by (simp add: bs)
  have exk: "bit_at ex k = (k < ?p \<and> bit_at (bw_bytes w) k)" if "k < 8 * length ex" for k
  proof (cases "k < 8 * ?n")
    case True
    then have "k div 8 < ?n" by auto
    then have "bit_at ex k = bit_at (bw_bytes w) k"
      by (simp add: bit_at_def ex_def nth_append)
    with True assms(1) show ?thesis unfolding wf_writer_def by (metis not_le)
  next
    case False
    then have "ex = bw_bytes w @ [0]" "k div 8 = ?n"
      using that by (auto simp: ex_def split: if_splits)
    moreover have "\<not> k < ?p" using False wf_writer_pos [OF assms(1)] by simp
    ultimately show ?thesis by (simp add: bit_at_def nth_append)
  qed
  assume k: "k < 8 * length bs"
  then have k': "k < 8 * length ex" "k div 8 < length ex" by (auto simp: bs)
  show "bit_at bs k = (if k < ?p then bit_at (bw_bytes w) k else k = ?p \<and> b)"
  proof (cases "k div 8 = ?p div 8")
    case True
    have "k = ?p \<longleftrightarrow> k mod 8 = ?p mod 8" using True by (metis div_mult_mod_eq)
    moreover have "k mod 8 \<le> 7" "?p mod 8 \<le> 7" by simp_all
    ultimately have "(7 - ?p mod 8 = 7 - k mod 8) = (k = ?p)" by linarith
    then have "bit_at bs k = (bit_at ex k \<or> (k = ?p \<and> b))"
      using True k' by (auto simp: bs bit_at_def bit_or_iff bit_push_bit_iff bit_of_bool_iff) linarith
    then show ?thesis using exk [OF k'(1)] by auto
  next
    case False
    then have "bit_at bs k = bit_at ex k" by (auto simp: bs bit_at_def)
    then show ?thesis using exk [OF k'(1)] False by auto
  qed
qed

lemma wf_write_bit:
  assumes "wf_writer w"
  shows "wf_writer (write_bit (of_bool b) w)" "wbits (write_bit (of_bool b) w) = wbits w @ [b]"
proof -
  let ?w = "write_bit (of_bool b) w" and ?p = "bw_pos w"
  have len: "length (bw_bytes ?w) = (?p + 8) div 8" by (rule write_bit_bytes [OF assms])
  have bits: "k < 8 * length (bw_bytes ?w) \<Longrightarrow>
      bit_at (bw_bytes ?w) k = (if k < ?p then bit_at (bw_bytes w) k else k = ?p \<and> b)" for k
    by (rule write_bit_bytes [OF assms])
  show "wf_writer ?w"
    unfolding wf_writer_def using len bits by auto
  have p: "?p < 8 * length (bw_bytes ?w)" unfolding len by auto
  have old: "?p \<le> 8 * length (bw_bytes w)" by (rule wf_writer_pos [OF assms])
  show "wbits ?w = wbits w @ [b]"
  proof (rule nth_equalityI)
    fix k assume "k < length (wbits ?w)"
    then have k: "k \<le> ?p" "k < 8 * length (bw_bytes ?w)" using p by (auto simp: wbits_def)
    then show "wbits ?w ! k = (wbits w @ [b]) ! k"
      using bits [of k] old by (auto simp: wbits_def nth_append nth_bits_of bit_at_def)
  qed (use p old in \<open>simp add: wbits_def\<close>)
qed

lemma write_bits_wf:
  assumes "n \<le> 32" "wf_writer w"
  shows "wf_writer (write_bits v n w) \<and> wbits (write_bits v n w) = wbits w @ ubits n v"
  using assms
proof (induction n arbitrary: w)
  case 0
  then show ?case by simp
next
  case (Suc n)
  have b: "(ucast (drop_bit (n mod 32) v AND 1) :: u8) = of_bool (bit v n)"
    using Suc.prems(1) by (cases "bit v n") (simp_all add: drop_bit_and_1)
  have wb: "wf_writer (write_bit (of_bool (bit v n)) w)"
    "wbits (write_bit (of_bool (bit v n)) w) = wbits w @ [bit v n]"
    using wf_write_bit [OF Suc.prems(2)] by blast+
  show ?case
    using Suc.IH [OF _ wb(1)] Suc.prems(1) wb(2) by (simp only: write_bits.simps ubits.simps b) simp
qed

lemmas wf_write_bits [simp] = write_bits_wf [THEN conjunct1]
lemmas wbits_write_bits [simp] = write_bits_wf [THEN conjunct2]

lemma write_zeros_wf:
  "wf_writer w \<Longrightarrow> wf_writer (write_zeros n w) \<and> wbits (write_zeros n w) = wbits w @ replicate n False"
  by (induction n arbitrary: w) (simp_all del: write_bits.simps One_nat_def, simp)

section \<open>Exp-Golomb codes\<close>

definition ue_len :: "u32 \<Rightarrow> nat" where
  "ue_len v = 63 - leading_zeros_u64 (ucast v + 1)"

definition ue_bits :: "u32 \<Rightarrow> bool list" where
  "ue_bits v = replicate (ue_len v) False @ True # ubits (ue_len v) (v + 1 - push_bit (ue_len v) 1)"

text \<open>\<open>ue_len v\<close> is the logarithm of \<open>v + 1\<close>.\<close>

lemma leading_zeros_u64_bounds:
  assumes "x \<noteq> 0"
  defines "l \<equiv> 63 - leading_zeros_u64 x"
  shows "2 ^ l \<le> unat x" "unat x < 2 ^ Suc l" "l < 64" "leading_zeros_u64 x < 64"
proof -
  let ?L = "map (bit x) (rev [0..<64])"
  let ?z = "leading_zeros_u64 x"
  have nth: "?L ! k = bit x (63 - k)" if "k < 64" for k using that by (simp add: rev_nth)
  have ex: "\<exists>k<64. bit x k"
  proof (rule ccontr)
    assume "\<not> (\<exists>k<64. bit x k)"
    then have "x = 0" by (intro bit_word_eqI) auto
    with assms(1) show False ..
  qed
  then have "\<not> (\<forall>y \<in> set ?L. \<not> y)" by auto
  then have "takeWhile Not ?L \<noteq> ?L" unfolding takeWhile_eq_all_conv by blast
  then have z: "?z < length ?L"
    unfolding leading_zeros_u64_def
    by (metis le_neq_implies_less length_takeWhile_le take_all_iff takeWhile_eq_take order_refl)
  then have top: "bit x l"
    using nth_length_takeWhile [of Not ?L] nth [of ?z] by (simp add: leading_zeros_u64_def l_def)
  have above: "\<not> bit x k" if "l < k" for k
  proof (cases "k < 64")
    case True
    with that have "63 - k < ?z" by (simp add: l_def)
    then have "\<not> ?L ! (63 - k)"
      unfolding leading_zeros_u64_def using set_takeWhileD nth_mem takeWhile_nth by metis
    then show ?thesis using nth [of "63 - k"] True by simp
  qed (auto dest: bit_imp_le_length)
  have "unat x = take_bit (Suc l) (unat x)"
    by (rule bit_eqI) (use above in \<open>auto simp: bit_take_bit_iff bit_unsigned_iff not_less_eq_eq Suc_le_eq\<close>, meson not_less_eq)
  then show "unat x < 2 ^ Suc l" by (metis take_bit_nat_less_exp)
  show "2 ^ l \<le> unat x"
    using top by (metis bit_iff_odd div_less even_zero not_le bit_unsigned_iff possible_bit_nat)
  show "l < 64" "?z < 64" using z by (auto simp: l_def)
qed

lemma unat_ucast_plus1: "unat (ucast (v :: u32) + 1 :: u64) = unat v + 1"
proof -
  have lt: "unat v < 2 ^ 32" using unsigned_less [of v] by simp
  then have "unat v < 2 ^ 64" by simp
  then have "unat (ucast v :: u64) = unat v"
    by (simp add: unsigned_ucast_eq take_bit_nat_eq_self del: power_numeral)
  with lt show ?thesis by (simp add: unat_word_ariths)
qed

lemma ue_len_bounds: "2 ^ ue_len v \<le> unat v + 1" "unat v + 1 < 2 ^ Suc (ue_len v)"
proof -
  have nz: "ucast v + 1 \<noteq> (0 :: u64)"
    using unat_ucast_plus1 [of v] by (metis add_eq_0_iff_both_eq_0 one_neq_zero unat_0)
  show "2 ^ ue_len v \<le> unat v + 1" "unat v + 1 < 2 ^ Suc (ue_len v)"
    using leading_zeros_u64_bounds(1,2) [OF nz] unfolding ue_len_def unat_ucast_plus1 by blast+
qed

lemma log2_unique:
  assumes "2 ^ k \<le> n" "n < 2 ^ Suc k" "2 ^ l \<le> n" "n < (2 :: nat) ^ Suc l"
  shows "k = l"
proof -
  have "(2::nat) ^ k < 2 ^ Suc l" "(2::nat) ^ l < 2 ^ Suc k" using assms by linarith+
  then show ?thesis by (simp add: less_Suc_eq_le del: power_Suc)
qed

lemma not_max_u32: "v \<noteq> - 1 \<longleftrightarrow> unat (v :: u32) + 1 < 2 ^ 32"
proof -
  have "unat v < 2 ^ 32" using unsigned_less [of v] by simp
  moreover have "unat (- 1 :: u32) = 2 ^ 32 - 1" by (simp add: unsigned_minus_1_eq_mask mask_eq_exp_minus_1)
  then have "v = - 1 \<longleftrightarrow> unat v = 2 ^ 32 - 1" by (metis word_unat_eq_iff)
  ultimately show ?thesis by auto
qed

text \<open>Every value but \<open>u32::MAX\<close> is \<open>2 ^ k - 1 + s\<close> with \<open>k \<le> 31\<close> and \<open>s < 2 ^ k\<close>, in one way.\<close>

lemma unat_u32_pow: "k \<le> 31 \<Longrightarrow> unat (2 ^ k :: u32) = 2 ^ k"
proof -
  assume "k \<le> 31"
  then have "(2::nat) ^ k \<le> 2 ^ 31" by (intro power_increasing) auto
  moreover have "unat (2 ^ k :: u32) = 2 ^ k mod 2 ^ 32" using unat_of_nat [of "2 ^ k", where ?'a = 32] by simp
  ultimately show ?thesis by simp
qed

lemma ue_split:
  assumes "v \<noteq> - 1"
  shows "ue_len v \<le> 31" "unat (v + 1 - push_bit (ue_len v) 1) < 2 ^ ue_len v"
    "push_bit (ue_len v) 1 - 1 + (v + 1 - push_bit (ue_len v) 1) = v"
proof -
  let ?k = "ue_len v"
  have lt: "unat v + 1 < 2 ^ 32" using assms unfolding not_max_u32 .
  then have "(2::nat) ^ ?k < 2 ^ 32" using ue_len_bounds(1) [of v] by linarith
  then show k: "?k \<le> 31" by (subst (asm) power_strict_increasing_iff) auto
  have p: "unat (2 ^ ?k :: u32) = 2 ^ ?k" by (rule unat_u32_pow [OF k])
  have v1: "unat (v + 1) = unat v + 1" using lt by (simp add: unat_word_ariths)
  have "push_bit ?k 1 \<le> v + 1" using ue_len_bounds(1) [of v] by (simp add: word_le_nat_alt p v1)
  then have "unat (v + 1 - push_bit ?k 1) = unat v + 1 - 2 ^ ?k" by (simp add: unat_sub p v1)
  then show "unat (v + 1 - push_bit ?k 1) < 2 ^ ?k" using ue_len_bounds [of v] by simp
qed simp

lemma ue_join:
  assumes "k \<le> 31" "unat s < 2 ^ k"
  defines "v \<equiv> push_bit k 1 - 1 + (s :: u32)"
  shows "v \<noteq> - 1" "ue_len v = k" "v + 1 - push_bit k 1 = s"
proof -
  have p: "unat (2 ^ k :: u32) = 2 ^ k" by (rule unat_u32_pow [OF assms(1)])
  have le: "(2::nat) ^ k \<le> 2 ^ 31" using assms(1) by (intro power_increasing) auto
  have "(1 :: u32) \<le> push_bit k 1" by (simp add: word_le_nat_alt p)
  then have m: "unat (push_bit k 1 - 1 :: u32) = 2 ^ k - 1" by (simp add: unat_sub p)
  have "unat v = (2 ^ k - 1 + unat s) mod 2 ^ 32" by (simp add: v_def unat_word_ariths m [simplified])
  also have "\<dots> = 2 ^ k - 1 + unat s" using assms(2) le by (intro mod_less) simp
  finally have uv: "unat v = 2 ^ k - 1 + unat s" .
  have ge: "(1::nat) \<le> 2 ^ k" by simp
  show "v \<noteq> - 1" unfolding not_max_u32 uv using assms(2) le ge by simp
  have "2 ^ k \<le> unat v + 1" "unat v + 1 < 2 ^ Suc k" using assms(2) ge uv by simp_all
  then show "ue_len v = k" using ue_len_bounds log2_unique by blast
  show "v + 1 - push_bit k 1 = s" by (simp add: v_def)
qed

lemma read_ue_zeros_iff:
  "z \<le> 31 \<Longrightarrow> read_ue_zeros z r = Some (k, r') \<longleftrightarrow>
     z \<le> k \<and> k \<le> 31 \<and> prefix (replicate (k - z) False @ [True]) (rbits r) \<and> r' = adv (k - z + 1) r"
proof (induction z r rule: read_ue_zeros.induct)
  case (1 z r)
  show ?case
  proof (cases "rbits r")
    case Nil
    then have "read_bits 1 r = None" using read_bit_iff [of r] by (cases "read_bits 1 r") auto
    with Nil show ?thesis by (subst read_ue_zeros.simps) simp
  next
    case (Cons b t)
    then have rd: "read_bits 1 r = Some (of_bool b, adv 1 r)" using read_bit_iff by blast
    have t: "rbits (adv 1 r) = t" using Cons by simp
    show ?thesis
    proof (cases b)
      case True
      then show ?thesis using rd Cons
        "1.prems" by (subst read_ue_zeros.simps, cases "k - z") auto
    next
      case False
      then have "read_ue_zeros z r = (if z + 1 > 31 then None else read_ue_zeros (z + 1) (adv 1 r))"
        using rd by (subst read_ue_zeros.simps) simp
      moreover have "read_ue_zeros (z + 1) (adv 1 r) = Some (k, r') \<longleftrightarrow>
        z + 1 \<le> k \<and> k \<le> 31 \<and> prefix (replicate (k - (z + 1)) False @ [True]) t \<and> r' = adv (k - (z + 1) + 1) (adv 1 r)"
        if "z + 1 \<le> 31"
        using "1.IH" [OF rd refl] False that t by simp
      moreover have "prefix (replicate (k - z) False @ [True]) (rbits r) \<longleftrightarrow>
        z < k \<and> prefix (replicate (k - (z + 1)) False @ [True]) t" if "z \<le> k"
        using that Cons False by (cases "k - z") (auto simp: diff_Suc)
      ultimately show ?thesis by auto
    qed
  qed
qed

lemma length_ue_bits: "length (ue_bits v) = 2 * ue_len v + 1"
  by (simp add: ue_bits_def)

lemma read_ue_iff:
  "read_ue r = Some (v, r') \<longleftrightarrow>
     v \<noteq> - 1 \<and> prefix (ue_bits v) (rbits r) \<and> r' = adv (length (ue_bits v)) r" (is "?L \<longleftrightarrow> ?R")
proof
  assume ?L
  then obtain k r1 s where z: "read_ue_zeros 0 r = Some (k, r1)"
    and s: "(if k = 0 then Some (0, r1) else read_bits k r1) = Some (s, r')"
    and v: "v = push_bit k 1 - 1 + s"
    unfolding read_ue_def by (auto simp: bind_eq_Some_conv)
  from z have k: "k \<le> 31" "prefix (replicate k False @ [True]) (rbits r)" "r1 = adv (k + 1) r"
    by (simp_all add: read_ue_zeros_iff)
  then obtain t where t: "rbits r = replicate k False @ True # t" by (auto elim: prefixE)
  with k have t1: "rbits r1 = t" by simp
  have s': "unat s < 2 ^ k \<and> prefix (ubits k s) t \<and> r' = adv k r1"
    using s k(1) read_bits_iff [of k r1 s r'] t1 by (auto split: if_splits)
  note j = ue_join [OF k(1) conjunct1 [OF s']]
  show ?R using s' k(3) j(2,3) t unfolding v [symmetric] ue_bits_def by (simp add: j(1) [folded v])
next
  assume R: ?R
  let ?k = "ue_len v" and ?s = "v + 1 - push_bit (ue_len v) 1"
  from R have "v \<noteq> - 1" by blast
  note sp = ue_split [OF this]
  from R obtain t where t: "rbits r = replicate ?k False @ True # ubits ?k ?s @ t"
    by (auto simp: ue_bits_def elim: prefixE)
  have z: "read_ue_zeros 0 r = Some (?k, adv (?k + 1) r)"
    using sp(1) t by (simp add: read_ue_zeros_iff prefix_def)
  have "?k = 0 \<Longrightarrow> ?s = 0" using sp(2) by (simp add: unsigned_eq_0_iff)
  moreover have "read_bits ?k (adv (?k + 1) r) = Some (?s, adv (2 * ?k + 1) r)"
    using sp t by (subst read_bits_iff) (simp_all add: prefix_def mult_2)
  ultimately show ?L using z R sp(3) by (cases "?k = 0") (auto simp: read_ue_def length_ue_bits)
qed

lemma write_ue_wf:
  assumes "v \<noteq> - 1" "wf_writer w"
  shows "wf_writer (write_ue v w) \<and> wbits (write_ue v w) = wbits w @ ue_bits v"
proof -
  let ?k = "ue_len v"
  define w1 where "w1 = write_zeros ?k w"
  have w1: "wf_writer w1" "wbits w1 = wbits w @ replicate ?k False"
    using write_zeros_wf [OF assms(2)] by (auto simp: w1_def)
  define w2 where "w2 = write_bits 1 1 w1"
  have w2: "wf_writer w2" "wbits w2 = wbits w @ replicate ?k False @ [True]"
    using w1 write_bits_wf [OF _ w1(1), of 1 1] by (auto simp: w2_def)
  have k: "?k \<le> 31" by (rule ue_split(1) [OF assms(1)])
  then have eq: "write_ue v w = (if ?k > 0 then write_bits (v + 1 - push_bit ?k 1) ?k w2 else w2)"
    by (simp only: write_ue_def ue_len_def [symmetric] Let_def w1_def w2_def) simp
  show ?thesis
    using k w2 write_bits_wf [OF _ w2(1), of ?k] unfolding eq ue_bits_def by (auto simp del: write_bits.simps)
qed

section \<open>Signed Exp-Golomb\<close>

text \<open>\<open>se_code\<close> and \<open>se_value\<close> are mutually inverse between \<open>i32\<close> without \<open>i32::MIN\<close> and \<open>u32\<close>
  without \<open>u32::MAX\<close>.\<close>

definition se_code :: "i32 \<Rightarrow> u32" where
  "se_code v = (if 0 <s v then v * 2 - 1 else (- v) * 2)"

definition se_value :: "u32 \<Rightarrow> i32" where
  "se_value c = (if c AND 1 \<noteq> 0 then drop_bit 1 (c + 1) else - drop_bit 1 c)"

lemma se_code_int:
  assumes "- (2 ^ 31) < x" "x < 2 ^ 31"
  shows "se_code (word_of_int x) = word_of_int (if 0 < x then 2 * x - 1 else - 2 * x)"
proof -
  have "sint (word_of_int x :: i32) = x"
    using assms by (simp add: sint_sbintrunc' signed_take_bit_int_eq_self)
  then have "(0 :: i32) <s word_of_int x \<longleftrightarrow> 0 < x" by (simp add: word_sless_alt)
  then show ?thesis by (simp add: se_code_def mult.commute)
qed

lemma drop_bit_1_int:
  assumes "0 \<le> y" "y < 2 ^ 32"
  shows "drop_bit 1 (word_of_int y :: u32) = word_of_int (y div 2)"
proof -
  have "take_bit 32 y = y" using assms by (simp add: take_bit_int_eq_self)
  then show ?thesis by transfer (simp add: drop_bit_eq_div take_bit_eq_mod)
qed

lemma se_value_int:
  assumes "0 \<le> y" "y < 2 ^ 32 - 1"
  shows "se_value (word_of_int y) = word_of_int (if odd y then (y + 1) div 2 else - (y div 2))"
proof -
  have "(word_of_int y :: u32) AND 1 \<noteq> 0 \<longleftrightarrow> odd y"
    by (simp add: and_one_eq mod_2_eq_odd) (transfer, simp add: even_take_bit_eq)
  moreover have "word_of_int y + 1 = (word_of_int (y + 1) :: u32)" by simp
  ultimately show ?thesis
    using assms drop_bit_1_int [of y] drop_bit_1_int [of "y + 1"] by (simp add: se_value_def)
qed

lemma se_value_code:
  assumes "v \<noteq> 0x80000000"
  shows "se_value (se_code v) = v" "se_code v \<noteq> - 1"
proof -
  define x where "x = sint v"
  have v: "v = word_of_int x" by (simp add: x_def)
  have "x \<noteq> - (2 ^ 31)"
  proof
    assume "x = - (2 ^ 31)"
    then have "v = 0x80000000" by (simp add: v)
    with assms show False ..
  qed
  moreover have "- (2 ^ 31) \<le> x" "x < 2 ^ 31"
    using sint_greater_eq [of v] sint_less [of v] by (simp_all add: x_def)
  ultimately have x: "- (2 ^ 31) < x" "x < 2 ^ 31" by auto
  let ?y = "if 0 < x then 2 * x - 1 else - 2 * x"
  have c: "se_code v = word_of_int ?y" using se_code_int [OF x] by (simp add: v)
  have y: "0 \<le> ?y" "?y < 2 ^ 32 - 1" using x by auto
  have "(if odd ?y then (?y + 1) div 2 else - (?y div 2)) = x" by (cases "0 < x") auto
  then show "se_value (se_code v) = v" unfolding c se_value_int [OF y] by (simp only: v)
  have "uint (word_of_int ?y :: u32) = ?y" using y by (simp add: uint_word_of_int_eq take_bit_int_eq_self del: of_int_diff of_int_mult)
  then show "se_code v \<noteq> - 1" unfolding c not_max_u32 
    using y by (simp add: unat_eq_nat_uint)
qed


lemma se_x_bounds:
  fixes y :: int
  assumes "0 \<le> y" "y < 2 ^ 32 - 1"
  defines "x \<equiv> if odd y then (y + 1) div 2 else - (y div 2)"
  shows "- (2 ^ 31) < x" "x < 2 ^ 31" "(if 0 < x then 2 * x - 1 else - 2 * x) = y"
proof -
  obtain k where k: "y = 2 * k \<or> y = 2 * k + 1" by (metis evenE oddE)
  then have x: "x = (if odd y then k + 1 else - k)" by (auto simp: x_def)
  show "- (2 ^ 31) < x" "x < 2 ^ 31" unfolding x using assms(1,2) k by auto
  show "(if 0 < x then 2 * x - 1 else - 2 * x) = y" unfolding x using assms(1,2) k by auto
qed

lemma sint_min_i32: "sint (0x80000000 :: i32) = - (2 ^ 31)"
  by simp

lemma se_code_value:
  assumes "c \<noteq> - 1"
  shows "se_code (se_value c) = c" "se_value c \<noteq> 0x80000000"
proof -
  define y where "y = uint c"
  have c: "c = word_of_int y" by (simp add: y_def)
  have y0: "0 \<le> y" by (simp add: y_def)
  have y1: "y < 2 ^ 32 - 1"
    using assms unfolding not_max_u32 unat_eq_nat_uint y_def [symmetric] using y0 by simp
  define x where "x = (if odd y then (y + 1) div 2 else - (y div 2))"
  have v: "se_value c = word_of_int x" using se_value_int [OF y0 y1] by (simp only: c x_def)
  note x = se_x_bounds [OF y0 y1, folded x_def]
  show "se_code (se_value c) = c"
    unfolding v se_code_int [OF x(1,2)] x(3) by (simp only: c)
  have "sint (se_value c) = x"
    using x(1,2) unfolding v sint_sbintrunc' by (intro signed_take_bit_int_eq_self) simp_all
  then show "se_value c \<noteq> 0x80000000" using x sint_min_i32 by (metis less_irrefl)
qed
definition se_bits :: "i32 \<Rightarrow> bool list" where
  "se_bits v = ue_bits (se_code v)"

lemma read_se_value: "read_se r = Option.bind (read_ue r) (\<lambda>(c, r). Some (se_value c, r))"
  unfolding read_se_def se_value_def by (rule arg_cong [where f = "Option.bind (read_ue r)"]) (rule ext, auto)

lemma read_se_iff:
  "read_se r = Some (v, r') \<longleftrightarrow>
     v \<noteq> 0x80000000 \<and> prefix (se_bits v) (rbits r) \<and> r' = adv (length (se_bits v)) r" (is "?L \<longleftrightarrow> ?R")
proof
  assume ?L
  then obtain c where c: "read_ue r = Some (c, r')" and v: "v = se_value c"
    unfolding read_se_value by (auto simp only: bind_eq_Some_conv split: prod.splits)
  then have "c \<noteq> - 1" "prefix (ue_bits c) (rbits r) \<and> r' = adv (length (ue_bits c)) r"
    unfolding read_ue_iff by blast+
  then show ?R unfolding v se_bits_def using se_code_value [of c] by simp
next
  assume R: ?R
  then have v: "se_value (se_code v) = v" "se_code v \<noteq> - 1" using se_value_code by blast+
  then have "read_ue r = Some (se_code v, r')" using R unfolding read_ue_iff se_bits_def by blast
  then show ?L unfolding read_se_value by (simp only: bind.simps prod.case v)
qed

lemma write_se_wf:
  assumes "v \<noteq> 0x80000000" "wf_writer w"
  shows "wf_writer (write_se v w) \<and> wbits (write_se v w) = wbits w @ se_bits v"
  using write_ue_wf [OF se_value_code(2) [OF assms(1)] assms(2)]
  by (simp add: write_se_def se_code_def [symmetric] se_bits_def)

section \<open>The end of a bit string\<close>

lemma bits_of_writer:
  assumes "wf_writer w"
  shows "bits_of (bw_bytes w) = wbits w @ replicate (8 * length (bw_bytes w) - bw_pos w) False"
proof (rule nth_equalityI)
  have le: "bw_pos w \<le> 8 * length (bw_bytes w)" by (rule wf_writer_pos [OF assms])
  then show "length (bits_of (bw_bytes w)) =
      length (wbits w @ replicate (8 * length (bw_bytes w) - bw_pos w) False)"
    by (simp add: wbits_def)
  fix k assume "k < length (bits_of (bw_bytes w))"
  then have k: "k < 8 * length (bw_bytes w)" by simp
  then have "\<not> bit_at (bw_bytes w) k" if "bw_pos w \<le> k" using assms that by (simp add: wf_writer_def)
  then show "bits_of (bw_bytes w) ! k =
      (wbits w @ replicate (8 * length (bw_bytes w) - bw_pos w) False) ! k"
    using k le by (auto simp: nth_append wbits_def nth_bits_of bit_at_def)
qed

lemma pad_to_byte_wf:
  "wf_writer w \<Longrightarrow> wf_writer (pad_to_byte w) \<and> 8 dvd bw_pos (pad_to_byte w) \<and>
     (\<exists>k<8. wbits (pad_to_byte w) = wbits w @ replicate k False)"
proof -
  have "wf_writer w \<Longrightarrow> wf_writer (pad_to_byte w) \<and> 8 dvd bw_pos (pad_to_byte w) \<and>
     wbits (pad_to_byte w) = wbits w @ replicate ((8 - bw_pos w mod 8) mod 8) False"
  proof (induction w rule: pad_to_byte.induct)
    case (1 w)
    show ?case
    proof (cases "bw_pos w mod 8 = 0")
      case True
      then show ?thesis using "1.prems" by (subst (1 2 3) pad_to_byte.simps) (simp add: mod_eq_0_iff_dvd)
    next
      case False
      let ?w = "write_bits 0 1 w"
      have w: "wf_writer ?w" "wbits ?w = wbits w @ [False]" "bw_pos ?w = bw_pos w + 1"
        using write_bits_wf [OF _ "1.prems", of 1 0] by auto
      have "(8 - bw_pos w mod 8) mod 8 = Suc ((8 - Suc (bw_pos w) mod 8) mod 8)"
        using False by (cases "bw_pos w mod 8 = 7") (simp_all add: mod_Suc Suc_diff_Suc)
      then have "replicate ((8 - bw_pos w mod 8) mod 8) False = False # replicate ((8 - bw_pos ?w mod 8) mod 8) False"
        using w(3) by simp
      moreover have "pad_to_byte w = pad_to_byte ?w" using False by (subst pad_to_byte.simps) simp
      ultimately show ?thesis
        using "1.IH" [OF False w(1)] w(2) by simp
    qed
  qed
  moreover have "(8 - bw_pos w mod 8) mod 8 < 8" by simp
  ultimately show "wf_writer w \<Longrightarrow> ?thesis" by blast
qed

text \<open>The bytes of a finished RBSP: the bits written, a stop bit and fewer than eight zeros.\<close>

lemma rbsp_trailing_bits:
  assumes "wf_writer w"
  shows "\<exists>k<8. bits_of (into_bytes (write_rbsp_trailing_bits w)) = wbits w @ True # replicate k False"
proof -
  let ?w = "write_bits 1 1 w"
  have w: "wf_writer ?w" "wbits ?w = wbits w @ [True]" using write_bits_wf [OF _ assms, of 1 1] by auto
  let ?p = "pad_to_byte ?w"
  obtain k where k: "wf_writer ?p" "8 dvd bw_pos ?p" "k < 8" "wbits ?p = wbits ?w @ replicate k False"
    using pad_to_byte_wf [OF w(1)] by auto
  then have "8 * length (bw_bytes ?p) = bw_pos ?p" by (auto simp: wf_writer_def)
  then have "bits_of (bw_bytes ?p) = wbits ?p" using bits_of_writer [OF k(1)] by simp
  then show ?thesis using k w by (auto simp: write_rbsp_trailing_bits_def into_bytes_def)
qed

end
