(* ===== verification/SpsSteps.thy ===== *)
theory SpsSteps
  imports BitCodes
begin

text \<open>
  The vocabulary of the SPS rewriters of \<^verbatim>\<open>crates/penflow-core/src/encoder/sps_patcher.rs\<close>.
  A rewriter holds a \<open>&mut BitReader\<close> and a \<open>&mut BitWriter\<close>; here it is a step from a
  reader and a writer to a value with the new reader and writer, or to \<open>None\<close> where the
  source returns \<^verbatim>\<open>Err(EngineError::NotInitialized)\<close>. The recurring pairs of source lines
  \<^verbatim>\<open>let v = r.read_bits(n)?; w.write_bits(v, n);\<close> are \<open>copy_bits n\<close>, a read alone is
  \<open>skip_bits n\<close>, a write alone \<open>put f\<close>; likewise for \<open>ue\<close> and \<open>se\<close>.

  Three predicates describe steps on bit strings: \<open>maps_bits A v c e\<close> (on every reader that
  starts with \<open>c\<close>, \<open>A\<close> returns \<open>v\<close>, consumes \<open>c\<close> and emits \<open>e\<close>), \<open>verbatim A\<close> (whatever \<open>A\<close>
  consumes it emits) and \<open>settles A\<close> (what \<open>A\<close> emits, it would parse to the same value and emit
  unchanged). Each has rules for sequencing, branching and loops.
\<close>

section \<open>The interface of a bit code\<close>

text \<open>What a rewriter relies on: reading recognises exactly the code words, and writing
  appends them.\<close>

locale bit_code =
  fixes rd :: "bit_reader \<Rightarrow> ('v \<times> bit_reader) option"
    and wr :: "'v \<Rightarrow> bit_writer \<Rightarrow> bit_writer"
    and code :: "'v \<Rightarrow> bool list"
    and ok :: "'v \<Rightarrow> bool"
  assumes rd_iff: "rd r = Some (v, r') \<longleftrightarrow>
      ok v \<and> prefix (code v) (rbits r) \<and> r' = adv (length (code v)) r"
    and wr_code: "ok v \<Longrightarrow> wf_writer w \<Longrightarrow> wf_writer (wr v w) \<and> wbits (wr v w) = wbits w @ code v"
begin

text \<open>What is written at any bit offset is read back there.\<close>

lemma read_written:
  assumes "ok v" "wf_writer w"
  shows "rd \<lparr>br_bytes = into_bytes (wr v w), br_pos = bw_pos w\<rparr>
    = Some (v, \<lparr>br_bytes = into_bytes (wr v w), br_pos = bw_pos (wr v w)\<rparr>)"
proof -
  let ?w = "wr v w"
  have w: "wf_writer ?w" "wbits ?w = wbits w @ code v" using wr_code [OF assms] by blast+
  have len: "length (wbits w) = bw_pos w" "length (wbits ?w) = bw_pos ?w"
    using length_wbits assms(2) w(1) by blast+
  then have "rbits \<lparr>br_bytes = bw_bytes ?w, br_pos = bw_pos w\<rparr>
      = code v @ replicate (8 * length (bw_bytes ?w) - bw_pos ?w) False"
    using bits_of_writer [OF w(1)] w(2) by (simp add: rbits_def)
  moreover have "bw_pos ?w = bw_pos w + length (code v)" using len w(2) by simp
  ultimately show ?thesis
    unfolding into_bytes_def rd_iff using assms(1) by (simp add: adv_def)
qed

text \<open>No code word is a prefix of another.\<close>

lemma code_prefix_free:
  assumes "ok u" "ok v" "prefix (code u) (rbits r)" "prefix (code v) (rbits r)"
  shows "u = v"
proof -
  have "rd r = Some (u, adv (length (code u)) r)" "rd r = Some (v, adv (length (code v)) r)"
    using assms by (simp_all add: rd_iff)
  then show ?thesis by simp
qed

end

interpretation ue: bit_code read_ue write_ue ue_bits "\<lambda>v. v \<noteq> - 1"
  by unfold_locales (simp_all add: read_ue_iff write_ue_wf)

interpretation se: bit_code read_se write_se se_bits "\<lambda>v. v \<noteq> 0x80000000"
  by unfold_locales (simp_all add: read_se_iff write_se_wf)

lemma bit_code_fixed:
  assumes "n \<le> 32"
  shows "bit_code (read_bits n) (\<lambda>v. write_bits v n) (ubits n) (\<lambda>v. unat v < 2 ^ n)"
  using assms by unfold_locales (simp_all add: read_bits_iff write_bits_wf)

interpretation u1: bit_code "read_bits 1" "\<lambda>v. write_bits v 1" "ubits 1" "\<lambda>v. unat v < 2 ^ 1"
  by (rule bit_code_fixed) simp

interpretation u8: bit_code "read_bits 8" "\<lambda>v. write_bits v 8" "ubits 8" "\<lambda>v. unat v < 2 ^ 8"
  by (rule bit_code_fixed) simp

interpretation u32: bit_code "read_bits 32" "\<lambda>v. write_bits v 32" "ubits 32" "\<lambda>v. unat v < 2 ^ 32"
  by (rule bit_code_fixed) simp

section \<open>Steps\<close>

type_synonym 'a sps_step = "bit_reader \<Rightarrow> bit_writer \<Rightarrow> ('a \<times> bit_reader \<times> bit_writer) option"

definition copy_bits :: "nat \<Rightarrow> u32 sps_step" where
  "copy_bits n r w = do { (v, r) \<leftarrow> read_bits n r; Some (v, r, write_bits v n w) }"

definition copy_ue :: "u32 sps_step" where
  "copy_ue r w = do { (v, r) \<leftarrow> read_ue r; Some (v, r, write_ue v w) }"

definition copy_se :: "i32 sps_step" where
  "copy_se r w = do { (v, r) \<leftarrow> read_se r; Some (v, r, write_se v w) }"

definition skip_bits :: "nat \<Rightarrow> u32 sps_step" where
  "skip_bits n r w = do { (v, r) \<leftarrow> read_bits n r; Some (v, r, w) }"

definition skip_ue :: "u32 sps_step" where
  "skip_ue r w = do { (v, r) \<leftarrow> read_ue r; Some (v, r, w) }"

definition put :: "(bit_writer \<Rightarrow> bit_writer) \<Rightarrow> unit sps_step" where
  "put f r w = Some ((), r, f w)"

text \<open>A branch without an \<^verbatim>\<open>else\<close>, and \<^verbatim>\<open>for _ in 0..n\<close>; the value of the body is dropped.\<close>

definition when_step :: "bool \<Rightarrow> 'a sps_step \<Rightarrow> unit sps_step" where
  "when_step b A r w = (if b then do { (_, r, w) \<leftarrow> A r w; Some ((), r, w) } else Some ((), r, w))"

fun for_range :: "nat \<Rightarrow> 'a sps_step \<Rightarrow> unit sps_step" where
  "for_range 0 A r w = Some ((), r, w)"
| "for_range (Suc n) A r w = do { (_, r, w) \<leftarrow> A r w; for_range n A r w }"

section \<open>Steps on bit strings\<close>

definition maps_bits :: "'a sps_step \<Rightarrow> 'a \<Rightarrow> bool list \<Rightarrow> bool list \<Rightarrow> bool" where
  "maps_bits A v c e \<longleftrightarrow> (\<forall>r w. prefix c (rbits r) \<longrightarrow> wf_writer w \<longrightarrow>
     (\<exists>w'. A r w = Some (v, adv (length c) r, w') \<and> wf_writer w' \<and> wbits w' = wbits w @ e))"

definition verbatim :: "'a sps_step \<Rightarrow> bool" where
  "verbatim A \<longleftrightarrow> (\<forall>r w v r' w'. wf_writer w \<longrightarrow> A r w = Some (v, r', w') \<longrightarrow>
     (\<exists>c. prefix c (rbits r) \<and> maps_bits A v c c))"

definition settles :: "'a sps_step \<Rightarrow> bool" where
  "settles A \<longleftrightarrow> (\<forall>r w v r' w'. wf_writer w \<longrightarrow> A r w = Some (v, r', w') \<longrightarrow>
     (\<exists>c e. prefix c (rbits r) \<and> maps_bits A v c e \<and> maps_bits A v e e))"

definition emits :: "(bit_writer \<Rightarrow> bit_writer) \<Rightarrow> bool list \<Rightarrow> bool" where
  "emits f e \<longleftrightarrow> (\<forall>w. wf_writer w \<longrightarrow> wf_writer (f w) \<and> wbits (f w) = wbits w @ e)"

lemma maps_bitsD:
  assumes "maps_bits A v c e" "prefix c (rbits r)" "wf_writer w"
  obtains w' where "A r w = Some (v, adv (length c) r, w')" "wf_writer w'" "wbits w' = wbits w @ e"
  using assms unfolding maps_bits_def by blast

lemma verbatimD:
  assumes "verbatim A" "A r w = Some (v, r', w')" "wf_writer w"
  obtains c where "prefix c (rbits r)" "maps_bits A v c c" "r' = adv (length c) r" "wf_writer w'"
    "wbits w' = wbits w @ c"
proof -
  obtain c where c: "prefix c (rbits r)" "maps_bits A v c c"
    using assms unfolding verbatim_def by blast
  then show ?thesis using maps_bitsD [OF c(2,1) assms(3)] assms(2) that by auto
qed

lemma settlesD:
  assumes "settles A" "A r w = Some (v, r', w')" "wf_writer w"
  obtains c e where "prefix c (rbits r)" "maps_bits A v c e" "maps_bits A v e e"
    "r' = adv (length c) r" "wf_writer w'" "wbits w' = wbits w @ e"
proof -
  obtain c e where c: "prefix c (rbits r)" "maps_bits A v c e" "maps_bits A v e e"
    using assms unfolding settles_def by blast
  then show ?thesis using maps_bitsD [OF c(2,1) assms(3)] assms(2) that by auto
qed

lemma verbatim_settles: "verbatim A \<Longrightarrow> settles A"
  unfolding verbatim_def settles_def by blast

lemma prefix_append_rbits:
  "prefix (c @ d) (rbits r) \<longleftrightarrow> prefix c (rbits r) \<and> prefix d (rbits (adv (length c) r))"
  by (auto simp: prefix_def)

subsection \<open>Sequencing\<close>

lemma maps_bits_bind:
  assumes "maps_bits A v c1 e1" "maps_bits (B v) u c2 e2"
  shows "maps_bits (\<lambda>r w. do { (v, r, w) \<leftarrow> A r w; B v r w }) u (c1 @ c2) (e1 @ e2)"
  unfolding maps_bits_def
proof (intro allI impI)
  fix r w assume p: "prefix (c1 @ c2) (rbits r)" and w: "wf_writer w"
  then have p': "prefix c1 (rbits r)" "prefix c2 (rbits (adv (length c1) r))"
    by (simp_all only: prefix_append_rbits)
  obtain w1 where 1: "A r w = Some (v, adv (length c1) r, w1)" "wf_writer w1" "wbits w1 = wbits w @ e1"
    using maps_bitsD [OF assms(1) p'(1) w] by blast
  obtain w2 where 2: "B v (adv (length c1) r) w1 = Some (u, adv (length c2) (adv (length c1) r), w2)"
      "wf_writer w2" "wbits w2 = wbits w1 @ e2"
    using maps_bitsD [OF assms(2) p'(2) 1(2)] by blast
  show "\<exists>w'. (do { (v, r, w) \<leftarrow> A r w; B v r w }) = Some (u, adv (length (c1 @ c2)) r, w') \<and>
      wf_writer w' \<and> wbits w' = wbits w @ e1 @ e2"
    using 1 2 by simp
qed

lemma verbatim_bind:
  assumes "verbatim A" "\<And>v. verbatim (B v)"
  shows "verbatim (\<lambda>r w. do { (v, r, w) \<leftarrow> A r w; B v r w })"
  unfolding verbatim_def
proof (intro allI impI)
  fix r w u r' w' assume w: "wf_writer w"
    and "(do { (v, r, w) \<leftarrow> A r w; B v r w }) = Some (u, r', w')"
  then obtain v r1 w1 where 1: "A r w = Some (v, r1, w1)" and 2: "B v r1 w1 = Some (u, r', w')"
    by (auto simp: bind_eq_Some_conv)
  obtain c1 where c1: "prefix c1 (rbits r)" "maps_bits A v c1 c1" "r1 = adv (length c1) r" "wf_writer w1"
    using verbatimD [OF assms(1) 1 w] by blast
  obtain c2 where "prefix c2 (rbits r1)" "maps_bits (B v) u c2 c2"
    using verbatimD [OF assms(2) 2 c1(4)] by blast
  then have "maps_bits (\<lambda>r w. do { (v, r, w) \<leftarrow> A r w; B v r w }) u (c1 @ c2) (c1 @ c2)"
      "prefix (c1 @ c2) (rbits r)"
    using c1(1,3) by (auto intro: maps_bits_bind [where B = B, OF c1(2)] simp only: prefix_append_rbits)
  then show "\<exists>c. prefix c (rbits r) \<and> maps_bits (\<lambda>r w. do { (v, r, w) \<leftarrow> A r w; B v r w }) u c c"
    by blast
qed

lemma settles_bind:
  assumes "settles A" "\<And>v. settles (B v)"
  shows "settles (\<lambda>r w. do { (v, r, w) \<leftarrow> A r w; B v r w })"
  unfolding settles_def
proof (intro allI impI)
  fix r w u r' w' assume w: "wf_writer w"
    and "(do { (v, r, w) \<leftarrow> A r w; B v r w }) = Some (u, r', w')"
  then obtain v r1 w1 where 1: "A r w = Some (v, r1, w1)" and 2: "B v r1 w1 = Some (u, r', w')"
    by (auto simp: bind_eq_Some_conv)
  obtain c1 e1 where c1: "prefix c1 (rbits r)" "maps_bits A v c1 e1" "maps_bits A v e1 e1"
      "r1 = adv (length c1) r" "wf_writer w1"
    using settlesD [OF assms(1) 1 w] by blast
  obtain c2 e2 where c2: "prefix c2 (rbits r1)" "maps_bits (B v) u c2 e2" "maps_bits (B v) u e2 e2"
    using settlesD [OF assms(2) 2 c1(5)] by blast
  have "prefix (c1 @ c2) (rbits r)" using c1(1,4) c2(1) by (simp only: prefix_append_rbits)
  then show "\<exists>c e. prefix c (rbits r) \<and> maps_bits (\<lambda>r w. do { (v, r, w) \<leftarrow> A r w; B v r w }) u c e
      \<and> maps_bits (\<lambda>r w. do { (v, r, w) \<leftarrow> A r w; B v r w }) u e e"
    using maps_bits_bind [where B = B, OF c1(2) c2(2)] maps_bits_bind [where B = B, OF c1(3) c2(3)]
    by blast
qed

subsection \<open>Returning, branching, looping\<close>

lemma maps_bits_return: "maps_bits (\<lambda>r w. Some (v, r, w)) v [] []"
  by (simp add: maps_bits_def)

lemma verbatim_return: "verbatim (\<lambda>r w. Some (v, r, w))"
  unfolding verbatim_def using maps_bits_return [of v] Nil_prefix by fast

lemma verbatim_fail: "verbatim (\<lambda>r w. None)"
  by (simp add: verbatim_def)

lemma verbatim_if: "verbatim A \<Longrightarrow> verbatim B \<Longrightarrow> verbatim (\<lambda>r w. if P then A r w else B r w)"
  by (cases P) simp_all

lemma settles_if: "settles A \<Longrightarrow> settles B \<Longrightarrow> settles (\<lambda>r w. if P then A r w else B r w)"
  by (cases P) simp_all

lemma for_range_eq:
  "for_range 0 A = (\<lambda>r w. Some ((), r, w))"
  "for_range (Suc n) A = (\<lambda>r w. do { (_, r, w) \<leftarrow> A r w; for_range n A r w })"
  by (rule ext, rule ext, simp)+

lemma verbatim_for_range: "verbatim A \<Longrightarrow> verbatim (for_range n A)"
proof (induction n)
  case 0
  show ?case unfolding for_range_eq by (rule verbatim_return)
next
  case (Suc n)
  show ?case unfolding for_range_eq by (rule verbatim_bind [OF Suc.prems Suc.IH [OF Suc.prems]])
qed

subsection \<open>The basic steps\<close>

context bit_code
begin

lemma maps_bits_copy:
  assumes "ok v"
  shows "maps_bits (\<lambda>r w. do { (v, r) \<leftarrow> rd r; Some (v, r, wr v w) }) v (code v) (code v)"
  unfolding maps_bits_def
proof (intro allI impI)
  fix r w assume "prefix (code v) (rbits r)" "wf_writer w"
  with assms have "rd r = Some (v, adv (length (code v)) r)"
    "wf_writer (wr v w) \<and> wbits (wr v w) = wbits w @ code v" by (simp_all add: rd_iff wr_code)
  then show "\<exists>w'. (do { (v, r) \<leftarrow> rd r; Some (v, r, wr v w) }) = Some (v, adv (length (code v)) r, w')
      \<and> wf_writer w' \<and> wbits w' = wbits w @ code v" by simp
qed

lemma verbatim_copy: "verbatim (\<lambda>r w. do { (v, r) \<leftarrow> rd r; Some (v, r, wr v w) })"
  unfolding verbatim_def
proof (intro allI impI)
  fix r w v r' w' assume "(do { (v, r) \<leftarrow> rd r; Some (v, r, wr v w) }) = Some (v, r', w')"
  then have "rd r = Some (v, r')" by (auto simp: bind_eq_Some_conv)
  then show "\<exists>c. prefix c (rbits r) \<and> maps_bits (\<lambda>r w. do { (v, r) \<leftarrow> rd r; Some (v, r, wr v w) }) v c c"
    using maps_bits_copy rd_iff by blast
qed

lemma maps_bits_skip:
  "ok v \<Longrightarrow> maps_bits (\<lambda>r w. do { (v, r) \<leftarrow> rd r; Some (v, r, w) }) v (code v) []"
  by (simp add: maps_bits_def) (metis (no_types, lifting) bind.simps(2) case_prod_conv rd_iff)

lemma emits_write: "ok v \<Longrightarrow> emits (wr v) (code v)"
  by (simp add: emits_def wr_code)

end

lemma maps_bits_copy_ue: "v \<noteq> - 1 \<Longrightarrow> maps_bits copy_ue v (ue_bits v) (ue_bits v)"
  unfolding copy_ue_def [abs_def] by (rule ue.maps_bits_copy)

lemma verbatim_copy_ue: "verbatim copy_ue"
  unfolding copy_ue_def [abs_def] by (rule ue.verbatim_copy)

lemma verbatim_copy_se: "verbatim copy_se"
  unfolding copy_se_def [abs_def] by (rule se.verbatim_copy)

lemma maps_bits_copy_bits: "n \<le> 32 \<Longrightarrow> unat v < 2 ^ n \<Longrightarrow> maps_bits (copy_bits n) v (ubits n v) (ubits n v)"
  unfolding copy_bits_def [abs_def] by (rule bit_code.maps_bits_copy [OF bit_code_fixed])

lemma verbatim_copy_bits: "n \<le> 32 \<Longrightarrow> verbatim (copy_bits n)"
  unfolding copy_bits_def [abs_def] by (rule bit_code.verbatim_copy [OF bit_code_fixed])

lemma maps_bits_skip_ue: "v \<noteq> - 1 \<Longrightarrow> maps_bits skip_ue v (ue_bits v) []"
  unfolding skip_ue_def [abs_def] by (rule ue.maps_bits_skip)

lemma maps_bits_skip_bits: "n \<le> 32 \<Longrightarrow> unat v < 2 ^ n \<Longrightarrow> maps_bits (skip_bits n) v (ubits n v) []"
  unfolding skip_bits_def [abs_def] by (rule bit_code.maps_bits_skip [OF bit_code_fixed])

lemma maps_bits_put: "emits f e \<Longrightarrow> maps_bits (put f) () [] e"
  by (simp add: maps_bits_def put_def emits_def)

lemma emits_comp: "emits f c \<Longrightarrow> emits g d \<Longrightarrow> emits (\<lambda>w. g (f w)) (c @ d)"
  by (simp add: emits_def)

lemma verbatim_when: "verbatim A \<Longrightarrow> verbatim (when_step b A)"
  unfolding when_step_def [abs_def]
  by (rule verbatim_if, rule verbatim_bind [where B = "\<lambda>_ r w. Some ((), r, w)"]) (simp_all add: verbatim_return)

lemma when_False: "when_step False A = (\<lambda>r w. Some ((), r, w))"
  by (rule ext)+ (simp add: when_step_def)

subsection \<open>Steps that only consume\<close>

definition consumes :: "'a sps_step \<Rightarrow> bool" where
  "consumes A \<longleftrightarrow> (\<forall>r w v r' w'. wf_writer w \<longrightarrow> A r w = Some (v, r', w') \<longrightarrow>
     (\<exists>c. prefix c (rbits r) \<and> maps_bits A v c []))"

lemma consumesD:
  assumes "consumes A" "A r w = Some (v, r', w')" "wf_writer w"
  obtains c where "prefix c (rbits r)" "maps_bits A v c []" "r' = adv (length c) r" "wf_writer w'"
    "wbits w' = wbits w"
proof -
  obtain c where c: "prefix c (rbits r)" "maps_bits A v c []"
    using assms unfolding consumes_def by blast
  then show ?thesis using maps_bitsD [OF c(2,1) assms(3)] assms(2) that by auto
qed

lemma consumes_bind:
  assumes "consumes A" "\<And>v. consumes (B v)"
  shows "consumes (\<lambda>r w. do { (v, r, w) \<leftarrow> A r w; B v r w })"
  unfolding consumes_def
proof (intro allI impI)
  fix r w u r' w' assume w: "wf_writer w"
    and "(do { (v, r, w) \<leftarrow> A r w; B v r w }) = Some (u, r', w')"
  then obtain v r1 w1 where 1: "A r w = Some (v, r1, w1)" and 2: "B v r1 w1 = Some (u, r', w')"
    by (auto simp: bind_eq_Some_conv)
  obtain c1 where c1: "prefix c1 (rbits r)" "maps_bits A v c1 []" "r1 = adv (length c1) r" "wf_writer w1"
    using consumesD [OF assms(1) 1 w] by blast
  obtain c2 where c2: "prefix c2 (rbits r1)" "maps_bits (B v) u c2 []"
    using consumesD [OF assms(2) 2 c1(4)] by blast
  have "prefix (c1 @ c2) (rbits r)" using c1(1,3) c2(1) by (simp only: prefix_append_rbits)
  then show "\<exists>c. prefix c (rbits r) \<and> maps_bits (\<lambda>r w. do { (v, r, w) \<leftarrow> A r w; B v r w }) u c []"
    using maps_bits_bind [where B = B, OF c1(2) c2(2)] by auto
qed

lemma consumes_return: "consumes (\<lambda>r w. Some (v, r, w))"
  unfolding consumes_def using maps_bits_return [of v] Nil_prefix by fast

lemma consumes_if: "consumes A \<Longrightarrow> consumes B \<Longrightarrow> consumes (\<lambda>r w. if P then A r w else B r w)"
  by (cases P) simp_all

lemma consumes_when: "consumes A \<Longrightarrow> consumes (when_step b A)"
  unfolding when_step_def [abs_def]
  by (rule consumes_if, rule consumes_bind [where B = "\<lambda>_ r w. Some ((), r, w)"]) (simp_all add: consumes_return)

context bit_code
begin

lemma consumes_skip: "consumes (\<lambda>r w. do { (v, r) \<leftarrow> rd r; Some (v, r, w) })"
  unfolding consumes_def
proof (intro allI impI)
  fix r w v r' w' assume "(do { (v, r) \<leftarrow> rd r; Some (v, r, w) }) = Some (v, r', w')"
  then have "rd r = Some (v, r')" by (auto simp: bind_eq_Some_conv)
  then show "\<exists>c. prefix c (rbits r) \<and> maps_bits (\<lambda>r w. do { (v, r) \<leftarrow> rd r; Some (v, r, w) }) v c []"
    using maps_bits_skip rd_iff by blast
qed

end

lemma consumes_skip_ue: "consumes skip_ue"
  unfolding skip_ue_def [abs_def] by (rule ue.consumes_skip)

lemma consumes_skip_bits: "n \<le> 32 \<Longrightarrow> consumes (skip_bits n)"
  unfolding skip_bits_def [abs_def] by (rule bit_code.consumes_skip [OF bit_code_fixed])

lemmas verbatim_intros =
  verbatim_bind verbatim_return verbatim_fail verbatim_if verbatim_when verbatim_for_range
  verbatim_copy_bits verbatim_copy_ue verbatim_copy_se

lemmas consumes_intros =
  consumes_bind consumes_return consumes_if consumes_when consumes_skip_ue consumes_skip_bits

text \<open>A field that is read, dropped and written anew settles when its own reader accepts what
  is written.\<close>

lemma settles_replace:
  assumes "consumes A" "emits f e" "maps_bits A v0 e []"
  shows "settles (\<lambda>r w. do { (_, r, w) \<leftarrow> A r w; put f r w })"
  unfolding settles_def
proof (intro allI impI)
  fix r w v r' w' assume w: "wf_writer w"
    and "(do { (_, r, w) \<leftarrow> A r w; put f r w }) = Some (v, r', w')"
  then obtain u r1 w1 where 1: "A r w = Some (u, r1, w1)" and v: "v = ()"
    by (auto simp: bind_eq_Some_conv put_def)
  obtain c where c: "prefix c (rbits r)" "maps_bits A u c []" using consumesD [OF assms(1) 1 w] by blast
  note p = maps_bits_put [OF assms(2)]
  show "\<exists>c e. prefix c (rbits r) \<and> maps_bits (\<lambda>r w. do { (_, r, w) \<leftarrow> A r w; put f r w }) v c e \<and>
      maps_bits (\<lambda>r w. do { (_, r, w) \<leftarrow> A r w; put f r w }) v e e"
    using maps_bits_bind [where B = "\<lambda>_. put f", OF c(2) p] c(1)
      maps_bits_bind [where B = "\<lambda>_. put f", OF assms(3) p] unfolding v by auto
qed

subsection \<open>Steps on known input\<close>

lemma maps_bits_consume_bind:
  "maps_bits A v c1 [] \<Longrightarrow> maps_bits (B v) u c2 e \<Longrightarrow>
     maps_bits (\<lambda>r w. do { (v, r, w) \<leftarrow> A r w; B v r w }) u (c1 @ c2) e"
  using maps_bits_bind [of A v c1 "[]" B u c2 e] by simp

lemma maps_bits_put_bind:
  "emits f e1 \<Longrightarrow> maps_bits (B ()) u c e2 \<Longrightarrow>
     maps_bits (\<lambda>r w. do { (v, r, w) \<leftarrow> put f r w; B v r w }) u c (e1 @ e2)"
  using maps_bits_bind [OF maps_bits_put, of f e1 B u c e2] by simp

lemma maps_bits_if:
  "P \<Longrightarrow> maps_bits A v c e \<Longrightarrow> maps_bits (\<lambda>r w. if P then A r w else B r w) v c e"
  "\<not> P \<Longrightarrow> maps_bits B v c e \<Longrightarrow> maps_bits (\<lambda>r w. if P then A r w else B r w) v c e"
  by simp_all

lemma maps_bits_when: "b \<Longrightarrow> maps_bits A v c e \<Longrightarrow> maps_bits (when_step b A) () c e"
  using maps_bits_bind [of A v c e "\<lambda>_ r w. Some ((), r, w)" "()" "[]" "[]"] maps_bits_return [of "()"]
  by (simp add: when_step_def [abs_def])

lemma maps_bits_when_not: "\<not> b \<Longrightarrow> maps_bits (when_step b A) () [] []"
  by (simp add: when_False maps_bits_return)

lemma emits_write_bits: "n \<le> 32 \<Longrightarrow> emits (write_bits v n) (ubits n v)"
  by (simp add: emits_def)

lemma emits_write_ue: "v \<noteq> - 1 \<Longrightarrow> emits (write_ue v) (ue_bits v)"
  by (rule ue.emits_write)

lemma maps_bits_run:
  assumes "maps_bits A v c e" "prefix c (bits_of bs)"
  obtains w where "A (bit_reader_new bs) bit_writer_new = Some (v, adv (length c) (bit_reader_new bs), w)"
    "wf_writer w" "wbits w = e"
proof -
  have "prefix c (rbits (bit_reader_new bs))" using assms(2) by simp
  from maps_bitsD [OF assms(1) this wf_writer_new(1)] show thesis
    using that by (metis append_Nil wf_writer_new(2))
qed

end
