(* ===== verification/SpsH264.thy ===== *)
theory SpsH264
  imports SpsSteps
begin

text \<open>
  The H.264 SPS rewriter of \<^verbatim>\<open>crates/penflow-core/src/encoder/sps_patcher.rs\<close>:
  \<open>patch_h264_sps_rbsp\<close>, the VUI and HRD walks it calls and the VUI it synthesises. The long
  functions of the source are cut at the fields that are replaced: \<open>h264_sps_head\<close> and
  \<open>h264_sps_mid\<close> are the fields before and after \<^verbatim>\<open>max_num_ref_frames\<close>, \<open>h264_vui_head\<close>
  and \<open>h264_vui_mid\<close> those before and after \<^verbatim>\<open>video_signal_type\<close>.
\<close>

section \<open>Model\<close>

definition h264_high_profiles :: "u32 list" where
  "h264_high_profiles = [100, 110, 122, 244, 44, 83, 86, 118, 128, 138, 139, 134, 135]"

definition h264_sps_chroma :: "unit sps_step" where
  "h264_sps_chroma r w = do {
     (chroma_format_idc, r, w) \<leftarrow> copy_ue r w;
     (_, r, w) \<leftarrow> when_step (chroma_format_idc = 3) (copy_bits 1) r w;
     (_, r, w) \<leftarrow> copy_ue r w;
     (_, r, w) \<leftarrow> copy_ue r w;
     (_, r, w) \<leftarrow> copy_bits 1 r w;
     (scaling_present, r, w) \<leftarrow> copy_bits 1 r w;
     if scaling_present = 1 then None else Some ((), r, w)
   }"

definition h264_sps_poc :: "u32 \<Rightarrow> unit sps_step" where
  "h264_sps_poc pic_order_cnt_type r w =
     (if pic_order_cnt_type = 0 then do {
        (_, r, w) \<leftarrow> copy_ue r w;
        Some ((), r, w)
      }
      else if pic_order_cnt_type = 1 then do {
        (_, r, w) \<leftarrow> copy_bits 1 r w;
        (_, r, w) \<leftarrow> copy_se r w;
        (_, r, w) \<leftarrow> copy_se r w;
        (n, r, w) \<leftarrow> copy_ue r w;
        for_range (unat n) copy_se r w
      }
      else Some ((), r, w))"

definition h264_sps_head :: "unit sps_step" where
  "h264_sps_head r w = do {
     (profile_idc, r, w) \<leftarrow> copy_bits 8 r w;
     (constraint_flags, r, w) \<leftarrow> copy_bits 8 r w;
     (level_idc, r, w) \<leftarrow> copy_bits 8 r w;
     (sps_id, r, w) \<leftarrow> copy_ue r w;
     (_, r, w) \<leftarrow> when_step (profile_idc \<in> set h264_high_profiles) h264_sps_chroma r w;
     (_, r, w) \<leftarrow> copy_ue r w;
     (pic_order_cnt_type, r, w) \<leftarrow> copy_ue r w;
     h264_sps_poc pic_order_cnt_type r w
   }"

definition h264_sps_mid :: "unit sps_step" where
  "h264_sps_mid r w = do {
     (_, r, w) \<leftarrow> copy_bits 1 r w;
     (_, r, w) \<leftarrow> copy_ue r w;
     (_, r, w) \<leftarrow> copy_ue r w;
     (frame_mbs_only, r, w) \<leftarrow> copy_bits 1 r w;
     (_, r, w) \<leftarrow> when_step (frame_mbs_only = 0) (copy_bits 1) r w;
     (_, r, w) \<leftarrow> copy_bits 1 r w;
     (crop, r, w) \<leftarrow> copy_bits 1 r w;
     when_step (crop = 1) (for_range 4 copy_ue) r w
   }"

definition write_full_range_bt709_video_signal_type :: "bit_writer \<Rightarrow> bit_writer" where
  "write_full_range_bt709_video_signal_type w =
     (let w = write_bits 1 1 w;
          w = write_bits 5 3 w;
          w = write_bits 1 1 w;
          w = write_bits 1 1 w;
          w = write_bits 1 8 w;
          w = write_bits 1 8 w in
      write_bits 1 8 w)"

text \<open>The block both VUI writers end with.\<close>

definition write_h264_bitstream_restriction :: "bit_writer \<Rightarrow> bit_writer" where
  "write_h264_bitstream_restriction w =
     (let w = write_bits 1 1 w;
          w = write_bits 1 1 w;
          w = write_ue 0 w;
          w = write_ue 0 w;
          w = write_ue 16 w;
          w = write_ue 16 w;
          w = write_ue 0 w in
      write_ue 1 w)"

definition emit_minimal_h264_vui :: "bit_writer \<Rightarrow> bit_writer" where
  "emit_minimal_h264_vui w =
     (let w = write_bits 0 1 w;
          w = write_bits 0 1 w;
          w = write_full_range_bt709_video_signal_type w;
          w = write_bits 0 1 w;
          w = write_bits 0 1 w;
          w = write_bits 0 1 w;
          w = write_bits 0 1 w;
          w = write_bits 0 1 w in
      write_h264_bitstream_restriction w)"

definition h264_hrd_cpb :: "unit sps_step" where
  "h264_hrd_cpb r w = do {
     (_, r, w) \<leftarrow> copy_ue r w;
     (_, r, w) \<leftarrow> copy_ue r w;
     (_, r, w) \<leftarrow> copy_bits 1 r w;
     Some ((), r, w)
   }"

definition copy_h264_hrd_parameters :: "unit sps_step" where
  "copy_h264_hrd_parameters r w = do {
     (cpb_cnt_minus1, r, w) \<leftarrow> copy_ue r w;
     (_, r, w) \<leftarrow> copy_bits 4 r w;
     (_, r, w) \<leftarrow> copy_bits 4 r w;
     (_, r, w) \<leftarrow> for_range (unat cpb_cnt_minus1 + 1) h264_hrd_cpb r w;
     (_, r, w) \<leftarrow> copy_bits 5 r w;
     (_, r, w) \<leftarrow> copy_bits 5 r w;
     (_, r, w) \<leftarrow> copy_bits 5 r w;
     (_, r, w) \<leftarrow> copy_bits 5 r w;
     Some ((), r, w)
   }"

text \<open>The walks below are shared with the HEVC VUI, whose source repeats them line by line.\<close>

definition vui_aspect_ratio :: "unit sps_step" where
  "vui_aspect_ratio r w = do {
     (aspect_ratio_idc, r, w) \<leftarrow> copy_bits 8 r w;
     when_step (aspect_ratio_idc = 255) (for_range 2 (copy_bits 16)) r w
   }"

definition vui_head :: "unit sps_step" where
  "vui_head r w = do {
     (aspect_ratio_info, r, w) \<leftarrow> copy_bits 1 r w;
     (_, r, w) \<leftarrow> when_step (aspect_ratio_info = 1) vui_aspect_ratio r w;
     (overscan_info_present, r, w) \<leftarrow> copy_bits 1 r w;
     when_step (overscan_info_present = 1) (copy_bits 1) r w
   }"

definition skip_colour_description :: "unit sps_step" where
  "skip_colour_description r w = do {
     (_, r, w) \<leftarrow> skip_bits 8 r w;
     (_, r, w) \<leftarrow> skip_bits 8 r w;
     (_, r, w) \<leftarrow> skip_bits 8 r w;
     Some ((), r, w)
   }"

definition skip_video_signal_info :: "unit sps_step" where
  "skip_video_signal_info r w = do {
     (_, r, w) \<leftarrow> skip_bits 3 r w;
     (_, r, w) \<leftarrow> skip_bits 1 r w;
     (colour_desc, r, w) \<leftarrow> skip_bits 1 r w;
     when_step (colour_desc = 1) skip_colour_description r w
   }"

definition skip_video_signal_type :: "unit sps_step" where
  "skip_video_signal_type r w = do {
     (video_signal_type_present, r, w) \<leftarrow> skip_bits 1 r w;
     when_step (video_signal_type_present = 1) skip_video_signal_info r w
   }"

definition h264_timing_info :: "unit sps_step" where
  "h264_timing_info r w = do {
     (_, r, w) \<leftarrow> copy_bits 32 r w;
     (_, r, w) \<leftarrow> copy_bits 32 r w;
     (_, r, w) \<leftarrow> copy_bits 1 r w;
     Some ((), r, w)
   }"

definition h264_vui_mid :: "unit sps_step" where
  "h264_vui_mid r w = do {
     (chroma_loc_info_present, r, w) \<leftarrow> copy_bits 1 r w;
     (_, r, w) \<leftarrow> when_step (chroma_loc_info_present = 1) (for_range 2 copy_ue) r w;
     (timing_info_present, r, w) \<leftarrow> copy_bits 1 r w;
     (_, r, w) \<leftarrow> when_step (timing_info_present = 1) h264_timing_info r w;
     (nal_hrd, r, w) \<leftarrow> copy_bits 1 r w;
     (_, r, w) \<leftarrow> when_step (nal_hrd = 1) copy_h264_hrd_parameters r w;
     (vcl_hrd, r, w) \<leftarrow> copy_bits 1 r w;
     (_, r, w) \<leftarrow> when_step (vcl_hrd = 1) copy_h264_hrd_parameters r w;
     (_, r, w) \<leftarrow> when_step (nal_hrd = 1 \<or> vcl_hrd = 1) (copy_bits 1) r w;
     (pic_struct_present, r, w) \<leftarrow> copy_bits 1 r w;
     Some ((), r, w)
   }"

definition skip_h264_restriction_info :: "unit sps_step" where
  "skip_h264_restriction_info r w = do {
     (_, r, w) \<leftarrow> skip_bits 1 r w;
     (_, r, w) \<leftarrow> skip_ue r w;
     (_, r, w) \<leftarrow> skip_ue r w;
     (_, r, w) \<leftarrow> skip_ue r w;
     (_, r, w) \<leftarrow> skip_ue r w;
     (_, r, w) \<leftarrow> skip_ue r w;
     (_, r, w) \<leftarrow> skip_ue r w;
     Some ((), r, w)
   }"

definition skip_h264_bitstream_restriction :: "unit sps_step" where
  "skip_h264_bitstream_restriction r w = do {
     (bitstream_restriction, r, w) \<leftarrow> skip_bits 1 r w;
     when_step (bitstream_restriction = 1) skip_h264_restriction_info r w
   }"

definition copy_h264_vui_with_patched_bitstream_restriction :: "unit sps_step" where
  "copy_h264_vui_with_patched_bitstream_restriction r w = do {
     (_, r, w) \<leftarrow> vui_head r w;
     (_, r, w) \<leftarrow> skip_video_signal_type r w;
     (_, r, w) \<leftarrow> put write_full_range_bt709_video_signal_type r w;
     (_, r, w) \<leftarrow> h264_vui_mid r w;
     (_, r, w) \<leftarrow> skip_h264_bitstream_restriction r w;
     put write_h264_bitstream_restriction r w
   }"

text \<open>The source writes \<^verbatim>\<open>vui_parameters_present_flag\<close> as 1 in both cases.\<close>

definition h264_sps_vui :: "unit sps_step" where
  "h264_sps_vui r w = do {
     (vui_present, r, w) \<leftarrow> skip_bits 1 r w;
     (_, r, w) \<leftarrow> put (write_bits 1 1) r w;
     if vui_present = 1 then copy_h264_vui_with_patched_bitstream_restriction r w
     else put emit_minimal_h264_vui r w
   }"

definition patch_h264_sps_fields :: "unit sps_step" where
  "patch_h264_sps_fields r w = do {
     (_, r, w) \<leftarrow> h264_sps_head r w;
     (_, r, w) \<leftarrow> skip_ue r w;
     (_, r, w) \<leftarrow> put (write_ue 1) r w;
     (_, r, w) \<leftarrow> h264_sps_mid r w;
     h264_sps_vui r w
   }"

definition patch_h264_sps_rbsp :: "bytes \<Rightarrow> bytes option" where
  "patch_h264_sps_rbsp rbsp = do {
     (_, r, w) \<leftarrow> patch_h264_sps_fields (bit_reader_new rbsp) bit_writer_new;
     Some (into_bytes (write_rbsp_trailing_bits w))
   }"

section \<open>The copied parts are copied\<close>

lemma verbatim_h264_sps_chroma: "verbatim h264_sps_chroma"
  unfolding h264_sps_chroma_def [abs_def] by (intro verbatim_intros) simp_all

lemma verbatim_h264_sps_poc: "verbatim (h264_sps_poc t)"
  unfolding h264_sps_poc_def [abs_def] by (intro verbatim_intros) simp_all

lemma verbatim_h264_sps_head: "verbatim h264_sps_head"
  unfolding h264_sps_head_def [abs_def]
  by (intro verbatim_intros verbatim_h264_sps_chroma verbatim_h264_sps_poc) simp_all

lemma verbatim_h264_sps_mid: "verbatim h264_sps_mid"
  unfolding h264_sps_mid_def [abs_def] by (intro verbatim_intros) simp_all

lemma verbatim_h264_hrd: "verbatim copy_h264_hrd_parameters"
  unfolding copy_h264_hrd_parameters_def [abs_def] h264_hrd_cpb_def [abs_def]
  by (intro verbatim_intros) simp_all

lemma verbatim_vui_head: "verbatim vui_head"
  unfolding vui_head_def [abs_def] vui_aspect_ratio_def [abs_def] by (intro verbatim_intros) simp_all

lemma verbatim_h264_vui_mid: "verbatim h264_vui_mid"
  unfolding h264_vui_mid_def [abs_def] h264_timing_info_def [abs_def]
  by (intro verbatim_intros verbatim_h264_hrd) simp_all

lemma consumes_video_signal_type: "consumes skip_video_signal_type"
  unfolding skip_video_signal_type_def [abs_def] skip_video_signal_info_def [abs_def]
    skip_colour_description_def [abs_def]
  by (intro consumes_intros) simp_all

lemma consumes_h264_restriction: "consumes skip_h264_bitstream_restriction"
  unfolding skip_h264_bitstream_restriction_def [abs_def] skip_h264_restriction_info_def [abs_def]
  by (intro consumes_intros) simp_all

section \<open>The blocks that are written\<close>

definition bt709_bits :: "bool list" where
  "bt709_bits = ubits 1 (1 :: u32) @ ubits 3 (5 :: u32) @ ubits 1 (1 :: u32) @ ubits 1 (1 :: u32) @
     ubits 8 (1 :: u32) @ ubits 8 (1 :: u32) @ ubits 8 (1 :: u32) @ []"

definition h264_restriction_bits :: "bool list" where
  "h264_restriction_bits = ubits 1 (1 :: u32) @ ubits 1 (1 :: u32) @
     ue_bits 0 @ ue_bits 0 @ ue_bits 16 @ ue_bits 16 @ ue_bits 0 @ ue_bits 1 @ []"

definition minimal_h264_vui_bits :: "bool list" where
  "minimal_h264_vui_bits = [False, False] @ bt709_bits @ replicate 5 False @ h264_restriction_bits"

lemma emits_bt709: "emits write_full_range_bt709_video_signal_type bt709_bits"
  by (simp add: emits_def write_full_range_bt709_video_signal_type_def Let_def bt709_bits_def
      del: write_bits.simps ubits.simps One_nat_def)

lemma emits_h264_restriction: "emits write_h264_bitstream_restriction h264_restriction_bits"
  by (simp add: emits_def write_h264_bitstream_restriction_def Let_def h264_restriction_bits_def
      write_ue_wf del: write_bits.simps ubits.simps One_nat_def)

lemma emits_minimal_h264_vui: "emits emit_minimal_h264_vui minimal_h264_vui_bits"
  using emits_bt709 emits_h264_restriction
  by (simp add: emits_def emit_minimal_h264_vui_def Let_def minimal_h264_vui_bits_def
      numeral_eq_Suc del: write_bits.simps)

text \<open>The readers accept what the writers emit.\<close>

lemma reads_bt709: "maps_bits skip_video_signal_type () bt709_bits []"
  unfolding skip_video_signal_type_def [abs_def] skip_video_signal_info_def [abs_def]
    skip_colour_description_def [abs_def] bt709_bits_def
  by (rule maps_bits_consume_bind maps_bits_when maps_bits_skip_bits maps_bits_return | simp)+

lemma reads_h264_restriction: "maps_bits skip_h264_bitstream_restriction () h264_restriction_bits []"
  unfolding skip_h264_bitstream_restriction_def [abs_def] skip_h264_restriction_info_def [abs_def]
    h264_restriction_bits_def
  by (rule maps_bits_consume_bind maps_bits_when maps_bits_skip_bits maps_bits_skip_ue maps_bits_return | simp)+

section \<open>What the rewriter does to the bits\<close>

text \<open>\<open>h264_vui_edit c e\<close>: \<open>c\<close> is a VUI with its present flag, \<open>e\<close> what replaces it.\<close>

definition h264_vui_edit :: "bool list \<Rightarrow> bool list \<Rightarrow> bool" where
  "h264_vui_edit c e \<longleftrightarrow>
     c = [False] \<and> e = True # minimal_h264_vui_bits \<or>
     (\<exists>a s b t. c = True # a @ s @ b @ t \<and> e = True # a @ bt709_bits @ b @ h264_restriction_bits \<and>
        maps_bits vui_head () a a \<and> maps_bits skip_video_signal_type () s [] \<and>
        maps_bits h264_vui_mid () b b \<and> maps_bits skip_h264_bitstream_restriction () t [])"

definition h264_sps_edit :: "bool list \<Rightarrow> bool list \<Rightarrow> bool" where
  "h264_sps_edit c e \<longleftrightarrow>
     (\<exists>h m b cv ev. c = h @ ue_bits m @ b @ cv \<and> e = h @ ue_bits 1 @ b @ ev \<and> m \<noteq> - 1 \<and>
        maps_bits h264_sps_head () h h \<and> maps_bits h264_sps_mid () b b \<and> h264_vui_edit cv ev)"

lemma ubits_1: "ubits 1 (0 :: u32) = [False]" "ubits 1 (1 :: u32) = [True]"
  by simp_all

lemma maps_bits_h264_vui:
  assumes "maps_bits vui_head () a a" "maps_bits skip_video_signal_type () s []"
    "maps_bits h264_vui_mid () b b" "maps_bits skip_h264_bitstream_restriction () t []"
  shows "maps_bits copy_h264_vui_with_patched_bitstream_restriction ()
    (a @ s @ b @ t) (a @ bt709_bits @ b @ h264_restriction_bits)"
  unfolding copy_h264_vui_with_patched_bitstream_restriction_def [abs_def]
  by (rule maps_bits_bind [OF assms(1)], rule maps_bits_consume_bind [OF assms(2)],
      rule maps_bits_put_bind [OF emits_bt709], rule maps_bits_bind [OF assms(3)])
     (use maps_bits_consume_bind [where B = "\<lambda>_. put write_h264_bitstream_restriction", OF assms(4) maps_bits_put [OF emits_h264_restriction]]
      in simp)

lemma minimal_h264_vui_parts:
  "maps_bits vui_head () [False, False] [False, False]"
  "maps_bits h264_vui_mid () (replicate 5 False) (replicate 5 False)"
proof -
  have f: "maps_bits (copy_bits 1) 0 [False] [False]"
    using maps_bits_copy_bits [of 1 0] by simp
  note step = maps_bits_bind [OF f] maps_bits_bind [OF maps_bits_when_not] maps_bits_when_not maps_bits_return
  have "maps_bits vui_head () ([False] @ [] @ [False] @ []) ([False] @ [] @ [False] @ [])"
    unfolding vui_head_def [abs_def] by (rule step | simp only: zero_neq_one not_False_eq_True)+
  then show "maps_bits vui_head () [False, False] [False, False]" by simp
  have "maps_bits h264_vui_mid () ([False] @ [] @ [False] @ [] @ [False] @ [] @ [False] @ [] @ [] @ [False] @ [])
      ([False] @ [] @ [False] @ [] @ [False] @ [] @ [False] @ [] @ [] @ [False] @ [])"
    unfolding h264_vui_mid_def [abs_def]
    by (rule step | simp only: zero_neq_one not_False_eq_True disj_not1 simp_thms)+
  then show "maps_bits h264_vui_mid () (replicate 5 False) (replicate 5 False)"
    by (simp add: numeral_eq_Suc)
qed

lemma maps_bits_h264_sps_vui: "h264_vui_edit c e \<Longrightarrow> maps_bits h264_sps_vui () c e"
proof -
  have put1: "emits (write_bits 1 1) [True]" using emits_write_bits [of 1 1] by simp
  have rd: "maps_bits (skip_bits 1) 0 [False] []" "maps_bits (skip_bits 1) 1 [True] []"
    using maps_bits_skip_bits [of 1 0] maps_bits_skip_bits [of 1 1] by simp_all
  have absent: "maps_bits h264_sps_vui () ([False] @ []) ([True] @ minimal_h264_vui_bits)"
    unfolding h264_sps_vui_def [abs_def]
    by (rule maps_bits_consume_bind [OF rd(1)], rule maps_bits_put_bind [OF put1],
        rule maps_bits_if(2), simp, rule maps_bits_put [OF emits_minimal_h264_vui])
  have present: "maps_bits h264_sps_vui () ([True] @ c') ([True] @ e')"
    if "maps_bits copy_h264_vui_with_patched_bitstream_restriction () c' e'" for c' e'
    unfolding h264_sps_vui_def [abs_def]
    by (rule maps_bits_consume_bind [OF rd(2)], rule maps_bits_put_bind [OF put1],
        rule maps_bits_if(1) [OF refl that])
  assume "h264_vui_edit c e"
  then show ?thesis
    unfolding h264_vui_edit_def using absent present [OF maps_bits_h264_vui] by auto
qed

lemma h264_vui_edit_again: "h264_vui_edit c e \<Longrightarrow> h264_vui_edit e e"
  unfolding h264_vui_edit_def minimal_h264_vui_bits_def
  using minimal_h264_vui_parts reads_bt709 reads_h264_restriction by blast

text \<open>Every successful run of the walks is one of these edits.\<close>

lemma h264_vui_run:
  assumes "copy_h264_vui_with_patched_bitstream_restriction r w = Some (v, r', w')" "wf_writer w"
  obtains a s b t where "prefix (a @ s @ b @ t) (rbits r)"
    "maps_bits vui_head () a a" "maps_bits skip_video_signal_type () s []"
    "maps_bits h264_vui_mid () b b" "maps_bits skip_h264_bitstream_restriction () t []"
proof -
  obtain r1 w1 r2 w2 r3 w3 r4 w4 where
    1: "vui_head r w = Some ((), r1, w1)" and
    2: "skip_video_signal_type r1 w1 = Some ((), r2, w2)" and
    3: "h264_vui_mid r2 (write_full_range_bt709_video_signal_type w2) = Some ((), r3, w3)" and
    4: "skip_h264_bitstream_restriction r3 w3 = Some ((), r4, w4)"
    using assms(1) unfolding copy_h264_vui_with_patched_bitstream_restriction_def put_def
    by (auto simp: bind_eq_Some_conv)
  obtain a where a: "prefix a (rbits r)" "maps_bits vui_head () a a" "r1 = adv (length a) r" "wf_writer w1"
    using verbatimD [OF verbatim_vui_head 1 assms(2)] by blast
  obtain s where s: "prefix s (rbits r1)" "maps_bits skip_video_signal_type () s []"
      "r2 = adv (length s) r1" "wf_writer w2"
    using consumesD [OF consumes_video_signal_type 2 a(4)] by blast
  have "wf_writer (write_full_range_bt709_video_signal_type w2)"
    using emits_bt709 s(4) by (simp add: emits_def)
  then obtain b where b: "prefix b (rbits r2)" "maps_bits h264_vui_mid () b b" "r3 = adv (length b) r2" "wf_writer w3"
    using verbatimD [OF verbatim_h264_vui_mid 3] by blast
  obtain t where t: "prefix t (rbits r3)" "maps_bits skip_h264_bitstream_restriction () t []"
    using consumesD [OF consumes_h264_restriction 4 b(4)] by blast
  show thesis
    by (rule that [OF _ a(2) s(2) b(2) t(2)]) (use a s b t in \<open>simp only: prefix_append_rbits\<close>)
qed

lemma h264_sps_vui_run:
  assumes "h264_sps_vui r w = Some (v, r', w')" "wf_writer w"
  obtains c e where "prefix c (rbits r)" "h264_vui_edit c e"
proof -
  obtain f r1 where f: "read_bits 1 r = Some (f, r1)"
    and rest: "(if f = 1 then copy_h264_vui_with_patched_bitstream_restriction r1 (write_bits 1 1 w)
      else put emit_minimal_h264_vui r1 (write_bits 1 1 w)) = Some (v, r', w')"
    using assms(1) unfolding h264_sps_vui_def skip_bits_def put_def
    by (auto simp: bind_eq_Some_conv simp del: write_bits.simps One_nat_def)
  obtain b t where b: "f = of_bool b" "rbits r = b # t" "r1 = adv 1 r" using f read_bit_iff by blast
  have w: "wf_writer (write_bits 1 1 w)" using assms(2) by (intro wf_write_bits) simp_all
  show thesis
  proof (cases b)
    case False
    then show thesis using b that [of "[False]"] by (auto simp: h264_vui_edit_def)
  next
    case True
    then have "copy_h264_vui_with_patched_bitstream_restriction r1 (write_bits 1 1 w) = Some (v, r', w')"
      using rest b(1) by (simp del: write_bits.simps)
    then obtain a s m z where p: "prefix (a @ s @ m @ z) (rbits r1)" and
      q: "maps_bits vui_head () a a" "maps_bits skip_video_signal_type () s []"
        "maps_bits h264_vui_mid () m m" "maps_bits skip_h264_bitstream_restriction () z []"
      using h264_vui_run [OF _ w] by blast
    have "prefix (True # a @ s @ m @ z) (rbits r)" using p b True by simp
    moreover have "h264_vui_edit (True # a @ s @ m @ z) (True # a @ bt709_bits @ m @ h264_restriction_bits)"
      using q unfolding h264_vui_edit_def by blast
    ultimately show thesis by (rule that)
  qed
qed

lemma maps_bits_h264_sps_fields: "h264_sps_edit c e \<Longrightarrow> maps_bits patch_h264_sps_fields () c e"
proof -
  assume "h264_sps_edit c e"
  then obtain h m b cv ev where c: "c = h @ ue_bits m @ b @ cv" and e: "e = h @ ue_bits 1 @ b @ ev"
    and m: "m \<noteq> - 1" and h: "maps_bits h264_sps_head () h h" and b: "maps_bits h264_sps_mid () b b"
    and v: "h264_vui_edit cv ev" unfolding h264_sps_edit_def by blast
  show ?thesis
    unfolding patch_h264_sps_fields_def [abs_def] c e
    by (rule maps_bits_bind [OF h], rule maps_bits_consume_bind [OF maps_bits_skip_ue [OF m]],
        rule maps_bits_put_bind [OF emits_write_ue], simp,
        rule maps_bits_bind [OF b maps_bits_h264_sps_vui [OF v]])
qed

lemma h264_sps_fields_run:
  assumes "patch_h264_sps_fields r w = Some (v, r', w')" "wf_writer w"
  obtains c e where "prefix c (rbits r)" "h264_sps_edit c e"
proof -
  obtain r1 w1 m r2 r3 w3 where
    1: "h264_sps_head r w = Some ((), r1, w1)" and
    2: "read_ue r1 = Some (m, r2)" and
    3: "h264_sps_mid r2 (write_ue 1 w1) = Some ((), r3, w3)" and
    4: "h264_sps_vui r3 w3 = Some (v, r', w')"
    using assms(1) unfolding patch_h264_sps_fields_def put_def skip_ue_def
    by (auto simp: bind_eq_Some_conv)
  obtain h where h: "prefix h (rbits r)" "maps_bits h264_sps_head () h h" "r1 = adv (length h) r" "wf_writer w1"
    using verbatimD [OF verbatim_h264_sps_head 1 assms(2)] by blast
  have m: "m \<noteq> - 1" "prefix (ue_bits m) (rbits r1)" "r2 = adv (length (ue_bits m)) r1"
    using 2 unfolding read_ue_iff by blast+
  have "wf_writer (write_ue 1 w1)" using write_ue_wf [OF _ h(4), of 1] by simp
  then obtain b where b: "prefix b (rbits r2)" "maps_bits h264_sps_mid () b b" "r3 = adv (length b) r2" "wf_writer w3"
    using verbatimD [OF verbatim_h264_sps_mid 3] by blast
  obtain cv ev where v: "prefix cv (rbits r3)" "h264_vui_edit cv ev"
    using h264_sps_vui_run [OF 4 b(4)] by blast
  have "prefix (h @ ue_bits m @ b @ cv) (rbits r)"
    using h m b v by (simp only: prefix_append_rbits)
  moreover have "h264_sps_edit (h @ ue_bits m @ b @ cv) (h @ ue_bits 1 @ b @ ev)"
    using h m b v unfolding h264_sps_edit_def by blast
  ultimately show thesis by (rule that)
qed

lemma h264_sps_edit_again: "h264_sps_edit c e \<Longrightarrow> h264_sps_edit e e"
proof -
  have "(1 :: u32) \<noteq> - 1" by simp
  then show "h264_sps_edit c e \<Longrightarrow> h264_sps_edit e e"
    unfolding h264_sps_edit_def using h264_vui_edit_again by blast
qed

text \<open>A finished RBSP: the bits, a stop bit and the padding to a byte.\<close>

definition rbsp_of :: "bool list \<Rightarrow> bytes \<Rightarrow> bool" where
  "rbsp_of e out \<longleftrightarrow> (\<exists>k<8. bits_of out = e @ True # replicate k False)"

lemma rbsp_of_unique:
  assumes "rbsp_of e x" "rbsp_of e y"
  shows "x = y"
proof -
  obtain i j where ij: "i < 8" "j < 8" "bits_of x = e @ True # replicate i False"
    "bits_of y = e @ True # replicate j False" using assms unfolding rbsp_of_def by blast
  then have "8 * length x = length e + 1 + i" "8 * length y = length e + 1 + j"
    using length_bits_of [of x] length_bits_of [of y] by simp_all
  then have "i = j" using ij(1,2) by presburger
  then show ?thesis using ij bits_of_inject by metis
qed

lemma rbsp_of_trailing: "wf_writer w \<Longrightarrow> rbsp_of (wbits w) (into_bytes (write_rbsp_trailing_bits w))"
  unfolding rbsp_of_def by (rule rbsp_trailing_bits)

lemma patch_h264_sps_rbsp_iff:
  "patch_h264_sps_rbsp rbsp = Some out \<longleftrightarrow>
     (\<exists>c e. prefix c (bits_of rbsp) \<and> h264_sps_edit c e \<and> rbsp_of e out)" (is "?L \<longleftrightarrow> ?R")
proof -
  have run: "\<exists>w. patch_h264_sps_fields (bit_reader_new rbsp) bit_writer_new = Some ((), adv (length c) (bit_reader_new rbsp), w)
      \<and> rbsp_of e (into_bytes (write_rbsp_trailing_bits w))"
    if ce: "prefix c (bits_of rbsp)" "h264_sps_edit c e" for c e
  proof -
    have "prefix c (rbits (bit_reader_new rbsp))" using ce by simp
    from maps_bitsD [OF maps_bits_h264_sps_fields [OF ce(2)] this wf_writer_new(1)]
    show ?thesis using rbsp_of_trailing by (metis append_Nil wf_writer_new(2))
  qed
  show ?thesis
  proof
    assume L: ?L
    then obtain r w where f: "patch_h264_sps_fields (bit_reader_new rbsp) bit_writer_new = Some ((), r, w)"
      and out: "out = into_bytes (write_rbsp_trailing_bits w)"
      unfolding patch_h264_sps_rbsp_def by (auto simp: bind_eq_Some_conv)
    obtain c e where ce: "prefix c (bits_of rbsp)" "h264_sps_edit c e"
      using h264_sps_fields_run [OF f wf_writer_new(1)] by auto
    then have "rbsp_of e out" using run f out by fastforce
    with ce show ?R by blast
  next
    assume ?R
    then obtain c e where ce: "prefix c (bits_of rbsp)" "h264_sps_edit c e" and o: "rbsp_of e out" by blast
    then show ?L using run [OF ce] rbsp_of_unique unfolding patch_h264_sps_rbsp_def by fastforce
  qed
qed

lemma patch_h264_sps_rbsp_idem: "Option.bind (patch_h264_sps_rbsp rbsp) patch_h264_sps_rbsp = patch_h264_sps_rbsp rbsp"
proof (cases "patch_h264_sps_rbsp rbsp")
  case None
  then show ?thesis by simp
next
  case (Some out)
  then obtain c e where "h264_sps_edit c e" "rbsp_of e out" unfolding patch_h264_sps_rbsp_iff by blast
  moreover from this have "prefix e (bits_of out)" unfolding rbsp_of_def by auto
  ultimately have "patch_h264_sps_rbsp out = Some out"
    unfolding patch_h264_sps_rbsp_iff using h264_sps_edit_again by blast
  with Some show ?thesis by simp
qed

section \<open>What a decoder reads\<close>

text \<open>The fields a decoder takes its output delay and colour range from, read from an SPS by the
  syntax of the standard: \<^verbatim>\<open>max_num_ref_frames\<close> and, when there is a VUI,
  \<^verbatim>\<open>video_full_range_flag\<close> (0 when not coded) and the pair \<^verbatim>\<open>max_num_reorder_frames\<close>,
  \<^verbatim>\<open>max_dec_frame_buffering\<close> (when coded). The writer is a throwaway, as in
  \<open>walk_hevc_sps_dpb_log2_max_poc\<close>.\<close>

definition view_video_signal_type :: "u32 sps_step" where
  "view_video_signal_type r w = do {
     (present, r, w) \<leftarrow> skip_bits 1 r w;
     if present = 1 then do {
       (_, r, w) \<leftarrow> skip_bits 3 r w;
       (full_range, r, w) \<leftarrow> skip_bits 1 r w;
       (colour_desc, r, w) \<leftarrow> skip_bits 1 r w;
       (_, r, w) \<leftarrow> when_step (colour_desc = 1) skip_colour_description r w;
       Some (full_range, r, w)
     } else Some (0, r, w)
   }"

definition view_h264_restriction :: "(u32 \<times> u32) option sps_step" where
  "view_h264_restriction r w = do {
     (present, r, w) \<leftarrow> skip_bits 1 r w;
     if present = 1 then do {
       (_, r, w) \<leftarrow> skip_bits 1 r w;
       (_, r, w) \<leftarrow> skip_ue r w;
       (_, r, w) \<leftarrow> skip_ue r w;
       (_, r, w) \<leftarrow> skip_ue r w;
       (_, r, w) \<leftarrow> skip_ue r w;
       (reorder, r, w) \<leftarrow> skip_ue r w;
       (buffering, r, w) \<leftarrow> skip_ue r w;
       Some (Some (reorder, buffering), r, w)
     } else Some (None, r, w)
   }"

definition view_h264_vui :: "(u32 \<times> (u32 \<times> u32) option) sps_step" where
  "view_h264_vui r w = do {
     (_, r, w) \<leftarrow> vui_head r w;
     (full_range, r, w) \<leftarrow> view_video_signal_type r w;
     (_, r, w) \<leftarrow> h264_vui_mid r w;
     (restriction, r, w) \<leftarrow> view_h264_restriction r w;
     Some ((full_range, restriction), r, w)
   }"

definition view_h264_sps :: "(u32 \<times> (u32 \<times> (u32 \<times> u32) option) option) sps_step" where
  "view_h264_sps r w = do {
     (_, r, w) \<leftarrow> h264_sps_head r w;
     (refs, r, w) \<leftarrow> skip_ue r w;
     (_, r, w) \<leftarrow> h264_sps_mid r w;
     (vui_present, r, w) \<leftarrow> skip_bits 1 r w;
     if vui_present = 1 then do {
       (vui, r, w) \<leftarrow> view_h264_vui r w;
       Some ((refs, Some vui), r, w)
     } else Some ((refs, None), r, w)
   }"

definition h264_decoder_view :: "bytes \<Rightarrow> (u32 \<times> (u32 \<times> (u32 \<times> u32) option) option) option" where
  "h264_decoder_view rbsp = map_option fst (view_h264_sps (bit_reader_new rbsp) bit_writer_new)"

lemma views_bt709: "maps_bits view_video_signal_type 1 bt709_bits []"
proof -
  have c: "maps_bits skip_colour_description () (ubits 8 (1 :: u32) @ ubits 8 (1 :: u32) @ ubits 8 (1 :: u32) @ []) []"
    unfolding skip_colour_description_def [abs_def]
    by (rule maps_bits_consume_bind maps_bits_skip_bits maps_bits_return | simp)+
  have "maps_bits view_video_signal_type 1 (ubits 1 (1 :: u32) @ ubits 3 (5 :: u32) @ ubits 1 (1 :: u32) @ ubits 1 (1 :: u32) @
      (ubits 8 (1 :: u32) @ ubits 8 (1 :: u32) @ ubits 8 (1 :: u32) @ []) @ []) []"
    unfolding view_video_signal_type_def [abs_def]
    by (rule maps_bits_consume_bind maps_bits_if(1) maps_bits_when c maps_bits_skip_bits maps_bits_return | simp)+
  then show ?thesis unfolding bt709_bits_def append.simps append_Nil2 append_assoc .
qed

lemma views_h264_restriction: "maps_bits view_h264_restriction (Some (0, 1)) h264_restriction_bits []"
  unfolding view_h264_restriction_def [abs_def] h264_restriction_bits_def
  by (rule maps_bits_consume_bind maps_bits_if(1) maps_bits_skip_bits maps_bits_skip_ue maps_bits_return | simp)+

lemma views_h264_vui:
  assumes "maps_bits vui_head () a a" "maps_bits h264_vui_mid () b b"
  shows "\<exists>e. maps_bits view_h264_vui (1, Some (0, 1)) (a @ bt709_bits @ b @ h264_restriction_bits) e"
proof -
  have "maps_bits view_h264_vui (1, Some (0, 1)) (a @ bt709_bits @ b @ h264_restriction_bits @ []) (a @ b @ [])"
    unfolding view_h264_vui_def [abs_def]
    by (rule maps_bits_bind [OF assms(1)], rule maps_bits_consume_bind [OF views_bt709],
        rule maps_bits_bind [OF assms(2)], rule maps_bits_consume_bind [OF views_h264_restriction],
        rule maps_bits_return)
  then show ?thesis by auto
qed

lemma views_h264_sps_vui:
  assumes "h264_vui_edit c e"
  obtains e1 e2 where "e = [True] @ e1" "maps_bits view_h264_vui (1, Some (0, 1)) e1 e2"
  using h264_vui_edit_again [OF assms] views_h264_vui unfolding h264_vui_edit_def by fastforce

lemma views_h264_sps:
  assumes "h264_sps_edit c e"
  shows "\<exists>e'. maps_bits view_h264_sps (1, Some (1, Some (0, 1))) e e'"
proof -
  obtain h b cv ev where e: "e = h @ ue_bits 1 @ b @ ev" and h: "maps_bits h264_sps_head () h h"
    and b: "maps_bits h264_sps_mid () b b" and v: "h264_vui_edit cv ev"
    using assms unfolding h264_sps_edit_def by blast
  obtain v1 v2 where v1: "ev = [True] @ v1" "maps_bits view_h264_vui (1, Some (0, 1)) v1 v2"
    using views_h264_sps_vui [OF v] by blast
  have one: "maps_bits skip_ue 1 (ue_bits 1) []" "maps_bits (skip_bits 1) 1 [True] []"
    using maps_bits_skip_bits [of 1 1] by (simp_all add: maps_bits_skip_ue)
  have "maps_bits view_h264_sps (1, Some (1, Some (0, 1)))
      (h @ ue_bits 1 @ b @ [True] @ v1 @ []) (h @ b @ v2 @ [])"
    unfolding view_h264_sps_def [abs_def]
    by (rule maps_bits_bind [OF h], rule maps_bits_consume_bind [OF one(1)], rule maps_bits_bind [OF b],
        rule maps_bits_consume_bind [OF one(2)], rule maps_bits_if(1) [OF refl],
        rule maps_bits_bind [OF v1(2)], rule maps_bits_return)
  then show ?thesis unfolding e v1 by auto
qed

lemma patch_h264_decoder_view:
  assumes "patch_h264_sps_rbsp rbsp = Some out"
  shows "h264_decoder_view out = Some (1, Some (1, Some (0, 1)))"
proof -
  obtain c e where ce: "h264_sps_edit c e" "rbsp_of e out"
    using assms unfolding patch_h264_sps_rbsp_iff by blast
  then have "prefix e (rbits (bit_reader_new out))" unfolding rbsp_of_def by auto
  then show ?thesis
    using views_h264_sps [OF ce(1)] maps_bitsD wf_writer_new(1)
    unfolding h264_decoder_view_def by (metis (no_types, lifting) fst_conv option.simps(9))
qed

end
