(* ===== verification/SpsHevc.thy ===== *)
theory SpsHevc
  imports SpsH264
begin

text \<open>
  The HEVC SPS rewriter of \<^verbatim>\<open>crates/penflow-core/src/encoder/sps_patcher.rs\<close>:
  \<open>patch_hevc_sps_rbsp\<close> tries \<open>patch_hevc_sps_full\<close> (DPB triplets and colour) and falls back
  to \<open>patch_hevc_sps_dpb_only\<close> (DPB triplets, the rest copied bit for bit). As for H.264, the
  long functions are cut at the fields that are replaced.
\<close>

section \<open>Model\<close>

subsection \<open>profile\_tier\_level\<close>

text \<open>The loop that fills \<^verbatim>\<open>sub_profile_present\<close> and \<^verbatim>\<open>sub_level_present\<close>; the arrays
  have seven entries and the loop at most seven turns.\<close>

fun hevc_sub_layer_flags :: "nat \<Rightarrow> (bool \<times> bool) list sps_step" where
  "hevc_sub_layer_flags 0 r w = Some ([], r, w)"
| "hevc_sub_layer_flags (Suc n) r w = do {
     (pp, r, w) \<leftarrow> copy_bits 1 r w;
     (lp, r, w) \<leftarrow> copy_bits 1 r w;
     (rest, r, w) \<leftarrow> hevc_sub_layer_flags n r w;
     Some ((pp = 1, lp = 1) # rest, r, w)
   }"

fun hevc_sub_layers :: "(bool \<times> bool) list \<Rightarrow> unit sps_step" where
  "hevc_sub_layers [] r w = Some ((), r, w)"
| "hevc_sub_layers ((profile_present, level_present) # rest) r w = do {
     (_, r, w) \<leftarrow> when_step profile_present (for_range 11 (copy_bits 8)) r w;
     (_, r, w) \<leftarrow> when_step level_present (copy_bits 8) r w;
     hevc_sub_layers rest r w
   }"

definition copy_hevc_profile_tier_level :: "u32 \<Rightarrow> unit sps_step" where
  "copy_hevc_profile_tier_level max_num_sub_layers_minus1 r w = do {
     (_, r, w) \<leftarrow> copy_bits 8 r w;
     (_, r, w) \<leftarrow> copy_bits 32 r w;
     (_, r, w) \<leftarrow> for_range 7 (copy_bits 8) r w;
     (flags, r, w) \<leftarrow> hevc_sub_layer_flags (unat max_num_sub_layers_minus1) r w;
     (_, r, w) \<leftarrow> when_step (max_num_sub_layers_minus1 > 0)
       (for_range (8 - unat max_num_sub_layers_minus1) (copy_bits 2)) r w;
     hevc_sub_layers flags r w
   }"

subsection \<open>The walk through the DPB triplets\<close>

text \<open>The fields before the triplets, in two parts: up to \<^verbatim>\<open>log2_max_pic_order_cnt_lsb_minus4\<close>,
  with \<^verbatim>\<open>sps_max_sub_layers_minus1\<close> and that field as the value, and the flag that decides
  whether the loop \<^verbatim>\<open>i_start..=sps_max_sub_layers_minus1\<close> starts at 0.\<close>

definition hevc_sps_lead :: "(u32 \<times> u32) sps_step" where
  "hevc_sps_lead r w = do {
     (_, r, w) \<leftarrow> copy_bits 4 r w;
     (sps_max_sub_layers_minus1, r, w) \<leftarrow> copy_bits 3 r w;
     (_, r, w) \<leftarrow> copy_bits 1 r w;
     (_, r, w) \<leftarrow> copy_hevc_profile_tier_level sps_max_sub_layers_minus1 r w;
     (_, r, w) \<leftarrow> copy_ue r w;
     (chroma_format_idc, r, w) \<leftarrow> copy_ue r w;
     (_, r, w) \<leftarrow> when_step (chroma_format_idc = 3) (copy_bits 1) r w;
     (_, r, w) \<leftarrow> copy_ue r w;
     (_, r, w) \<leftarrow> copy_ue r w;
     (conformance_window, r, w) \<leftarrow> copy_bits 1 r w;
     (_, r, w) \<leftarrow> when_step (conformance_window = 1) (for_range 4 copy_ue) r w;
     (_, r, w) \<leftarrow> copy_ue r w;
     (_, r, w) \<leftarrow> copy_ue r w;
     (log2_max_poc, r, w) \<leftarrow> copy_ue r w;
     Some ((sps_max_sub_layers_minus1, log2_max_poc), r, w)
   }"

definition hevc_dpb_triplet :: "unit sps_step" where
  "hevc_dpb_triplet r w = do {
     (_, r, w) \<leftarrow> skip_ue r w;
     (_, r, w) \<leftarrow> put (write_ue 0) r w;
     (_, r, w) \<leftarrow> skip_ue r w;
     (_, r, w) \<leftarrow> put (write_ue 0) r w;
     (_, r, w) \<leftarrow> skip_ue r w;
     put (write_ue 0) r w
   }"

definition hevc_sps_triplets :: "u32 \<Rightarrow> unit sps_step" where
  "hevc_sps_triplets sps_max_sub_layers_minus1 r w = do {
     (sub_layer_info_present, r, w) \<leftarrow> copy_bits 1 r w;
     for_range (unat sps_max_sub_layers_minus1 + 1 -
         unat (if sub_layer_info_present = 1 then 0 else sps_max_sub_layers_minus1))
       hevc_dpb_triplet r w
   }"

definition walk_hevc_sps_through_dpb :: "unit sps_step" where
  "walk_hevc_sps_through_dpb r w = do {
     ((sps_max_sub_layers_minus1, _), r, w) \<leftarrow> hevc_sps_lead r w;
     hevc_sps_triplets sps_max_sub_layers_minus1 r w
   }"

text \<open>\<open>walk_hevc_sps_dpb_log2_max_poc\<close> reads the same fields again, without a writer but for the
  throwaway one of \<open>copy_hevc_profile_tier_level\<close>.\<close>

fun skip_ues :: "nat \<Rightarrow> bit_reader \<Rightarrow> (unit \<times> bit_reader) option" where
  "skip_ues 0 r = Some ((), r)"
| "skip_ues (Suc n) r = do { (_, r) \<leftarrow> read_ue r; skip_ues n r }"

definition walk_hevc_sps_dpb_log2_max_poc :: "bytes \<Rightarrow> u32 option" where
  "walk_hevc_sps_dpb_log2_max_poc rbsp = do {
     (_, r) \<leftarrow> read_bits 4 (bit_reader_new rbsp);
     (sps_max_sub_layers_minus1, r) \<leftarrow> read_bits 3 r;
     (_, r) \<leftarrow> read_bits 1 r;
     (_, r, _) \<leftarrow> copy_hevc_profile_tier_level sps_max_sub_layers_minus1 r bit_writer_new;
     (_, r) \<leftarrow> read_ue r;
     (chroma_format_idc, r) \<leftarrow> read_ue r;
     (_, r) \<leftarrow> (if chroma_format_idc = 3 then read_bits 1 r else Some (0, r));
     (_, r) \<leftarrow> read_ue r;
     (_, r) \<leftarrow> read_ue r;
     (conformance_window, r) \<leftarrow> read_bits 1 r;
     (_, r) \<leftarrow> (if conformance_window = 1 then skip_ues 4 r else Some ((), r));
     (_, r) \<leftarrow> read_ue r;
     (_, r) \<leftarrow> read_ue r;
     (log2_max_poc, r) \<leftarrow> read_ue r;
     Some log2_max_poc
   }"

subsection \<open>Short-term reference picture sets\<close>

text \<open>The loop over \<^verbatim>\<open>0..=NumDeltaPocs[RIdx]\<close>, its count wrapping as \<open>u32\<close>.\<close>

fun hevc_inter_rps :: "nat \<Rightarrow> u32 \<Rightarrow> u32 sps_step" where
  "hevc_inter_rps 0 new_num_delta_pocs r w = Some (new_num_delta_pocs, r, w)"
| "hevc_inter_rps (Suc n) new_num_delta_pocs r w = do {
     (used_by_curr_pic_flag, r, w) \<leftarrow> copy_bits 1 r w;
     if used_by_curr_pic_flag = 0 then do {
       (use_delta_flag, r, w) \<leftarrow> copy_bits 1 r w;
       hevc_inter_rps n (if use_delta_flag = 1 then new_num_delta_pocs + 1 else new_num_delta_pocs) r w
     }
     else hevc_inter_rps n (new_num_delta_pocs + 1) r w
   }"

definition hevc_delta_poc :: "unit sps_step" where
  "hevc_delta_poc r w = do {
     (_, r, w) \<leftarrow> copy_ue r w;
     (_, r, w) \<leftarrow> copy_bits 1 r w;
     Some ((), r, w)
   }"

definition copy_hevc_st_ref_pic_set :: "u32 \<Rightarrow> u32 list \<Rightarrow> u32 sps_step" where
  "copy_hevc_st_ref_pic_set st_rps_idx num_delta_pocs r w = do {
     (inter_ref_pic_set_prediction_flag, r, w) \<leftarrow>
       (if st_rps_idx \<noteq> 0 then copy_bits 1 r w else Some (0, r, w));
     if inter_ref_pic_set_prediction_flag = 1 then do {
       (_, r, w) \<leftarrow> copy_bits 1 r w;
       (_, r, w) \<leftarrow> copy_ue r w;
       if st_rps_idx = 0 \<or> unat st_rps_idx - 1 \<ge> length num_delta_pocs then None
       else hevc_inter_rps (unat (num_delta_pocs ! (unat st_rps_idx - 1)) + 1) 0 r w
     }
     else do {
       (num_neg, r, w) \<leftarrow> copy_ue r w;
       (num_pos, r, w) \<leftarrow> copy_ue r w;
       (_, r, w) \<leftarrow> for_range (unat num_neg) hevc_delta_poc r w;
       (_, r, w) \<leftarrow> for_range (unat num_pos) hevc_delta_poc r w;
       Some (num_neg + num_pos, r, w)
     }
   }"

text \<open>\<^verbatim>\<open>for st_rps_idx in 0..num_short_term_ref_pic_sets\<close>: the first argument is the number of
  sets still to come.\<close>

fun hevc_st_ref_pic_sets :: "nat \<Rightarrow> u32 \<Rightarrow> u32 list \<Rightarrow> unit sps_step" where
  "hevc_st_ref_pic_sets 0 st_rps_idx num_delta_pocs r w = Some ((), r, w)"
| "hevc_st_ref_pic_sets (Suc n) st_rps_idx num_delta_pocs r w = do {
     (m, r, w) \<leftarrow> copy_hevc_st_ref_pic_set st_rps_idx num_delta_pocs r w;
     hevc_st_ref_pic_sets n (st_rps_idx + 1) (num_delta_pocs @ [m]) r w
   }"

subsection \<open>From the triplets to the VUI\<close>

definition hevc_scaling_list :: "unit sps_step" where
  "hevc_scaling_list r w = do {
     (sps_scaling_list_data_present, r, w) \<leftarrow> copy_bits 1 r w;
     if sps_scaling_list_data_present = 1 then None else Some ((), r, w)
   }"

definition hevc_pcm :: "unit sps_step" where
  "hevc_pcm r w = do {
     (_, r, w) \<leftarrow> copy_bits 4 r w;
     (_, r, w) \<leftarrow> copy_bits 4 r w;
     (_, r, w) \<leftarrow> copy_ue r w;
     (_, r, w) \<leftarrow> copy_ue r w;
     (_, r, w) \<leftarrow> copy_bits 1 r w;
     Some ((), r, w)
   }"

definition hevc_long_term_pic :: "nat \<Rightarrow> unit sps_step" where
  "hevc_long_term_pic lt_lsb_bits r w = do {
     (_, r, w) \<leftarrow> copy_bits lt_lsb_bits r w;
     (_, r, w) \<leftarrow> copy_bits 1 r w;
     Some ((), r, w)
   }"

definition hevc_long_term :: "u32 \<Rightarrow> unit sps_step" where
  "hevc_long_term log2_max_poc r w = do {
     (num_long_term, r, w) \<leftarrow> copy_ue r w;
     for_range (unat num_long_term) (hevc_long_term_pic (unat (log2_max_poc + 4))) r w
   }"

definition hevc_sps_mid :: "u32 \<Rightarrow> unit sps_step" where
  "hevc_sps_mid log2_max_poc r w = do {
     (_, r, w) \<leftarrow> for_range 6 copy_ue r w;
     (scaling_list_enabled, r, w) \<leftarrow> copy_bits 1 r w;
     (_, r, w) \<leftarrow> when_step (scaling_list_enabled = 1) hevc_scaling_list r w;
     (_, r, w) \<leftarrow> copy_bits 1 r w;
     (_, r, w) \<leftarrow> copy_bits 1 r w;
     (pcm_enabled, r, w) \<leftarrow> copy_bits 1 r w;
     (_, r, w) \<leftarrow> when_step (pcm_enabled = 1) hevc_pcm r w;
     (num_short_term_ref_pic_sets, r, w) \<leftarrow> copy_ue r w;
     (_, r, w) \<leftarrow> hevc_st_ref_pic_sets (unat num_short_term_ref_pic_sets) 0 [] r w;
     (long_term_present, r, w) \<leftarrow> copy_bits 1 r w;
     (_, r, w) \<leftarrow> when_step (long_term_present = 1) (hevc_long_term log2_max_poc) r w;
     (_, r, w) \<leftarrow> copy_bits 1 r w;
     (_, r, w) \<leftarrow> copy_bits 1 r w;
     Some ((), r, w)
   }"

subsection \<open>The VUI\<close>

definition hevc_timing_info :: "unit sps_step" where
  "hevc_timing_info r w = do {
     (_, r, w) \<leftarrow> copy_bits 32 r w;
     (_, r, w) \<leftarrow> copy_bits 32 r w;
     (poc_proportional, r, w) \<leftarrow> copy_bits 1 r w;
     (_, r, w) \<leftarrow> when_step (poc_proportional = 1) copy_ue r w;
     (vui_hrd_present, r, w) \<leftarrow> skip_bits 1 r w;
     if vui_hrd_present = 1 then None
     else put (write_bits 0 1) r w
   }"

definition hevc_bitstream_restriction :: "unit sps_step" where
  "hevc_bitstream_restriction r w = do {
     (_, r, w) \<leftarrow> for_range 3 (copy_bits 1) r w;
     for_range 5 copy_ue r w
   }"

definition hevc_vui_mid :: "unit sps_step" where
  "hevc_vui_mid r w = do {
     (chroma_loc_info_present, r, w) \<leftarrow> copy_bits 1 r w;
     (_, r, w) \<leftarrow> when_step (chroma_loc_info_present = 1) (for_range 2 copy_ue) r w;
     (_, r, w) \<leftarrow> copy_bits 1 r w;
     (_, r, w) \<leftarrow> copy_bits 1 r w;
     (_, r, w) \<leftarrow> copy_bits 1 r w;
     (default_display_window, r, w) \<leftarrow> copy_bits 1 r w;
     (_, r, w) \<leftarrow> when_step (default_display_window = 1) (for_range 4 copy_ue) r w;
     (vui_timing_info_present, r, w) \<leftarrow> copy_bits 1 r w;
     (_, r, w) \<leftarrow> when_step (vui_timing_info_present = 1) hevc_timing_info r w;
     (bitstream_restriction, r, w) \<leftarrow> copy_bits 1 r w;
     when_step (bitstream_restriction = 1) hevc_bitstream_restriction r w
   }"

definition copy_hevc_vui_with_full_range_bt709 :: "unit sps_step" where
  "copy_hevc_vui_with_full_range_bt709 r w = do {
     (_, r, w) \<leftarrow> vui_head r w;
     (_, r, w) \<leftarrow> skip_video_signal_type r w;
     (_, r, w) \<leftarrow> put write_full_range_bt709_video_signal_type r w;
     hevc_vui_mid r w
   }"

definition emit_minimal_hevc_vui :: "bit_writer \<Rightarrow> bit_writer" where
  "emit_minimal_hevc_vui w =
     (let w = write_bits 0 1 w;
          w = write_bits 0 1 w;
          w = write_full_range_bt709_video_signal_type w;
          w = write_bits 0 1 w;
          w = write_bits 0 1 w;
          w = write_bits 0 1 w;
          w = write_bits 0 1 w;
          w = write_bits 0 1 w;
          w = write_bits 0 1 w in
      write_bits 0 1 w)"

definition hevc_sps_vui :: "unit sps_step" where
  "hevc_sps_vui r w = do {
     (vui_present, r, w) \<leftarrow> skip_bits 1 r w;
     (_, r, w) \<leftarrow> put (write_bits 1 1) r w;
     if vui_present = 1 then copy_hevc_vui_with_full_range_bt709 r w
     else put emit_minimal_hevc_vui r w
   }"

definition hevc_sps_extension :: "unit sps_step" where
  "hevc_sps_extension r w = do {
     (sps_extension_present, r, w) \<leftarrow> skip_bits 1 r w;
     if sps_extension_present = 1 then None else put (write_bits 0 1) r w
   }"

subsection \<open>The patchers\<close>

text \<open>\<open>copy_remaining_bits\<close>: whole bytes while the reader is aligned, single bits otherwise.\<close>

function copy_remaining_bits :: "bit_reader \<Rightarrow> bit_writer \<Rightarrow> bit_reader \<times> bit_writer" where
  "copy_remaining_bits r w =
     (let total_bits = length (br_bytes r) * 8 in
      if br_pos r < total_bits then
        if br_pos r mod 8 = 0 \<and> total_bits - br_pos r \<ge> 8 then
          copy_remaining_bits (r\<lparr>br_pos := br_pos r + 8\<rparr>)
            (write_bits (ucast (br_bytes r ! (br_pos r div 8))) 8 w)
        else (case read_bits 1 r of
                Some (b, r') \<Rightarrow> copy_remaining_bits r' (write_bits b 1 w)
              | None \<Rightarrow> (r, w))
      else (r, w))"
  by pat_completeness auto
termination
  by (relation "measure (\<lambda>(r, w). length (br_bytes r) * 8 - br_pos r)")
     (auto simp: Let_def read_bit_iff simp del: One_nat_def)

declare copy_remaining_bits.simps [simp del]

definition patch_hevc_sps_dpb_only :: "bytes \<Rightarrow> bytes option" where
  "patch_hevc_sps_dpb_only rbsp = do {
     (_, r, w) \<leftarrow> walk_hevc_sps_through_dpb (bit_reader_new rbsp) bit_writer_new;
     Some (into_bytes (snd (copy_remaining_bits r w)))
   }"

definition patch_hevc_sps_full :: "bytes \<Rightarrow> bytes option" where
  "patch_hevc_sps_full rbsp = do {
     (_, r, w) \<leftarrow> walk_hevc_sps_through_dpb (bit_reader_new rbsp) bit_writer_new;
     log2_max_poc \<leftarrow> walk_hevc_sps_dpb_log2_max_poc rbsp;
     (_, r, w) \<leftarrow> hevc_sps_mid log2_max_poc r w;
     (_, r, w) \<leftarrow> hevc_sps_vui r w;
     (_, r, w) \<leftarrow> hevc_sps_extension r w;
     Some (into_bytes (write_rbsp_trailing_bits w))
   }"

definition patch_hevc_sps_rbsp :: "bytes \<Rightarrow> bytes option" where
  "patch_hevc_sps_rbsp rbsp =
     (case patch_hevc_sps_full rbsp of Some v \<Rightarrow> Some v | None \<Rightarrow> patch_hevc_sps_dpb_only rbsp)"

section \<open>The copied parts are copied\<close>

lemma hevc_sub_layer_flags_eq:
  "hevc_sub_layer_flags 0 = (\<lambda>r w. Some ([], r, w))"
  "hevc_sub_layer_flags (Suc n) = (\<lambda>r w. do {
     (pp, r, w) \<leftarrow> copy_bits 1 r w;
     (lp, r, w) \<leftarrow> copy_bits 1 r w;
     (rest, r, w) \<leftarrow> hevc_sub_layer_flags n r w;
     Some ((pp = 1, lp = 1) # rest, r, w)
   })"
  by (rule ext, rule ext, simp)+

lemma verbatim_hevc_sub_layer_flags: "verbatim (hevc_sub_layer_flags n)"
  by (induction n) (unfold hevc_sub_layer_flags_eq, (intro verbatim_intros; simp)+)

lemma hevc_sub_layers_eq:
  "hevc_sub_layers [] = (\<lambda>r w. Some ((), r, w))"
  "hevc_sub_layers ((pp, lp) # rest) = (\<lambda>r w. do {
     (_, r, w) \<leftarrow> when_step pp (for_range 11 (copy_bits 8)) r w;
     (_, r, w) \<leftarrow> when_step lp (copy_bits 8) r w;
     hevc_sub_layers rest r w
   })"
  by (rule ext, rule ext, simp)+

lemma verbatim_hevc_sub_layers: "verbatim (hevc_sub_layers fs)"
proof (induction fs)
  case Nil
  show ?case unfolding hevc_sub_layers_eq by (rule verbatim_return)
next
  case (Cons f fs)
  show ?case
    by (cases f) (simp only: hevc_sub_layers_eq, intro verbatim_intros Cons, simp_all)
qed

lemma verbatim_hevc_ptl: "verbatim (copy_hevc_profile_tier_level n)"
  unfolding copy_hevc_profile_tier_level_def [abs_def]
  by (intro verbatim_intros verbatim_hevc_sub_layers verbatim_hevc_sub_layer_flags) simp_all

lemma verbatim_hevc_sps_lead: "verbatim hevc_sps_lead"
  unfolding hevc_sps_lead_def [abs_def] by (intro verbatim_intros verbatim_hevc_ptl) simp_all

lemma hevc_inter_rps_eq:
  "hevc_inter_rps 0 k = (\<lambda>r w. Some (k, r, w))"
  "hevc_inter_rps (Suc n) k = (\<lambda>r w. do {
     (used, r, w) \<leftarrow> copy_bits 1 r w;
     if used = 0 then do {
       (use_delta, r, w) \<leftarrow> copy_bits 1 r w;
       hevc_inter_rps n (if use_delta = 1 then k + 1 else k) r w
     }
     else hevc_inter_rps n (k + 1) r w
   })"
  by (rule ext, rule ext, simp)+

lemma verbatim_hevc_inter_rps: "verbatim (hevc_inter_rps n k)"
proof (induction n arbitrary: k)
  case 0
  show ?case unfolding hevc_inter_rps_eq by (rule verbatim_return)
next
  case (Suc n)
  show ?case unfolding hevc_inter_rps_eq by (intro verbatim_intros Suc) simp_all
qed

lemma verbatim_hevc_delta_poc: "verbatim hevc_delta_poc"
  unfolding hevc_delta_poc_def [abs_def] by (intro verbatim_intros) simp_all

lemma verbatim_hevc_st_rps: "verbatim (copy_hevc_st_ref_pic_set i ns)"
  unfolding copy_hevc_st_ref_pic_set_def [abs_def]
  by (intro verbatim_intros verbatim_hevc_inter_rps verbatim_hevc_delta_poc) simp_all

lemma hevc_st_ref_pic_sets_eq:
  "hevc_st_ref_pic_sets 0 i ns = (\<lambda>r w. Some ((), r, w))"
  "hevc_st_ref_pic_sets (Suc n) i ns = (\<lambda>r w. do {
     (m, r, w) \<leftarrow> copy_hevc_st_ref_pic_set i ns r w;
     hevc_st_ref_pic_sets n (i + 1) (ns @ [m]) r w
   })"
  by (rule ext, rule ext, simp)+

lemma verbatim_hevc_st_ref_pic_sets: "verbatim (hevc_st_ref_pic_sets n i ns)"
proof (induction n arbitrary: i ns)
  case 0
  show ?case unfolding hevc_st_ref_pic_sets_eq by (rule verbatim_return)
next
  case (Suc n)
  show ?case unfolding hevc_st_ref_pic_sets_eq by (intro verbatim_intros verbatim_hevc_st_rps Suc)
qed

lemma verbatim_hevc_sps_mid: "unat (l + 4) \<le> 32 \<Longrightarrow> verbatim (hevc_sps_mid l)"
  unfolding hevc_sps_mid_def [abs_def] hevc_scaling_list_def [abs_def] hevc_pcm_def [abs_def]
    hevc_long_term_def [abs_def] hevc_long_term_pic_def [abs_def]
  by (intro verbatim_intros verbatim_hevc_st_ref_pic_sets) simp_all

text \<open>A flag that must be zero is read and written as zero.\<close>

lemma maps_bits_flag_zero: "maps_bits hevc_sps_extension () [False] [False]"
proof -
  have f: "maps_bits (skip_bits 1) 0 [False] []" using maps_bits_skip_bits [of 1 0] by simp
  have e: "emits (write_bits 0 1) [False]" using emits_write_bits [of 1 0] by simp
  have "maps_bits hevc_sps_extension () ([False] @ []) [False]"
    unfolding hevc_sps_extension_def [abs_def]
    by (rule maps_bits_consume_bind [OF f], rule maps_bits_if(2), simp, rule maps_bits_put [OF e])
  then show ?thesis by simp
qed

lemma verbatim_flag_zero: "verbatim hevc_sps_extension"
  unfolding verbatim_def
proof (intro allI impI)
  fix r w v r' w' assume "hevc_sps_extension r w = Some (v, r', w')"
  then obtain f where "read_bits 1 r = Some (f, r')" "f \<noteq> 1"
    unfolding hevc_sps_extension_def skip_bits_def put_def
    by (auto simp: bind_eq_Some_conv simp del: One_nat_def split: if_splits)
  then have "prefix [False] (rbits r)" by (auto simp: read_bit_iff simp del: One_nat_def)
  then show "\<exists>c. prefix c (rbits r) \<and> maps_bits hevc_sps_extension v c c"
    using maps_bits_flag_zero by (metis (full_types) unit.exhaust)
qed

lemma verbatim_hevc_timing_info: "verbatim hevc_timing_info"
  unfolding hevc_timing_info_def [abs_def]
  by (intro verbatim_intros verbatim_flag_zero [unfolded hevc_sps_extension_def [abs_def]]) simp_all

lemma verbatim_hevc_vui_mid: "verbatim hevc_vui_mid"
  unfolding hevc_vui_mid_def [abs_def] hevc_bitstream_restriction_def [abs_def]
  by (intro verbatim_intros verbatim_hevc_timing_info) simp_all

section \<open>The second parse of the leading fields\<close>

text \<open>\<open>reads_like A P\<close>: what \<open>A\<close> reads does not depend on the writer and is what \<open>P\<close> reads.\<close>

definition reads_like :: "'a sps_step \<Rightarrow> (bit_reader \<Rightarrow> ('a \<times> bit_reader) option) \<Rightarrow> bool" where
  "reads_like A P \<longleftrightarrow> (\<forall>r w. wf_writer w \<longrightarrow>
     map_option (\<lambda>(v, r, w). (v, r)) (A r w) = P r \<and>
     (\<forall>v r' w'. A r w = Some (v, r', w') \<longrightarrow> wf_writer w'))"

lemma reads_likeD: "reads_like A P \<Longrightarrow> map_option (\<lambda>(v, r, w). (v, r)) (A r bit_writer_new) = P r"
  unfolding reads_like_def using wf_writer_new(1) by blast

lemma reads_like_bind:
  assumes "reads_like A P" "\<And>v. reads_like (B v) (Q v)"
  shows "reads_like (\<lambda>r w. do { (v, r, w) \<leftarrow> A r w; B v r w }) (\<lambda>r. do { (v, r) \<leftarrow> P r; Q v r })"
  unfolding reads_like_def
proof (intro allI impI)
  fix r w assume w: "wf_writer w"
  show "map_option (\<lambda>(v, r, w). (v, r)) (do { (v, r, w) \<leftarrow> A r w; B v r w }) = (do { (v, r) \<leftarrow> P r; Q v r }) \<and>
    (\<forall>v r' w'. (do { (v, r, w) \<leftarrow> A r w; B v r w }) = Some (v, r', w') \<longrightarrow> wf_writer w')"
  proof (cases "A r w")
    case None
    then have "P r = None" using assms(1) w unfolding reads_like_def by (metis option.map(1))
    with None show ?thesis by simp
  next
    case (Some x)
    obtain v r1 w1 where x: "x = (v, r1, w1)" by (cases x)
    have "P r = Some (v, r1)" "wf_writer w1"
      using assms(1) w Some x unfolding reads_like_def by fastforce+
    then show ?thesis using assms(2) [of v] Some x unfolding reads_like_def by auto
  qed
qed

lemma reads_like_return: "reads_like (\<lambda>r w. Some (v, r, w)) (\<lambda>r. Some (v, r))"
  by (simp add: reads_like_def)

context bit_code
begin

lemma reads_like_copy: "reads_like (\<lambda>r w. do { (v, r) \<leftarrow> rd r; Some (v, r, wr v w) }) rd"
  unfolding reads_like_def
proof (intro allI impI)
  fix r w assume w: "wf_writer w"
  show "map_option (\<lambda>(v, r, w). (v, r)) (do { (v, r) \<leftarrow> rd r; Some (v, r, wr v w) }) = rd r \<and>
    (\<forall>v r' w'. (do { (v, r) \<leftarrow> rd r; Some (v, r, wr v w) }) = Some (v, r', w') \<longrightarrow> wf_writer w')"
  proof (cases "rd r")
    case None
    then show ?thesis by simp
  next
    case (Some x)
    obtain v r1 where x: "x = (v, r1)" by (cases x)
    then have "wf_writer (wr v w)" using Some wr_code [OF _ w] rd_iff by blast
    then show ?thesis using Some x by simp
  qed
qed

end

lemma reads_like_copy_bits: "n \<le> 32 \<Longrightarrow> reads_like (copy_bits n) (read_bits n)"
  unfolding copy_bits_def [abs_def] by (rule bit_code.reads_like_copy [OF bit_code_fixed])

lemma reads_like_copy_ue: "reads_like copy_ue read_ue"
  unfolding copy_ue_def [abs_def] by (rule ue.reads_like_copy)

lemma reads_like_skip_ues: "reads_like (for_range n copy_ue) (skip_ues n)"
proof (induction n)
  case 0
  have "skip_ues 0 = (\<lambda>r. Some ((), r))" by (rule ext) simp
  then show ?case unfolding for_range_eq by (simp add: reads_like_return)
next
  case (Suc n)
  have "skip_ues (Suc n) = (\<lambda>r. do { (_, r) \<leftarrow> read_ue r; skip_ues n r })" by (rule ext) simp
  then show ?case unfolding for_range_eq using reads_like_bind [OF reads_like_copy_ue Suc] by simp
qed

lemma reads_like_when:
  assumes "reads_like A P"
  shows "reads_like (when_step b A) (\<lambda>r. do { (_, r) \<leftarrow> (if b then P r else Some (d, r)); Some ((), r) })"
proof (cases b)
  case True
  then show ?thesis
    using reads_like_bind [where B = "\<lambda>_ r w. Some ((), r, w)", OF assms reads_like_return]
    by (simp add: when_step_def [abs_def])
qed (simp add: when_step_def [abs_def] reads_like_return)

lemma reads_like_verbatim:
  assumes "verbatim A"
  shows "reads_like A (\<lambda>r. do { (v, r, _) \<leftarrow> A r bit_writer_new; Some (v, r) })"
  unfolding reads_like_def
proof (intro allI impI)
  fix r w assume w: "wf_writer w"
  show "map_option (\<lambda>(v, r, w). (v, r)) (A r w) = (do { (v, r, _) \<leftarrow> A r bit_writer_new; Some (v, r) }) \<and>
    (\<forall>v r' w'. A r w = Some (v, r', w') \<longrightarrow> wf_writer w')"
  proof (cases "A r w")
    case None
    have "A r bit_writer_new = None"
    proof (rule ccontr)
      assume "A r bit_writer_new \<noteq> None"
      then obtain v r' w' where "A r bit_writer_new = Some (v, r', w')" by auto
      from verbatimD [OF assms this wf_writer_new(1)] maps_bitsD [OF _ _ w] None show False
        by (metis option.distinct(1))
    qed
    with None show ?thesis by simp
  next
    case (Some x)
    obtain v r1 w1 where x: "x = (v, r1, w1)" by (cases x)
    obtain c where c: "prefix c (rbits r)" "maps_bits A v c c" "r1 = adv (length c) r" "wf_writer w1"
      using verbatimD [OF assms _ w] Some x by blast
    then show ?thesis using maps_bitsD [OF c(2,1) wf_writer_new(1)] Some x by force
  qed
qed

lemma walk_log2_max_poc_lead:
  "walk_hevc_sps_dpb_log2_max_poc rbsp =
     map_option (\<lambda>((_, l), _). l) (hevc_sps_lead (bit_reader_new rbsp) bit_writer_new)"
proof -
  let ?P = "\<lambda>r. do {
     (_, r) \<leftarrow> read_bits 4 r;
     (n, r) \<leftarrow> read_bits 3 r;
     (_, r) \<leftarrow> read_bits 1 r;
     (_, r) \<leftarrow> (do { (v, r, _) \<leftarrow> copy_hevc_profile_tier_level n r bit_writer_new; Some (v, r) });
     (_, r) \<leftarrow> read_ue r;
     (chroma, r) \<leftarrow> read_ue r;
     (_, r) \<leftarrow> (do { (_, r) \<leftarrow> (if chroma = 3 then read_bits 1 r else Some (0, r)); Some ((), r) });
     (_, r) \<leftarrow> read_ue r;
     (_, r) \<leftarrow> read_ue r;
     (win, r) \<leftarrow> read_bits 1 r;
     (_, r) \<leftarrow> (do { (_, r) \<leftarrow> (if win = 1 then skip_ues 4 r else Some ((), r)); Some ((), r) });
     (_, r) \<leftarrow> read_ue r;
     (_, r) \<leftarrow> read_ue r;
     (l, r) \<leftarrow> read_ue r;
     Some ((n, l), r)
   }"
  note bits = reads_like_bind [OF reads_like_copy_bits] and ue = reads_like_bind [OF reads_like_copy_ue]
  have "reads_like hevc_sps_lead ?P"
    unfolding hevc_sps_lead_def [abs_def]
    by (rule bits, simp, rule bits, simp, rule bits, simp,
        rule reads_like_bind [OF reads_like_verbatim [OF verbatim_hevc_ptl]],
        rule ue, rule ue, rule reads_like_bind, rule reads_like_when [OF reads_like_copy_bits], simp,
        rule ue, rule ue, rule bits, simp, rule reads_like_bind, rule reads_like_when [OF reads_like_skip_ues],
        rule ue, rule ue, rule ue, rule reads_like_return)
  note like = reads_likeD [OF this, of "bit_reader_new rbsp"]
  have "map_option (\<lambda>((_, l), _). l) (hevc_sps_lead (bit_reader_new rbsp) bit_writer_new) =
      map_option (snd \<circ> fst) (map_option (\<lambda>(v, r, w). (v, r)) (hevc_sps_lead (bit_reader_new rbsp) bit_writer_new))"
    by (cases "hevc_sps_lead (bit_reader_new rbsp) bit_writer_new") auto
  also have "\<dots> = map_option (snd \<circ> fst) (?P (bit_reader_new rbsp))"
    by (rule arg_cong [OF like])
  also have "\<dots> = walk_hevc_sps_dpb_log2_max_poc rbsp"
    unfolding walk_hevc_sps_dpb_log2_max_poc_def
    by (simp add: split_def Option.bind_assoc map_option_bind comp_def cong: if_cong)
  finally show ?thesis by (rule sym)
qed

section \<open>What the rewriter does to the bits\<close>

definition dpb_fields :: "(u32 \<times> u32 \<times> u32) list \<Rightarrow> bool list" where
  "dpb_fields ms = concat (map (\<lambda>(a, b, c). ue_bits a @ ue_bits b @ ue_bits c) ms)"

text \<open>\<open>n\<close> coded triplets, and the \<open>n\<close> zero triplets that replace them.\<close>

definition hevc_dpb_edit :: "nat \<Rightarrow> bool list \<Rightarrow> bool list \<Rightarrow> bool" where
  "hevc_dpb_edit n d d' \<longleftrightarrow> (\<exists>ms. length ms = n \<and> (\<forall>(a, b, c) \<in> set ms. a \<noteq> - 1 \<and> b \<noteq> - 1 \<and> c \<noteq> - 1) \<and>
     d = dpb_fields ms \<and> d' = dpb_fields (replicate n (0, 0, 0)))"

definition hevc_lead_edit :: "u32 \<Rightarrow> bool list \<Rightarrow> bool list \<Rightarrow> bool" where
  "hevc_lead_edit l c e \<longleftrightarrow> (\<exists>h n f d d'. c = h @ f # d \<and> e = h @ f # d' \<and>
     maps_bits hevc_sps_lead (n, l) h h \<and> hevc_dpb_edit (if f then unat n + 1 else 1) d d')"

lemma emits_ue_0: "emits (write_ue 0) (ue_bits 0)"
  by (rule emits_write_ue) simp

lemma maps_bits_triplet:
  assumes "a \<noteq> - 1" "b \<noteq> - 1" "c \<noteq> - 1"
  shows "maps_bits hevc_dpb_triplet () (ue_bits a @ ue_bits b @ ue_bits c) (ue_bits 0 @ ue_bits 0 @ ue_bits 0)"
proof -
  note skip = assms [THEN maps_bits_skip_ue]
  have "maps_bits hevc_dpb_triplet () (ue_bits a @ ue_bits b @ ue_bits c @ [])
      (ue_bits 0 @ ue_bits 0 @ ue_bits 0)"
    unfolding hevc_dpb_triplet_def [abs_def]
    by (rule maps_bits_consume_bind [OF skip(1)], rule maps_bits_put_bind [OF emits_ue_0],
        rule maps_bits_consume_bind [OF skip(2)], rule maps_bits_put_bind [OF emits_ue_0],
        rule maps_bits_consume_bind [OF skip(3)], rule maps_bits_put [OF emits_ue_0])
  then show ?thesis by simp
qed

lemma triplet_run:
  assumes "hevc_dpb_triplet r w = Some (v, r', w')" "wf_writer w"
  obtains a b c where "a \<noteq> - 1" "b \<noteq> - 1" "c \<noteq> - 1" "prefix (ue_bits a @ ue_bits b @ ue_bits c) (rbits r)"
proof -
  obtain a r1 b r2 c r3 where "read_ue r = Some (a, r1)" "read_ue r1 = Some (b, r2)" "read_ue r2 = Some (c, r3)"
    using assms(1) unfolding hevc_dpb_triplet_def skip_ue_def put_def by (auto simp: bind_eq_Some_conv)
  then show thesis
    using that [of a b c] unfolding read_ue_iff by (simp add: prefix_append_rbits del: rbits_adv)
qed

lemma maps_bits_triplets:
  "\<forall>(a, b, c) \<in> set ms. a \<noteq> - 1 \<and> b \<noteq> - 1 \<and> c \<noteq> - 1 \<Longrightarrow>
     maps_bits (for_range (length ms) hevc_dpb_triplet) () (dpb_fields ms) (dpb_fields (replicate (length ms) (0, 0, 0)))"
proof (induction ms)
  case Nil
  then show ?case by (simp add: dpb_fields_def for_range_eq maps_bits_return)
next
  case (Cons m ms)
  obtain a b c where m: "m = (a, b, c)" by (cases m)
  with Cons.prems have "maps_bits hevc_dpb_triplet () (ue_bits a @ ue_bits b @ ue_bits c) (ue_bits 0 @ ue_bits 0 @ ue_bits 0)"
    by (intro maps_bits_triplet) auto
  from maps_bits_bind [OF this Cons.IH] Cons.prems show ?case
    by (simp add: dpb_fields_def for_range_eq m)
qed

lemma maps_bits_dpb: "hevc_dpb_edit n d d' \<Longrightarrow> maps_bits (for_range n hevc_dpb_triplet) () d d'"
  unfolding hevc_dpb_edit_def using maps_bits_triplets by blast

lemma triplets_run:
  assumes "for_range n hevc_dpb_triplet r w = Some (v, r', w')" "wf_writer w"
  shows "\<exists>d d'. prefix d (rbits r) \<and> hevc_dpb_edit n d d'"
  using assms
proof (induction n arbitrary: r w)
  case 0
  then show ?case by (auto simp: hevc_dpb_edit_def dpb_fields_def intro: exI [of _ "[]"])
next
  case (Suc n)
  then obtain r1 w1 where 1: "hevc_dpb_triplet r w = Some ((), r1, w1)"
    and 2: "for_range n hevc_dpb_triplet r1 w1 = Some (v, r', w')"
    by (auto simp: bind_eq_Some_conv)
  obtain a b c where abc: "a \<noteq> - 1" "b \<noteq> - 1" "c \<noteq> - 1" and p: "prefix (ue_bits a @ ue_bits b @ ue_bits c) (rbits r)"
    by (rule triplet_run [OF 1 Suc.prems(2)])
  have r1: "r1 = adv (length (ue_bits a @ ue_bits b @ ue_bits c)) r" "wf_writer w1"
    using maps_bitsD [OF maps_bits_triplet [OF abc] p Suc.prems(2)] 1 by auto
  obtain d d' where d: "prefix d (rbits r1)" "hevc_dpb_edit n d d'" using Suc.IH [OF 2 r1(2)] by blast
  then obtain ms where ms: "length ms = n" "\<forall>(a, b, c) \<in> set ms. a \<noteq> - 1 \<and> b \<noteq> - 1 \<and> c \<noteq> - 1" "d = dpb_fields ms"
    unfolding hevc_dpb_edit_def by blast
  have "hevc_dpb_edit (Suc n) (dpb_fields ((a, b, c) # ms)) (dpb_fields (replicate (Suc n) (0, 0, 0)))"
    unfolding hevc_dpb_edit_def using ms abc by (intro exI [of _ "(a, b, c) # ms"]) auto
  moreover have "prefix (dpb_fields ((a, b, c) # ms)) (rbits r)"
    using p d(1) ms(3) r1(1) prefix_append_rbits [of "ue_bits a @ ue_bits b @ ue_bits c" d r]
    by (simp add: dpb_fields_def)
  ultimately show ?case by blast
qed

lemma hevc_dpb_edit_again: "hevc_dpb_edit n d d' \<Longrightarrow> hevc_dpb_edit n d' d'"
  unfolding hevc_dpb_edit_def by (auto intro!: exI [of _ "replicate n (0, 0, 0)"])

lemma hevc_lead_edit_again: "hevc_lead_edit l c e \<Longrightarrow> hevc_lead_edit l e e"
  unfolding hevc_lead_edit_def using hevc_dpb_edit_again by blast

lemma dpb_count:
  "unat (n :: u32) + 1 - unat (if f = (1 :: u32) then 0 else n) = (if f = 1 then unat n + 1 else 1)"
  by simp

lemma maps_bits_walk: "hevc_lead_edit l c e \<Longrightarrow> maps_bits walk_hevc_sps_through_dpb () c e"
proof -
  assume "hevc_lead_edit l c e"
  then obtain h n f d d' where c: "c = h @ [f] @ d" and e: "e = h @ [f] @ d'"
    and h: "maps_bits hevc_sps_lead (n, l) h h" and d: "hevc_dpb_edit (if f then unat n + 1 else 1) d d'"
    unfolding hevc_lead_edit_def by auto
  have fb: "maps_bits (copy_bits 1) (of_bool f) [f] [f]"
    using maps_bits_copy_bits [of 1 "of_bool f"] by (cases f) simp_all
  have "maps_bits (for_range (unat n + 1 - unat (if of_bool f = (1 :: u32) then 0 else n)) hevc_dpb_triplet) () d d'"
    using maps_bits_dpb [OF d] unfolding dpb_count by (cases f) (simp_all del: for_range.simps)
  note maps_bits_bind [where B = "\<lambda>f. for_range (unat n + 1 - unat (if f = (1 :: u32) then 0 else n)) hevc_dpb_triplet",
      OF fb this]
  then have "maps_bits (hevc_sps_triplets n) () ([f] @ d) ([f] @ d')"
    unfolding hevc_sps_triplets_def [abs_def] .
  then show ?thesis
    using maps_bits_bind [where B = "\<lambda>(n, _). hevc_sps_triplets n", OF h]
    unfolding walk_hevc_sps_through_dpb_def [abs_def] c e by (simp add: split_def)
qed

lemma walk_run:
  assumes "walk_hevc_sps_through_dpb r w = Some (v, r', w')" "wf_writer w"
  obtains l c e where "prefix c (rbits r)" "hevc_lead_edit l c e"
proof -
  obtain n l r1 w1 f r2 where 1: "hevc_sps_lead r w = Some ((n, l), r1, w1)"
    and 2: "read_bits 1 r1 = Some (f, r2)"
    and 3: "for_range (unat n + 1 - unat (if f = 1 then 0 else n)) hevc_dpb_triplet r2 (write_bits f 1 w1) = Some (v, r', w')"
    using assms(1) unfolding walk_hevc_sps_through_dpb_def hevc_sps_triplets_def copy_bits_def
    by (auto simp: bind_eq_Some_conv simp del: One_nat_def write_bits.simps)
  obtain h where h: "prefix h (rbits r)" "maps_bits hevc_sps_lead (n, l) h h" "r1 = adv (length h) r" "wf_writer w1"
    using verbatimD [OF verbatim_hevc_sps_lead 1 assms(2)] by blast
  obtain b t where b: "f = of_bool b" "rbits r1 = b # t" "r2 = adv 1 r1" using 2 read_bit_iff by blast
  have "wf_writer (write_bits f 1 w1)" using h(4) by (intro wf_write_bits) simp_all
  then obtain d d' where d: "prefix d (rbits r2)" "hevc_dpb_edit (if b then unat n + 1 else 1) d d'"
    using triplets_run [OF 3] unfolding dpb_count b by auto
  have "prefix (h @ [b] @ d) (rbits r)"
    using h(1,3) b(2,3) d(1) by (simp add: prefix_append_rbits del: rbits_adv) (simp add: drop_Suc tl_drop [symmetric])
  moreover have "hevc_lead_edit l (h @ b # d) (h @ b # d')"
    unfolding hevc_lead_edit_def using h(2) d(2) by blast
  ultimately show thesis using that by simp
qed

text \<open>The second parse finds the same field.\<close>

lemma log2_of_edit:
  assumes "hevc_lead_edit l c e" "prefix c (bits_of rbsp)"
  shows "walk_hevc_sps_dpb_log2_max_poc rbsp = Some l"
proof -
  obtain h n f d where h: "c = h @ f # d" "maps_bits hevc_sps_lead (n, l) h h"
    using assms(1) unfolding hevc_lead_edit_def by blast
  then have "prefix h (rbits (bit_reader_new rbsp))" using assms(2) by (auto dest: append_prefixD)
  then obtain w' where "hevc_sps_lead (bit_reader_new rbsp) bit_writer_new
      = Some ((n, l), adv (length h) (bit_reader_new rbsp), w')"
    by (rule maps_bitsD [OF h(2) _ wf_writer_new(1)])
  then show ?thesis unfolding walk_log2_max_poc_lead by simp
qed

section \<open>The DPB-only patch\<close>

lemma byte_bits_ubits: "ubits 8 (ucast (b :: u8) :: u32) = byte_bits b"
proof (rule nth_equalityI)
  fix k assume "k < length (ubits 8 (ucast b :: u32))"
  then have k: "k < 8" by simp
  then have "bit (ucast b :: u32) (7 - k) = bit b (7 - k)" by (auto simp: bit_ucast_iff)
  then show "ubits 8 (ucast b :: u32) ! k = byte_bits b ! k"
    using k nth_upt [of 0 k 8] by (simp add: nth_ubits byte_bits_def)
qed simp

lemma rbits_aligned:
  assumes "br_pos r mod 8 = 0" "br_pos r < length (br_bytes r) * 8"
  shows "rbits r = byte_bits (br_bytes r ! (br_pos r div 8)) @ rbits (r\<lparr>br_pos := br_pos r + 8\<rparr>)"
proof -
  let ?q = "br_pos r div 8" and ?bs = "br_bytes r"
  have p: "br_pos r = 8 * ?q" using assms(1) by auto
  have q: "?q < length ?bs" using assms(2) by auto
  have "bits_of ?bs = bits_of (take ?q ?bs) @ byte_bits (?bs ! ?q) @ bits_of (drop (Suc ?q) ?bs)"
    by (metis id_take_nth_drop [OF q] bits_of_simps(2,3))
  moreover have "length (bits_of (take ?q ?bs)) = br_pos r" using p q by simp
  ultimately show ?thesis unfolding rbits_def by simp
qed

lemma copy_remaining_bits_wf:
  "wf_writer w \<Longrightarrow> wf_writer (snd (copy_remaining_bits r w)) \<and>
     wbits (snd (copy_remaining_bits r w)) = wbits w @ rbits r"
proof (induction r w rule: copy_remaining_bits.induct)
  case (1 r w)
  let ?t = "length (br_bytes r) * 8"
  show ?case
  proof (cases "br_pos r < ?t")
    case False
    then show ?thesis using "1.prems" by (subst (1 2) copy_remaining_bits.simps) (simp add: rbits_def)
  next
    case less: True
    show ?thesis
    proof (cases "br_pos r mod 8 = 0 \<and> ?t - br_pos r \<ge> 8")
      case True
      let ?r = "r\<lparr>br_pos := br_pos r + 8\<rparr>" and ?w = "write_bits (ucast (br_bytes r ! (br_pos r div 8))) 8 w"
      have "copy_remaining_bits r w = copy_remaining_bits ?r ?w"
        using True less by (subst copy_remaining_bits.simps) (simp add: Let_def)
      moreover have "wf_writer ?w \<and> wbits ?w = wbits w @ byte_bits (br_bytes r ! (br_pos r div 8))"
        using write_bits_wf [OF _ "1.prems", of 8] byte_bits_ubits by simp
      ultimately show ?thesis
        using "1.IH"(1) [OF refl less True] rbits_aligned [of r] True less by simp
    next
      case False
      obtain b t where b: "rbits r = b # t"
        using less by (cases "rbits r") (auto simp: rbits_def)
      then have rd: "read_bits 1 r = Some (of_bool b, adv 1 r)" using read_bit_iff by blast
      let ?w = "write_bits (of_bool b) 1 w"
      have "copy_remaining_bits r w = copy_remaining_bits (adv 1 r) ?w"
        using less rd by (subst copy_remaining_bits.simps) (simp only: Let_def False if_True if_False option.case prod.case)
      moreover have "wf_writer ?w \<and> wbits ?w = wbits w @ [b]"
        using write_bits_wf [OF _ "1.prems", of 1 "of_bool b"] by simp
      ultimately show ?thesis
        using "1.IH"(2) [OF refl less False rd refl] b by simp
    qed
  qed
qed

text \<open>A bit string padded with zeros to whole bytes.\<close>

definition padded :: "bool list \<Rightarrow> bytes \<Rightarrow> bool" where
  "padded e out \<longleftrightarrow> (\<exists>k<8. bits_of out = e @ replicate k False)"

lemma padded_writer: "wf_writer w \<Longrightarrow> padded (wbits w) (into_bytes w)"
proof -
  assume w: "wf_writer w"
  then have "8 * length (bw_bytes w) - bw_pos w < 8" by (auto simp: wf_writer_def)
  then show ?thesis unfolding padded_def into_bytes_def using bits_of_writer [OF w] by blast
qed

lemma padded_unique:
  assumes "padded e x" "padded e y"
  shows "x = y"
proof -
  obtain i j where ij: "i < 8" "j < 8" "bits_of x = e @ replicate i False"
    "bits_of y = e @ replicate j False" using assms unfolding padded_def by blast
  then have "8 * length x = length e + i" "8 * length y = length e + j"
    using length_bits_of [of x] length_bits_of [of y] by simp_all
  then have "i = j" using ij(1,2) by presburger
  then show ?thesis using ij bits_of_inject by metis
qed

lemma patch_hevc_sps_dpb_only_iff:
  "patch_hevc_sps_dpb_only rbsp = Some out \<longleftrightarrow>
     (\<exists>l c e rest. bits_of rbsp = c @ rest \<and> hevc_lead_edit l c e \<and> padded (e @ rest) out)" (is "?L \<longleftrightarrow> ?R")
proof -
  have run: "patch_hevc_sps_dpb_only rbsp = Some out \<longleftrightarrow> padded (e @ rest) out"
    if ce: "bits_of rbsp = c @ rest" "hevc_lead_edit l c e" for l c e rest
  proof -
    let ?r = "bit_reader_new rbsp"
    have "prefix c (bits_of rbsp)" using ce by simp
    then obtain w where w: "walk_hevc_sps_through_dpb ?r bit_writer_new = Some ((), adv (length c) ?r, w)"
      "wf_writer w" "wbits w = e"
      by (rule maps_bits_run [OF maps_bits_walk [OF ce(2)]])
    let ?w = "snd (copy_remaining_bits (adv (length c) ?r) w)"
    have "wf_writer ?w" "wbits ?w = e @ rest"
      using copy_remaining_bits_wf [OF w(2), of "adv (length c) ?r"] w(3) ce(1) by simp_all
    then have "padded (e @ rest) (into_bytes ?w)" using padded_writer by metis
    then show ?thesis
      using w(1) padded_unique unfolding patch_hevc_sps_dpb_only_def by auto
  qed
  show ?thesis
  proof
    assume L: ?L
    then obtain r w where f: "walk_hevc_sps_through_dpb (bit_reader_new rbsp) bit_writer_new = Some ((), r, w)"
      unfolding patch_hevc_sps_dpb_only_def by (auto simp: bind_eq_Some_conv)
    obtain l c e where ce: "prefix c (bits_of rbsp)" "hevc_lead_edit l c e"
      using walk_run [OF f wf_writer_new(1)] unfolding rbits_new by metis
    then obtain rest where "bits_of rbsp = c @ rest" by (auto elim: prefixE)
    with run ce L show ?R by blast
  next
    assume ?R
    then show ?L using run by blast
  qed
qed

lemma patch_hevc_sps_dpb_only_idem:
  "Option.bind (patch_hevc_sps_dpb_only rbsp) patch_hevc_sps_dpb_only = patch_hevc_sps_dpb_only rbsp"
proof (cases "patch_hevc_sps_dpb_only rbsp")
  case (Some out)
  then obtain l c e rest k where ce: "hevc_lead_edit l c e" and k: "k < 8"
      and o: "bits_of out = e @ rest @ replicate k False"
    unfolding patch_hevc_sps_dpb_only_iff padded_def by auto
  have "padded (e @ rest @ replicate k False) out" unfolding padded_def o by (intro exI [of _ 0]) simp
  with o hevc_lead_edit_again [OF ce] have "patch_hevc_sps_dpb_only out = Some out"
    unfolding patch_hevc_sps_dpb_only_iff by blast
  with Some show ?thesis by simp
qed simp

section \<open>The full patch\<close>

definition minimal_hevc_vui_bits :: "bool list" where
  "minimal_hevc_vui_bits = [False, False] @ bt709_bits @ replicate 7 False"

lemma emits_minimal_hevc_vui: "emits emit_minimal_hevc_vui minimal_hevc_vui_bits"
  using emits_bt709
  by (simp add: emits_def emit_minimal_hevc_vui_def Let_def minimal_hevc_vui_bits_def
      numeral_eq_Suc del: write_bits.simps)

definition hevc_vui_edit :: "bool list \<Rightarrow> bool list \<Rightarrow> bool" where
  "hevc_vui_edit c e \<longleftrightarrow>
     c = [False] \<and> e = True # minimal_hevc_vui_bits \<or>
     (\<exists>a s b. c = True # a @ s @ b \<and> e = True # a @ bt709_bits @ b \<and>
        maps_bits vui_head () a a \<and> maps_bits skip_video_signal_type () s [] \<and>
        maps_bits hevc_vui_mid () b b)"

text \<open>The bits up to and with \<^verbatim>\<open>sps_extension_present_flag = 0\<close>.\<close>

definition hevc_sps_edit :: "bool list \<Rightarrow> bool list \<Rightarrow> bool" where
  "hevc_sps_edit c e \<longleftrightarrow>
     (\<exists>l a a' b v v'. c = a @ b @ v @ [False] \<and> e = a' @ b @ v' @ [False] \<and> unat (l + 4) \<le> 32 \<and>
        hevc_lead_edit l a a' \<and> maps_bits (hevc_sps_mid l) () b b \<and> hevc_vui_edit v v')"

lemma minimal_hevc_vui_mid: "maps_bits hevc_vui_mid () (replicate 7 False) (replicate 7 False)"
proof -
  have f: "maps_bits (copy_bits 1) 0 [False] [False]"
    using maps_bits_copy_bits [of 1 0] by simp
  note step = maps_bits_bind [OF f] maps_bits_bind [OF maps_bits_when_not] maps_bits_when_not maps_bits_return
  have "maps_bits hevc_vui_mid ()
      ([False] @ [] @ [False] @ [False] @ [False] @ [False] @ [] @ [False] @ [] @ [False] @ [])
      ([False] @ [] @ [False] @ [False] @ [False] @ [False] @ [] @ [False] @ [] @ [False] @ [])"
    unfolding hevc_vui_mid_def [abs_def] by (rule step | simp only: zero_neq_one not_False_eq_True)+
  then show ?thesis by (simp add: numeral_eq_Suc)
qed

lemma hevc_vui_edit_again: "hevc_vui_edit c e \<Longrightarrow> hevc_vui_edit e e"
  unfolding hevc_vui_edit_def minimal_hevc_vui_bits_def
  using minimal_h264_vui_parts(1) minimal_hevc_vui_mid reads_bt709 by blast

lemma hevc_sps_edit_again: "hevc_sps_edit c e \<Longrightarrow> hevc_sps_edit e e"
  unfolding hevc_sps_edit_def using hevc_vui_edit_again hevc_lead_edit_again by blast

lemma maps_bits_hevc_vui:
  assumes "maps_bits vui_head () a a" "maps_bits skip_video_signal_type () s []"
    "maps_bits hevc_vui_mid () b b"
  shows "maps_bits copy_hevc_vui_with_full_range_bt709 () (a @ s @ b) (a @ bt709_bits @ b)"
  unfolding copy_hevc_vui_with_full_range_bt709_def [abs_def]
  by (rule maps_bits_bind [OF assms(1)], rule maps_bits_consume_bind [OF assms(2)],
      rule maps_bits_put_bind [OF emits_bt709 assms(3)])

lemma maps_bits_hevc_sps_vui: "hevc_vui_edit c e \<Longrightarrow> maps_bits hevc_sps_vui () c e"
proof -
  have put1: "emits (write_bits 1 1) [True]" using emits_write_bits [of 1 1] by simp
  have rd: "maps_bits (skip_bits 1) 0 [False] []" "maps_bits (skip_bits 1) 1 [True] []"
    using maps_bits_skip_bits [of 1 0] maps_bits_skip_bits [of 1 1] by simp_all
  have absent: "maps_bits hevc_sps_vui () ([False] @ []) ([True] @ minimal_hevc_vui_bits)"
    unfolding hevc_sps_vui_def [abs_def]
    by (rule maps_bits_consume_bind [OF rd(1)], rule maps_bits_put_bind [OF put1],
        rule maps_bits_if(2), simp, rule maps_bits_put [OF emits_minimal_hevc_vui])
  have present: "maps_bits hevc_sps_vui () ([True] @ c') ([True] @ e')"
    if "maps_bits copy_hevc_vui_with_full_range_bt709 () c' e'" for c' e'
    unfolding hevc_sps_vui_def [abs_def]
    by (rule maps_bits_consume_bind [OF rd(2)], rule maps_bits_put_bind [OF put1],
        rule maps_bits_if(1) [OF refl that])
  assume "hevc_vui_edit c e"
  then show ?thesis
    unfolding hevc_vui_edit_def using absent present [OF maps_bits_hevc_vui] by auto
qed

lemma hevc_vui_run:
  assumes "copy_hevc_vui_with_full_range_bt709 r w = Some (v, r', w')" "wf_writer w"
  obtains a s b where "prefix (a @ s @ b) (rbits r)" "maps_bits vui_head () a a"
    "maps_bits skip_video_signal_type () s []" "maps_bits hevc_vui_mid () b b"
proof -
  obtain r1 w1 r2 w2 where 1: "vui_head r w = Some ((), r1, w1)"
    and 2: "skip_video_signal_type r1 w1 = Some ((), r2, w2)"
    and 3: "hevc_vui_mid r2 (write_full_range_bt709_video_signal_type w2) = Some ((), r', w')"
    using assms(1) unfolding copy_hevc_vui_with_full_range_bt709_def put_def
    by (auto simp: bind_eq_Some_conv)
  obtain a where a: "prefix a (rbits r)" "maps_bits vui_head () a a" "r1 = adv (length a) r" "wf_writer w1"
    using verbatimD [OF verbatim_vui_head 1 assms(2)] by blast
  obtain s where s: "prefix s (rbits r1)" "maps_bits skip_video_signal_type () s []"
      "r2 = adv (length s) r1" "wf_writer w2"
    using consumesD [OF consumes_video_signal_type 2 a(4)] by blast
  have "wf_writer (write_full_range_bt709_video_signal_type w2)"
    using emits_bt709 s(4) by (simp add: emits_def)
  then obtain b where b: "prefix b (rbits r2)" "maps_bits hevc_vui_mid () b b"
    using verbatimD [OF verbatim_hevc_vui_mid 3] by blast
  show thesis
    by (rule that [OF _ a(2) s(2) b(2)]) (use a s b in \<open>simp only: prefix_append_rbits\<close>)
qed

lemma hevc_sps_vui_run:
  assumes "hevc_sps_vui r w = Some (v, r', w')" "wf_writer w"
  obtains c e where "prefix c (rbits r)" "hevc_vui_edit c e"
proof -
  obtain f r1 where f: "read_bits 1 r = Some (f, r1)"
    and rest: "(if f = 1 then copy_hevc_vui_with_full_range_bt709 r1 (write_bits 1 1 w)
      else put emit_minimal_hevc_vui r1 (write_bits 1 1 w)) = Some (v, r', w')"
    using assms(1) unfolding hevc_sps_vui_def skip_bits_def put_def
    by (auto simp: bind_eq_Some_conv simp del: write_bits.simps One_nat_def)
  obtain b t where b: "f = of_bool b" "rbits r = b # t" "r1 = adv 1 r" using f read_bit_iff by blast
  have w: "wf_writer (write_bits 1 1 w)" using assms(2) by (intro wf_write_bits) simp_all
  show thesis
  proof (cases b)
    case False
    then show thesis using b that [of "[False]"] by (auto simp: hevc_vui_edit_def)
  next
    case True
    then have "copy_hevc_vui_with_full_range_bt709 r1 (write_bits 1 1 w) = Some (v, r', w')"
      using rest b(1) by (simp del: write_bits.simps)
    then obtain a s m where p: "prefix (a @ s @ m) (rbits r1)" and
      q: "maps_bits vui_head () a a" "maps_bits skip_video_signal_type () s []" "maps_bits hevc_vui_mid () m m"
      using hevc_vui_run [OF _ w] by blast
    have "prefix (True # a @ s @ m) (rbits r)" using p b True by simp
    moreover have "hevc_vui_edit (True # a @ s @ m) (True # a @ bt709_bits @ m)"
      using q unfolding hevc_vui_edit_def by blast
    ultimately show thesis by (rule that)
  qed
qed

text \<open>The walk of the full patch as one step, for a given \<^verbatim>\<open>log2_max_poc\<close>.\<close>

definition hevc_sps_full_step :: "u32 \<Rightarrow> unit sps_step" where
  "hevc_sps_full_step l r w = do {
     (_, r, w) \<leftarrow> walk_hevc_sps_through_dpb r w;
     (_, r, w) \<leftarrow> hevc_sps_mid l r w;
     (_, r, w) \<leftarrow> hevc_sps_vui r w;
     hevc_sps_extension r w
   }"

lemma patch_hevc_sps_full_eq:
  "patch_hevc_sps_full rbsp = do {
     l \<leftarrow> walk_hevc_sps_dpb_log2_max_poc rbsp;
     (_, r, w) \<leftarrow> hevc_sps_full_step l (bit_reader_new rbsp) bit_writer_new;
     Some (into_bytes (write_rbsp_trailing_bits w))
   }"
  unfolding patch_hevc_sps_full_def hevc_sps_full_step_def
  by (cases "walk_hevc_sps_through_dpb (bit_reader_new rbsp) bit_writer_new";
      cases "walk_hevc_sps_dpb_log2_max_poc rbsp") (auto simp: Option.bind_assoc split_def)

lemma maps_bits_hevc_full:
  assumes "hevc_lead_edit l a a'" "maps_bits (hevc_sps_mid l) () b b" "hevc_vui_edit v v'"
  shows "maps_bits (hevc_sps_full_step l) () (a @ b @ v @ [False]) (a' @ b @ v' @ [False])"
  unfolding hevc_sps_full_step_def [abs_def]
  by (rule maps_bits_bind [OF maps_bits_walk [OF assms(1)]], rule maps_bits_bind [OF assms(2)],
      rule maps_bits_bind [OF maps_bits_hevc_sps_vui [OF assms(3)] maps_bits_flag_zero])

lemma hevc_full_run:
  assumes "hevc_sps_full_step l r w = Some (u, r', w')" "wf_writer w" "unat (l + 4) \<le> 32"
  obtains k a a' b v v' where "prefix (a @ b @ v @ [False]) (rbits r)"
    "hevc_lead_edit k a a'" "maps_bits (hevc_sps_mid l) () b b" "hevc_vui_edit v v'"
proof -
  obtain r1 w1 r2 w2 r3 w3 where 1: "walk_hevc_sps_through_dpb r w = Some ((), r1, w1)"
    and 2: "hevc_sps_mid l r1 w1 = Some ((), r2, w2)" and 3: "hevc_sps_vui r2 w2 = Some ((), r3, w3)"
    and 4: "hevc_sps_extension r3 w3 = Some (u, r', w')"
    using assms(1) unfolding hevc_sps_full_step_def by (auto simp: bind_eq_Some_conv)
  obtain k a a' where a: "prefix a (rbits r)" "hevc_lead_edit k a a'" by (rule walk_run [OF 1 assms(2)])
  have r1: "r1 = adv (length a) r" "wf_writer w1"
    using maps_bitsD [OF maps_bits_walk [OF a(2)] a(1) assms(2)] 1 by auto
  obtain b where b: "prefix b (rbits r1)" "maps_bits (hevc_sps_mid l) () b b" "r2 = adv (length b) r1" "wf_writer w2"
    using verbatimD [OF verbatim_hevc_sps_mid [OF assms(3)] 2 r1(2)] by blast
  obtain v v' where v: "prefix v (rbits r2)" "hevc_vui_edit v v'" by (rule hevc_sps_vui_run [OF 3 b(4)])
  have r3: "r3 = adv (length v) r2"
    using maps_bitsD [OF maps_bits_hevc_sps_vui [OF v(2)] v(1) b(4)] 3 by auto
  obtain f where "read_bits 1 r3 = Some (f, r')" "f \<noteq> 1"
    using 4 unfolding hevc_sps_extension_def skip_bits_def put_def
    by (auto simp: bind_eq_Some_conv simp del: One_nat_def split: if_splits)
  then have "prefix [False] (rbits r3)" by (auto simp: read_bit_iff simp del: One_nat_def)
  then have "prefix (a @ b @ v @ [False]) (rbits r)"
    using a(1) b(1,3) v(1) r1(1) r3 by (simp only: prefix_append_rbits)
  then show thesis by (rule that [OF _ a(2) b(2) v(2)])
qed

text \<open>The width of \<^verbatim>\<open>lt_ref_pic_poc_lsb_sps\<close> fits the 32 bits the reader and writer handle; the
  standard bounds it by 16.\<close>

definition lt_width_ok :: "bytes \<Rightarrow> bool" where
  "lt_width_ok rbsp \<longleftrightarrow> (case walk_hevc_sps_dpb_log2_max_poc rbsp of
     Some l \<Rightarrow> unat (l + 4) \<le> 32 | None \<Rightarrow> False)"

lemma patch_hevc_sps_full_iff:
  "patch_hevc_sps_full rbsp = Some out \<and> lt_width_ok rbsp \<longleftrightarrow>
     (\<exists>c e. prefix c (bits_of rbsp) \<and> hevc_sps_edit c e \<and> rbsp_of e out)" (is "?L \<longleftrightarrow> ?R")
proof -
  have run: "lt_width_ok rbsp \<and> (patch_hevc_sps_full rbsp = Some out \<longleftrightarrow> rbsp_of e out)"
    if ce: "prefix c (bits_of rbsp)" "hevc_sps_edit c e" for c e
  proof -
    obtain l a a' b v v' where c: "c = a @ b @ v @ [False]" and e: "e = a' @ b @ v' @ [False]"
      and l: "unat (l + 4) \<le> 32" and a: "hevc_lead_edit l a a'"
      and m: "maps_bits (hevc_sps_mid l) () b b" and v: "hevc_vui_edit v v'"
      using ce(2) unfolding hevc_sps_edit_def by blast
    have "prefix a (bits_of rbsp)" using ce(1) unfolding c by (rule append_prefixD)
    then have log: "walk_hevc_sps_dpb_log2_max_poc rbsp = Some l" by (rule log2_of_edit [OF a])
    obtain w where w: "hevc_sps_full_step l (bit_reader_new rbsp) bit_writer_new
        = Some ((), adv (length c) (bit_reader_new rbsp), w)" "wf_writer w" "wbits w = e"
      using maps_bits_run [OF maps_bits_hevc_full [OF a m v, folded c e] ce(1)] by blast
    have "patch_hevc_sps_full rbsp = Some (into_bytes (write_rbsp_trailing_bits w))"
      unfolding patch_hevc_sps_full_eq log using w(1) by simp
    moreover have "rbsp_of e (into_bytes (write_rbsp_trailing_bits w))"
      using rbsp_of_trailing [OF w(2)] w(3) by simp
    moreover have "lt_width_ok rbsp" using l by (simp add: lt_width_ok_def log)
    ultimately show ?thesis using rbsp_of_unique by auto
  qed
  show ?thesis
  proof
    assume L: ?L
    then obtain l r w where l: "walk_hevc_sps_dpb_log2_max_poc rbsp = Some l" "unat (l + 4) \<le> 32"
      and f: "hevc_sps_full_step l (bit_reader_new rbsp) bit_writer_new = Some ((), r, w)"
      unfolding patch_hevc_sps_full_eq lt_width_ok_def
      by (auto simp: bind_eq_Some_conv split: option.splits)
    obtain k a a' b v v' where p: "prefix (a @ b @ v @ [False]) (bits_of rbsp)"
      and a: "hevc_lead_edit k a a'" "maps_bits (hevc_sps_mid l) () b b" "hevc_vui_edit v v'"
      using hevc_full_run [OF f wf_writer_new(1) l(2)] unfolding rbits_new by metis
    have "walk_hevc_sps_dpb_log2_max_poc rbsp = Some k"
      using log2_of_edit [OF a(1)] p append_prefixD by blast
    with l(1) have "k = l" by simp
    then have "hevc_sps_edit (a @ b @ v @ [False]) (a' @ b @ v' @ [False])"
      unfolding hevc_sps_edit_def using a l(2) by blast
    with run p L show ?R by blast
  next
    assume ?R
    then show ?L using run by blast
  qed
qed

lemma patch_hevc_sps_full_idem:
  assumes "patch_hevc_sps_full rbsp = Some out" "lt_width_ok rbsp"
  shows "patch_hevc_sps_full out = Some out"
proof -
  obtain c e where ce: "hevc_sps_edit c e" "rbsp_of e out" using assms patch_hevc_sps_full_iff by blast
  then have "prefix e (bits_of out)" unfolding rbsp_of_def by auto
  then show ?thesis using patch_hevc_sps_full_iff hevc_sps_edit_again [OF ce(1)] ce(2) by blast
qed

section \<open>The two patches together\<close>

lemma walk_of_full: "patch_hevc_sps_full rbsp \<noteq> None \<Longrightarrow> patch_hevc_sps_dpb_only rbsp \<noteq> None"
  unfolding patch_hevc_sps_full_def patch_hevc_sps_dpb_only_def
  by (cases "walk_hevc_sps_through_dpb (bit_reader_new rbsp) bit_writer_new") auto

lemma patch_hevc_sps_rbsp_None:
  "patch_hevc_sps_rbsp rbsp = None \<longleftrightarrow> patch_hevc_sps_dpb_only rbsp = None"
  unfolding patch_hevc_sps_rbsp_def using walk_of_full by (cases "patch_hevc_sps_full rbsp") auto

section \<open>What a decoder reads\<close>

fun view_triplets :: "nat \<Rightarrow> (u32 \<times> u32 \<times> u32) list sps_step" where
  "view_triplets 0 r w = Some ([], r, w)"
| "view_triplets (Suc n) r w = do {
     (a, r, w) \<leftarrow> skip_ue r w;
     (b, r, w) \<leftarrow> skip_ue r w;
     (c, r, w) \<leftarrow> skip_ue r w;
     (rest, r, w) \<leftarrow> view_triplets n r w;
     Some ((a, b, c) # rest, r, w)
   }"

text \<open>The triplets \<^verbatim>\<open>(sps_max_dec_pic_buffering_minus1, sps_max_num_reorder_pics,
  sps_max_latency_increase_plus1)\<close> of an SPS, and what follows them: \<^verbatim>\<open>video_full_range_flag\<close>
  when there is a VUI.\<close>

definition view_hevc_dpb :: "((u32 \<times> u32 \<times> u32) list \<times> u32) sps_step" where
  "view_hevc_dpb r w = do {
     (nl, r, w) \<leftarrow> hevc_sps_lead r w;
     (f, r, w) \<leftarrow> skip_bits 1 r w;
     (ts, r, w) \<leftarrow> view_triplets (if f = 1 then unat (fst nl) + 1 else 1) r w;
     Some ((ts, snd nl), r, w)
   }"

definition view_hevc_range :: "u32 \<Rightarrow> u32 option sps_step" where
  "view_hevc_range l r w = do {
     (_, r, w) \<leftarrow> hevc_sps_mid l r w;
     (vui_present, r, w) \<leftarrow> skip_bits 1 r w;
     if vui_present = 1 then do {
       (_, r, w) \<leftarrow> vui_head r w;
       (full_range, r, w) \<leftarrow> view_video_signal_type r w;
       Some (Some full_range, r, w)
     } else Some (None, r, w)
   }"

definition hevc_dpb_view :: "bytes \<Rightarrow> (u32 \<times> u32 \<times> u32) list option" where
  "hevc_dpb_view rbsp = map_option (\<lambda>((ts, _), _). ts) (view_hevc_dpb (bit_reader_new rbsp) bit_writer_new)"

definition hevc_range_view :: "bytes \<Rightarrow> u32 option option" where
  "hevc_range_view rbsp = do {
     ((_, l), r, w) \<leftarrow> view_hevc_dpb (bit_reader_new rbsp) bit_writer_new;
     (f, _, _) \<leftarrow> view_hevc_range l r w;
     Some f
   }"

lemma view_triplets_eq:
  "view_triplets 0 = (\<lambda>r w. Some ([], r, w))"
  "view_triplets (Suc n) = (\<lambda>r w. do {
     (a, r, w) \<leftarrow> skip_ue r w;
     (b, r, w) \<leftarrow> skip_ue r w;
     (c, r, w) \<leftarrow> skip_ue r w;
     (rest, r, w) \<leftarrow> view_triplets n r w;
     Some ((a, b, c) # rest, r, w)
   })"
  by (rule ext, rule ext, simp)+

lemma views_triplets:
  "maps_bits (view_triplets n) (replicate n (0, 0, 0)) (dpb_fields (replicate n (0, 0, 0))) []"
proof (induction n)
  case 0
  then show ?case by (simp add: view_triplets_eq dpb_fields_def maps_bits_return)
next
  case (Suc n)
  have z: "maps_bits skip_ue 0 (ue_bits 0) []" by (rule maps_bits_skip_ue) simp
  have "maps_bits (view_triplets (Suc n)) ((0, 0, 0) # replicate n (0, 0, 0))
      (ue_bits 0 @ ue_bits 0 @ ue_bits 0 @ dpb_fields (replicate n (0, 0, 0)) @ []) []"
    unfolding view_triplets_eq(2)
    by (rule maps_bits_consume_bind [OF z], rule maps_bits_consume_bind [OF z],
        rule maps_bits_consume_bind [OF z], rule maps_bits_consume_bind [OF Suc maps_bits_return])
  then show ?case by (simp add: dpb_fields_def del: view_triplets.simps)
qed

lemma views_hevc_dpb:
  assumes "hevc_lead_edit l c e"
  shows "\<exists>n>0. \<exists>h. maps_bits view_hevc_dpb (replicate n (0, 0, 0), l) e h"
proof -
  obtain h n f d d' where e: "e = h @ [f] @ d'" and h: "maps_bits hevc_sps_lead (n, l) h h"
    and d: "hevc_dpb_edit (if f then unat n + 1 else 1) d d'"
    using assms unfolding hevc_lead_edit_def by auto
  let ?k = "if of_bool f = (1 :: u32) then unat (fst (n, l)) + 1 else 1"
  have k: "?k = (if f then unat n + 1 else 1)" by simp
  have d': "d' = dpb_fields (replicate ?k (0, 0, 0))" using d unfolding hevc_dpb_edit_def k by blast
  have fb: "maps_bits (skip_bits 1) (of_bool f) [f] []"
    using maps_bits_skip_bits [of 1 "of_bool f"] by (cases f) simp_all
  have "maps_bits view_hevc_dpb (replicate ?k (0, 0, 0), snd (n, l))
      (h @ [f] @ dpb_fields (replicate ?k (0, 0, 0)) @ []) (h @ [])"
    unfolding view_hevc_dpb_def [abs_def]
    by (rule maps_bits_bind [OF h], rule maps_bits_consume_bind [OF fb],
        rule maps_bits_consume_bind [OF views_triplets maps_bits_return])
  then have "maps_bits view_hevc_dpb (replicate ?k (0, 0, 0), l) e h" unfolding e d' by simp
  moreover have "?k > 0" by simp
  ultimately show ?thesis by blast
qed

lemma views_hevc_range:
  assumes "maps_bits (hevc_sps_mid l) () b b" "hevc_vui_edit v v'"
  shows "\<exists>v1 v2 e. v' = v1 @ v2 \<and> maps_bits (view_hevc_range l) (Some 1) (b @ v1) e"
proof -
  obtain a t where v': "v' = [True] @ a @ bt709_bits @ t" and a: "maps_bits vui_head () a a"
    using hevc_vui_edit_again [OF assms(2)] unfolding hevc_vui_edit_def minimal_hevc_vui_bits_def by auto
  have one: "maps_bits (skip_bits 1) 1 [True] []" using maps_bits_skip_bits [of 1 1] by simp
  have "maps_bits (view_hevc_range l) (Some 1) (b @ [True] @ a @ bt709_bits @ []) (b @ a @ [])"
    unfolding view_hevc_range_def [abs_def]
    by (rule maps_bits_bind [OF assms(1)], rule maps_bits_consume_bind [OF one], rule maps_bits_if(1) [OF refl],
        rule maps_bits_bind [OF a], rule maps_bits_consume_bind [OF views_bt709 maps_bits_return])
  then show ?thesis
    unfolding v' by (intro exI [of _ "[True] @ a @ bt709_bits"] exI [of _ t] exI [of _ "b @ a @ []"]) simp
qed

text \<open>Whichever patch applied, the decoder sees zero triplets; after the full patch it also sees
  full range.\<close>

lemma dpb_view_of_edit:
  assumes "hevc_lead_edit l c e" "prefix e (bits_of out)"
  shows "\<exists>n>0. hevc_dpb_view out = Some (replicate n (0, 0, 0))"
proof -
  obtain n h where n: "n > 0" "maps_bits view_hevc_dpb (replicate n (0, 0, 0), l) e h"
    using views_hevc_dpb [OF assms(1)] by blast
  obtain w where "view_hevc_dpb (bit_reader_new out) bit_writer_new
      = Some ((replicate n (0, 0, 0), l), adv (length e) (bit_reader_new out), w)"
    by (rule maps_bits_run [OF n(2) assms(2)])
  with n(1) show ?thesis unfolding hevc_dpb_view_def by auto
qed

lemma patch_hevc_dpb_view:
  assumes "patch_hevc_sps_rbsp rbsp = Some out" "lt_width_ok rbsp"
  shows "\<exists>n>0. hevc_dpb_view out = Some (replicate n (0, 0, 0))"
proof (cases "patch_hevc_sps_full rbsp")
  case None
  then obtain l c e rest where "hevc_lead_edit l c e" "padded (e @ rest) out"
    using assms(1) unfolding patch_hevc_sps_rbsp_def by (auto simp: patch_hevc_sps_dpb_only_iff)
  then show ?thesis using dpb_view_of_edit [of l c e out] unfolding padded_def by auto
next
  case (Some o')
  then have "patch_hevc_sps_full rbsp = Some out" using assms(1) by (simp add: patch_hevc_sps_rbsp_def)
  then obtain c e where "hevc_sps_edit c e" "rbsp_of e out" using assms(2) patch_hevc_sps_full_iff by blast
  then obtain l a a' where "hevc_lead_edit l a a'" "prefix a' (bits_of out)"
    unfolding hevc_sps_edit_def rbsp_of_def by auto
  then show ?thesis by (rule dpb_view_of_edit)
qed

lemma patch_hevc_range_view:
  assumes "patch_hevc_sps_full rbsp = Some out" "lt_width_ok rbsp"
  shows "hevc_range_view out = Some (Some 1)"
proof -
  obtain c e where ce: "hevc_sps_edit c e" "rbsp_of e out" using assms patch_hevc_sps_full_iff by blast
  then obtain l a a' b v v' where e: "e = a' @ b @ v' @ [False]" and a: "hevc_lead_edit l a a'"
    and m: "maps_bits (hevc_sps_mid l) () b b" and v: "hevc_vui_edit v v'"
    unfolding hevc_sps_edit_def by blast
  obtain n h where n: "maps_bits view_hevc_dpb (replicate n (0, 0, 0), l) a' h"
    using views_hevc_dpb [OF a] by blast
  obtain v1 v2 x where v1: "v' = v1 @ v2" and x: "maps_bits (view_hevc_range l) (Some 1) (b @ v1) x"
    using views_hevc_range [OF m v] by blast
  have p: "prefix (a' @ (b @ v1)) (rbits (bit_reader_new out))"
    using ce(2) unfolding e v1 rbsp_of_def by auto
  then have "prefix a' (bits_of out)" by (auto dest: append_prefixD)
  then obtain w where w: "view_hevc_dpb (bit_reader_new out) bit_writer_new
      = Some ((replicate n (0, 0, 0), l), adv (length a') (bit_reader_new out), w)" "wf_writer w"
    by (rule maps_bits_run [OF n])
  have "prefix (b @ v1) (rbits (adv (length a') (bit_reader_new out)))"
    using p unfolding prefix_append_rbits by blast
  then obtain w2 where "view_hevc_range l (adv (length a') (bit_reader_new out)) w
      = Some (Some 1, adv (length (b @ v1)) (adv (length a') (bit_reader_new out)), w2)"
    by (rule maps_bitsD [OF x _ w(2)])
  then show ?thesis unfolding hevc_range_view_def by (simp only: w(1) bind.simps prod.case)
qed

end
