(* ===== verification/Protocol.thy ===== *)
theory Protocol
  imports Prelude
begin

text \<open>
  The wire protocol of \<^verbatim>\<open>crates/penflow-protocol/src/lib.rs\<close>: message ids, the
  framing codec \<open>[u8 id][u32 BE length][payload]\<close> and the typed payloads with their
  \<open>encode\<close>/\<open>decode\<close> functions. A \<^verbatim>\<open>f32\<close> travels as its 32 bits
  (\<^verbatim>\<open>to_be_bytes\<close>/\<^verbatim>\<open>from_be_bytes\<close> do not look inside), signed integers as their
  two's complement words. The locale \<open>wire_message\<close> states what a typed message owes
  the framing layer and proves delivery once for all of them.
\<close>

section \<open>Constants\<close>

definition MSG_HELLO_PC :: u8 where "MSG_HELLO_PC = 0x01"
definition MSG_VIDEO_CONFIG :: u8 where "MSG_VIDEO_CONFIG = 0x02"
definition MSG_VIDEO_FRAME :: u8 where "MSG_VIDEO_FRAME = 0x03"
definition MSG_BRUSH_HINT :: u8 where "MSG_BRUSH_HINT = 0x04"
definition MSG_TELEMETRY :: u8 where "MSG_TELEMETRY = 0x05"
definition MSG_TIME_SYNC_RESP :: u8 where "MSG_TIME_SYNC_RESP = 0x06"
definition MSG_CLIENT_CONFIG :: u8 where "MSG_CLIENT_CONFIG = 0x07"
definition MSG_PC_GOODBYE :: u8 where "MSG_PC_GOODBYE = 0x7F"
definition MSG_HELLO_ANDROID :: u8 where "MSG_HELLO_ANDROID = 0x81"
definition MSG_PEN_EVENT :: u8 where "MSG_PEN_EVENT = 0x82"
definition MSG_TOUCH_EVENT :: u8 where "MSG_TOUCH_EVENT = 0x83"
definition MSG_TIME_SYNC_REQ :: u8 where "MSG_TIME_SYNC_REQ = 0x84"
definition MSG_REQUEST_IDR :: u8 where "MSG_REQUEST_IDR = 0x85"
definition MSG_ANDROID_GOODBYE :: u8 where "MSG_ANDROID_GOODBYE = 0xFF"

definition CODEC_H264 :: u8 where "CODEC_H264 = 1"
definition CODEC_HEVC :: u8 where "CODEC_HEVC = 2"
definition CODEC_AV1 :: u8 where "CODEC_AV1 = 3"

definition FRAME_FLAG_KEYFRAME :: u8 where "FRAME_FLAG_KEYFRAME = 0x01"
definition FRAME_FLAG_EXTENDED :: u8 where "FRAME_FLAG_EXTENDED = 0x80"

definition CODEC_CAPS_H264 :: u8 where "CODEC_CAPS_H264 = push_bit 0 1"
definition CODEC_CAPS_HEVC :: u8 where "CODEC_CAPS_HEVC = push_bit 1 1"
definition CODEC_CAPS_AV1 :: u8 where "CODEC_CAPS_AV1 = push_bit 2 1"

definition CLIENT_CFG_FLAG_HUD :: u32 where "CLIENT_CFG_FLAG_HUD = push_bit 0 1"
definition CLIENT_CFG_FLAG_SCREEN_OFF :: u32 where "CLIENT_CFG_FLAG_SCREEN_OFF = push_bit 1 1"

definition MAX_PAYLOAD_LEN :: nat where "MAX_PAYLOAD_LEN = 64 * 1024 * 1024"

lemmas server_msg_defs =
  MSG_HELLO_PC_def MSG_VIDEO_CONFIG_def MSG_VIDEO_FRAME_def MSG_BRUSH_HINT_def
  MSG_TELEMETRY_def MSG_TIME_SYNC_RESP_def MSG_CLIENT_CONFIG_def MSG_PC_GOODBYE_def

lemmas client_msg_defs =
  MSG_HELLO_ANDROID_def MSG_PEN_EVENT_def MSG_TOUCH_EVENT_def MSG_TIME_SYNC_REQ_def
  MSG_REQUEST_IDR_def MSG_ANDROID_GOODBYE_def

section \<open>Errors\<close>

datatype protocol_error =
    Io io_error
  | PayloadTooLarge u32
  | Malformed u8 string

text \<open>\<^verbatim>\<open>From<io::Error>\<close>, applied by the question-mark operator.\<close>

definition io_try :: "io_error + 'a \<Rightarrow> protocol_error + 'a" where
  "io_try m = (case m of Inl e \<Rightarrow> Inl (Io e) | Inr a \<Rightarrow> Inr a)"

lemma io_try_simps [simp]: "io_try (Inl e) = Inl (Io e)" "io_try (Inr a) = Inr a"
  by (simp_all add: io_try_def)

lemma io_try_Inr_iff: "io_try m = Inr a \<longleftrightarrow> m = Inr a"
  by (cases m) auto

section \<open>Framing\<close>

definition encode_frame :: "u8 \<Rightarrow> bytes \<Rightarrow> bytes" where
  "encode_frame msg_id payload =
     [msg_id] @ to_be_bytes 4 (of_nat (length payload) :: u32) @ payload"

definition write_frame :: "out_stream \<Rightarrow> u8 \<Rightarrow> bytes \<Rightarrow> protocol_error + out_stream" where
  "write_frame w msg_id payload = io_try (write_all (encode_frame msg_id payload) w)"

definition read_frame :: "in_stream \<Rightarrow> protocol_error + ((u8 \<times> bytes) \<times> in_stream)" where
  "read_frame r =
     result_bind (io_try (read_exact 1 r)) (\<lambda>(id_bytes, r).
     result_bind (io_try (read_exact 4 r)) (\<lambda>(len_bytes, r).
       let msg_id = id_bytes ! 0; len = (from_be_bytes len_bytes :: u32) in
       if unat len > MAX_PAYLOAD_LEN then Inl (PayloadTooLarge len)
       else result_bind (io_try (read_exact (unat len) r)) (\<lambda>(payload, r).
         Inr ((msg_id, payload), r))))"

section \<open>Typed payloads\<close>

definition slice :: "nat \<Rightarrow> nat \<Rightarrow> 'a list \<Rightarrow> 'a list" where
  "slice a b xs = take (b - a) (drop a xs)"

record hello_pc =
  hp_protocol_version :: u8
  hp_width :: u16
  hp_height :: u16
  hp_codec :: u8
  hp_bitrate_bps :: u32
  hp_fps :: u8

definition hello_pc_SIZE :: nat where "hello_pc_SIZE = 1 + 2 + 2 + 1 + 4 + 1"

definition hello_pc_encode :: "hello_pc \<Rightarrow> bytes" where
  "hello_pc_encode m =
     [hp_protocol_version m] @ to_be_bytes 2 (hp_width m) @ to_be_bytes 2 (hp_height m) @
     [hp_codec m] @ to_be_bytes 4 (hp_bitrate_bps m) @ [hp_fps m]"

definition hello_pc_decode :: "bytes \<Rightarrow> protocol_error + hello_pc" where
  "hello_pc_decode payload =
     (if length payload \<noteq> hello_pc_SIZE
      then Inl (Malformed MSG_HELLO_PC ''HELLO_PC must be 11 bytes'')
      else Inr \<lparr>
        hp_protocol_version = payload ! 0,
        hp_width = from_be_bytes [payload ! 1, payload ! 2],
        hp_height = from_be_bytes [payload ! 3, payload ! 4],
        hp_codec = payload ! 5,
        hp_bitrate_bps = from_be_bytes [payload ! 6, payload ! 7, payload ! 8, payload ! 9],
        hp_fps = payload ! 10\<rparr>)"

record hello_android =
  ha_protocol_version :: u8
  ha_display_width :: u16
  ha_display_height :: u16
  ha_pen_max_pressure :: u16
  ha_pen_tilt_min_deg :: i16
  ha_pen_tilt_max_deg :: i16
  ha_pen_buttons_count :: u8
  ha_codec_caps :: u8

definition hello_android_SIZE :: nat where
  "hello_android_SIZE = 1 + 2 + 2 + 2 + 2 + 2 + 1 + 1"

definition hello_android_encode :: "hello_android \<Rightarrow> bytes" where
  "hello_android_encode m =
     [ha_protocol_version m] @ to_be_bytes 2 (ha_display_width m) @
     to_be_bytes 2 (ha_display_height m) @ to_be_bytes 2 (ha_pen_max_pressure m) @
     to_be_bytes 2 (ha_pen_tilt_min_deg m) @ to_be_bytes 2 (ha_pen_tilt_max_deg m) @
     [ha_pen_buttons_count m] @ [ha_codec_caps m]"

definition hello_android_decode :: "bytes \<Rightarrow> protocol_error + hello_android" where
  "hello_android_decode payload =
     (if length payload \<noteq> hello_android_SIZE
      then Inl (Malformed MSG_HELLO_ANDROID ''HELLO_ANDROID must be 13 bytes'')
      else Inr \<lparr>
        ha_protocol_version = payload ! 0,
        ha_display_width = from_be_bytes [payload ! 1, payload ! 2],
        ha_display_height = from_be_bytes [payload ! 3, payload ! 4],
        ha_pen_max_pressure = from_be_bytes [payload ! 5, payload ! 6],
        ha_pen_tilt_min_deg = from_be_bytes [payload ! 7, payload ! 8],
        ha_pen_tilt_max_deg = from_be_bytes [payload ! 9, payload ! 10],
        ha_pen_buttons_count = payload ! 11,
        ha_codec_caps = payload ! 12\<rparr>)"

record client_config =
  cc_flags :: u32

definition client_config_SIZE :: nat where "client_config_SIZE = 4"

definition client_config_encode :: "client_config \<Rightarrow> bytes" where
  "client_config_encode m = to_be_bytes 4 (cc_flags m)"

definition client_config_decode :: "bytes \<Rightarrow> protocol_error + client_config" where
  "client_config_decode payload =
     (if length payload < client_config_SIZE
      then Inl (Malformed MSG_CLIENT_CONFIG ''CLIENT_CONFIG must be at least 4 bytes'')
      else Inr \<lparr>cc_flags = from_be_bytes [payload ! 0, payload ! 1, payload ! 2, payload ! 3]\<rparr>)"

definition hud_enabled :: "client_config \<Rightarrow> bool" where
  "hud_enabled m \<longleftrightarrow> cc_flags m AND CLIENT_CFG_FLAG_HUD \<noteq> 0"

definition screen_off :: "client_config \<Rightarrow> bool" where
  "screen_off m \<longleftrightarrow> cc_flags m AND CLIENT_CFG_FLAG_SCREEN_OFF \<noteq> 0"

record video_frame =
  vf_pts_ns :: i64
  vf_flags :: u8
  vf_capture_us :: "u32 option"
  vf_encode_us :: "u32 option"
  vf_coded :: bytes

definition unwrap_or :: "'a option \<Rightarrow> 'a \<Rightarrow> 'a" where
  "unwrap_or m d = (case m of Some a \<Rightarrow> a | None \<Rightarrow> d)"

definition video_frame_encode :: "video_frame \<Rightarrow> bytes" where
  "video_frame_encode m =
     (let extended = (vf_flags m AND FRAME_FLAG_EXTENDED \<noteq> 0) in
      to_be_bytes 8 (vf_pts_ns m) @ [vf_flags m] @
      (if extended
       then to_be_bytes 4 (unwrap_or (vf_capture_us m) 0) @ to_be_bytes 4 (unwrap_or (vf_encode_us m) 0)
       else []) @
      vf_coded m)"

definition video_frame_decode :: "bytes \<Rightarrow> protocol_error + video_frame" where
  "video_frame_decode payload =
     (if length payload < 9
      then Inl (Malformed MSG_VIDEO_FRAME ''VIDEO_FRAME header truncated'')
      else let pts_ns = from_be_bytes (slice 0 8 payload); flags = payload ! 8 in
        if flags AND FRAME_FLAG_EXTENDED \<noteq> 0 then
          if length payload < 17
          then Inl (Malformed MSG_VIDEO_FRAME ''VIDEO_FRAME extended header truncated'')
          else Inr \<lparr>
            vf_pts_ns = pts_ns, vf_flags = flags,
            vf_capture_us = Some (from_be_bytes (slice 9 13 payload)),
            vf_encode_us = Some (from_be_bytes (slice 13 17 payload)),
            vf_coded = drop 17 payload\<rparr>
        else Inr \<lparr>
            vf_pts_ns = pts_ns, vf_flags = flags,
            vf_capture_us = None, vf_encode_us = None,
            vf_coded = drop 9 payload\<rparr>)"

record pen_event =
  pe_ts_ns :: i64
  pe_phase :: u8
  pe_x_norm :: f32_bits
  pe_y_norm :: f32_bits
  pe_pressure :: f32_bits
  pe_tilt_x :: f32_bits
  pe_tilt_y :: f32_bits
  pe_buttons :: u8
  pe_tool :: u8

definition pen_event_SIZE :: nat where
  "pen_event_SIZE = 8 + 1 + 4 + 4 + 4 + 4 + 4 + 1 + 1"

definition pen_event_encode :: "pen_event \<Rightarrow> bytes" where
  "pen_event_encode m =
     to_be_bytes 8 (pe_ts_ns m) @ [pe_phase m] @ to_be_bytes 4 (pe_x_norm m) @
     to_be_bytes 4 (pe_y_norm m) @ to_be_bytes 4 (pe_pressure m) @
     to_be_bytes 4 (pe_tilt_x m) @ to_be_bytes 4 (pe_tilt_y m) @
     [pe_buttons m] @ [pe_tool m]"

definition pen_event_decode :: "bytes \<Rightarrow> protocol_error + pen_event" where
  "pen_event_decode payload =
     (if length payload \<noteq> pen_event_SIZE
      then Inl (Malformed MSG_PEN_EVENT ''PEN_EVENT must be 31 bytes'')
      else Inr \<lparr>
        pe_ts_ns = from_be_bytes (slice 0 8 payload),
        pe_phase = payload ! 8,
        pe_x_norm = from_be_bytes (slice 9 13 payload),
        pe_y_norm = from_be_bytes (slice 13 17 payload),
        pe_pressure = from_be_bytes (slice 17 21 payload),
        pe_tilt_x = from_be_bytes (slice 21 25 payload),
        pe_tilt_y = from_be_bytes (slice 25 29 payload),
        pe_buttons = payload ! 29,
        pe_tool = payload ! 30\<rparr>)"

record touch_contact =
  tc_pointer_id :: u8
  tc_x_norm :: f32_bits
  tc_y_norm :: f32_bits
  tc_pressure :: f32_bits

definition touch_contact_SIZE :: nat where "touch_contact_SIZE = 1 + 4 + 4 + 4"

record touch_event =
  te_ts_ns :: i64
  te_contacts :: "touch_contact list"

definition touch_contact_encode :: "touch_contact \<Rightarrow> bytes" where
  "touch_contact_encode c =
     [tc_pointer_id c] @ to_be_bytes 4 (tc_x_norm c) @ to_be_bytes 4 (tc_y_norm c) @
     to_be_bytes 4 (tc_pressure c)"

definition touch_event_encode :: "touch_event \<Rightarrow> bytes" where
  "touch_event_encode m =
     (let n = min (length (te_contacts m)) 255 in
      to_be_bytes 8 (te_ts_ns m) @ [of_nat n] @
      concat (map touch_contact_encode (take n (te_contacts m))))"

definition touch_contact_at :: "bytes \<Rightarrow> nat \<Rightarrow> touch_contact" where
  "touch_contact_at payload i =
     (let off = 9 + i * touch_contact_SIZE in \<lparr>
        tc_pointer_id = payload ! off,
        tc_x_norm = from_be_bytes (slice (off + 1) (off + 5) payload),
        tc_y_norm = from_be_bytes (slice (off + 5) (off + 9) payload),
        tc_pressure = from_be_bytes (slice (off + 9) (off + 13) payload)\<rparr>)"

definition touch_event_decode :: "bytes \<Rightarrow> protocol_error + touch_event" where
  "touch_event_decode payload =
     (if length payload < 9
      then Inl (Malformed MSG_TOUCH_EVENT ''TOUCH_EVENT header truncated'')
      else let ts_ns = from_be_bytes (slice 0 8 payload); count = unat (payload ! 8);
               expected = 9 + count * touch_contact_SIZE in
        if length payload \<noteq> expected
        then Inl (Malformed MSG_TOUCH_EVENT ''TOUCH_EVENT contact count mismatch'')
        else Inr \<lparr>te_ts_ns = ts_ns, te_contacts = map (touch_contact_at payload) [0..<count]\<rparr>)"

record telemetry =
  tm_frames :: u32
  tm_dropped :: u32
  tm_capture_us_avg :: u32
  tm_encode_us_avg :: u32
  tm_encode_us_p99 :: u32
  tm_queue_depth :: u8

definition telemetry_SIZE :: nat where "telemetry_SIZE = 4 * 5 + 1"

definition telemetry_encode :: "telemetry \<Rightarrow> bytes" where
  "telemetry_encode m =
     to_be_bytes 4 (tm_frames m) @ to_be_bytes 4 (tm_dropped m) @
     to_be_bytes 4 (tm_capture_us_avg m) @ to_be_bytes 4 (tm_encode_us_avg m) @
     to_be_bytes 4 (tm_encode_us_p99 m) @ [tm_queue_depth m]"

record time_sync_req =
  tsq_android_t1_ns :: i64

definition time_sync_req_SIZE :: nat where "time_sync_req_SIZE = 8"

definition time_sync_req_decode :: "bytes \<Rightarrow> protocol_error + time_sync_req" where
  "time_sync_req_decode payload =
     (if length payload \<noteq> time_sync_req_SIZE
      then Inl (Malformed MSG_TIME_SYNC_REQ ''TIME_SYNC_REQ must be 8 bytes'')
      else Inr \<lparr>tsq_android_t1_ns = from_be_bytes (slice 0 8 payload)\<rparr>)"

record time_sync_resp =
  tsr_android_t1_ns :: i64
  tsr_pc_t2_ns :: i64
  tsr_pc_t3_ns :: i64

definition time_sync_resp_SIZE :: nat where "time_sync_resp_SIZE = 24"

definition time_sync_resp_encode :: "time_sync_resp \<Rightarrow> bytes" where
  "time_sync_resp_encode m =
     to_be_bytes 8 (tsr_android_t1_ns m) @ to_be_bytes 8 (tsr_pc_t2_ns m) @
     to_be_bytes 8 (tsr_pc_t3_ns m)"


section \<open>Evaluating the byte encodings\<close>

lemma to_be_bytes_2 [wire_simps]: "to_be_bytes 2 w = [ucast (drop_bit 8 w), ucast w]"
  by (simp add: numeral_eq_Suc)

lemma to_be_bytes_4 [wire_simps]:
  "to_be_bytes 4 w =
     [ucast (drop_bit 24 w), ucast (drop_bit 16 w), ucast (drop_bit 8 w), ucast w]"
  by (simp add: eval_nat_numeral)

lemma to_be_bytes_8 [wire_simps]:
  "to_be_bytes 8 w =
     [ucast (drop_bit 56 w), ucast (drop_bit 48 w), ucast (drop_bit 40 w), ucast (drop_bit 32 w),
      ucast (drop_bit 24 w), ucast (drop_bit 16 w), ucast (drop_bit 8 w), ucast w]"
  by (simp add: eval_nat_numeral)

lemma from_to_u16 [wire_simps]: "from_be_bytes [ucast (drop_bit 8 w), ucast w] = (w :: u16)"
  using from_be_to_be_bytes [of 2 w] by (simp add: to_be_bytes_2 del: from_be_bytes.simps)

lemma from_to_u32 [wire_simps]:
  "from_be_bytes [ucast (drop_bit 24 w), ucast (drop_bit 16 w), ucast (drop_bit 8 w), ucast w] =
     (w :: u32)"
  using from_be_to_be_bytes [of 4 w] by (simp add: to_be_bytes_4 del: from_be_bytes.simps)

lemma from_to_u64 [wire_simps]:
  "from_be_bytes
     [ucast (drop_bit 56 w), ucast (drop_bit 48 w), ucast (drop_bit 40 w), ucast (drop_bit 32 w),
      ucast (drop_bit 24 w), ucast (drop_bit 16 w), ucast (drop_bit 8 w), ucast w] = (w :: u64)"
  using from_be_to_be_bytes [of 8 w] by (simp add: to_be_bytes_8 del: from_be_bytes.simps)

lemma to_from_u16: "to_be_bytes 2 (from_be_bytes [a, b] :: u16) = [a, b]"
  by (rule to_be_from_be_bytes) simp_all

lemma to_from_u32:
  "to_be_bytes 4 (from_be_bytes [a, b, c, d] :: u32) = [a, b, c, d]"
  by (rule to_be_from_be_bytes) simp_all

lemma to_from_u64:
  "to_be_bytes 8 (from_be_bytes [a, b, c, d, e, f, g, h] :: u64) = [a, b, c, d, e, f, g, h]"
  by (rule to_be_from_be_bytes) simp_all

lemma list_length_numeral:
  "length xs = numeral n \<longleftrightarrow> (\<exists>y ys. xs = y # ys \<and> length ys = pred_numeral n)"
  by (cases xs) (auto simp: numeral_eq_Suc)

lemmas wire_back = to_from_u16 to_from_u32 to_from_u64 list_length_numeral length_Suc_conv slice_def

lemmas size_defs = hello_pc_SIZE_def hello_android_SIZE_def client_config_SIZE_def
  pen_event_SIZE_def touch_contact_SIZE_def telemetry_SIZE_def time_sync_req_SIZE_def
  time_sync_resp_SIZE_def

lemmas codec_defs = hello_pc_encode_def hello_pc_decode_def
  hello_android_encode_def hello_android_decode_def
  client_config_encode_def client_config_decode_def
  pen_event_encode_def pen_event_decode_def
  time_sync_req_decode_def time_sync_resp_encode_def telemetry_encode_def

text \<open>Every fixed-size message has its advertised size.\<close>

lemma hello_pc_encode_length [size_simps]: "length (hello_pc_encode m) = hello_pc_SIZE"
  by (simp add: hello_pc_encode_def hello_pc_SIZE_def)

lemma hello_android_encode_length [size_simps]:
  "length (hello_android_encode m) = hello_android_SIZE"
  by (simp add: hello_android_encode_def hello_android_SIZE_def)

lemma client_config_encode_length [size_simps]:
  "length (client_config_encode m) = client_config_SIZE"
  by (simp add: client_config_encode_def client_config_SIZE_def)

lemma pen_event_encode_length [size_simps]: "length (pen_event_encode m) = pen_event_SIZE"
  by (simp add: pen_event_encode_def pen_event_SIZE_def)

lemma telemetry_encode_length [size_simps]: "length (telemetry_encode m) = telemetry_SIZE"
  by (simp add: telemetry_encode_def telemetry_SIZE_def)

lemma time_sync_resp_encode_length [size_simps]:
  "length (time_sync_resp_encode m) = time_sync_resp_SIZE"
  by (simp add: time_sync_resp_encode_def time_sync_resp_SIZE_def)

section \<open>Round trips of the fixed-size messages\<close>

lemma hello_pc_decode_encode: "hello_pc_decode (hello_pc_encode m) = Inr m"
  by (simp add: codec_defs size_defs wire_simps del: from_be_bytes.simps)

lemma hello_pc_encode_decode: "hello_pc_decode p = Inr m \<Longrightarrow> hello_pc_encode m = p"
  by (auto simp: codec_defs size_defs wire_back simp del: from_be_bytes.simps to_be_bytes.simps
      split: if_splits)

lemma hello_android_decode_encode: "hello_android_decode (hello_android_encode m) = Inr m"
  by (simp add: codec_defs size_defs wire_simps del: from_be_bytes.simps)

lemma hello_android_encode_decode: "hello_android_decode p = Inr m \<Longrightarrow> hello_android_encode m = p"
  by (auto simp: codec_defs size_defs wire_back simp del: from_be_bytes.simps to_be_bytes.simps
      split: if_splits)

lemma pen_event_decode_encode: "pen_event_decode (pen_event_encode m) = Inr m"
  by (simp add: codec_defs size_defs wire_simps slice_def del: from_be_bytes.simps)

lemma pen_event_encode_decode: "pen_event_decode p = Inr m \<Longrightarrow> pen_event_encode m = p"
  by (auto simp: codec_defs size_defs wire_back simp del: from_be_bytes.simps to_be_bytes.simps
      split: if_splits)

lemma client_config_decode_encode: "client_config_decode (client_config_encode m @ future) = Inr m"
  by (simp add: codec_defs size_defs wire_simps del: from_be_bytes.simps)

section \<open>Round trips of the variable-size messages\<close>

text \<open>What the receiver sees of a video frame: the timing fields are present exactly when the
  extended flag is, and an absent one was sent as 0.\<close>

definition video_frame_norm :: "video_frame \<Rightarrow> video_frame" where
  "video_frame_norm m =
     (if vf_flags m AND FRAME_FLAG_EXTENDED \<noteq> 0
      then m\<lparr>vf_capture_us := Some (unwrap_or (vf_capture_us m) 0),
             vf_encode_us := Some (unwrap_or (vf_encode_us m) 0)\<rparr>
      else m\<lparr>vf_capture_us := None, vf_encode_us := None\<rparr>)"

definition video_frame_wf :: "video_frame \<Rightarrow> bool" where
  "video_frame_wf m \<longleftrightarrow>
     (vf_capture_us m \<noteq> None) = (vf_flags m AND FRAME_FLAG_EXTENDED \<noteq> 0) \<and>
     (vf_encode_us m \<noteq> None) = (vf_flags m AND FRAME_FLAG_EXTENDED \<noteq> 0)"

lemma video_frame_norm_wf: "video_frame_wf m \<Longrightarrow> video_frame_norm m = m"
  by (cases m) (auto simp: video_frame_wf_def video_frame_norm_def unwrap_or_def)

lemma video_frame_decode_encode_norm:
  "video_frame_decode (video_frame_encode m) = Inr (video_frame_norm m)"
  by (cases m) (simp add: video_frame_decode_def video_frame_encode_def video_frame_norm_def
      wire_simps slice_def Let_def del: from_be_bytes.simps)

lemma be_bytes_slice8: "8 \<le> length p \<Longrightarrow> to_be_bytes 8 (from_be_bytes (slice 0 8 p) :: u64) = slice 0 8 p"
  by (rule to_be_from_be_bytes) (auto simp: slice_def)

lemma be_bytes_slice4:
  "a + 4 \<le> length p \<Longrightarrow> b = a + 4 \<Longrightarrow> to_be_bytes 4 (from_be_bytes (slice a b p) :: u32) = slice a b p"
  by (rule to_be_from_be_bytes) (auto simp: slice_def)

lemma slice_append_drop:
  "a \<le> b \<Longrightarrow> b \<le> length p \<Longrightarrow> slice a b p @ drop b p = drop a p"
  by (simp add: slice_def) (metis add.commute append_take_drop_id drop_drop le_add_diff_inverse)

lemma video_frame_encode_decode:
  assumes "video_frame_decode p = Inr m"
  shows "video_frame_wf m" "video_frame_encode m = p"
proof -
  have len: "9 \<le> length p" using assms by (auto simp: video_frame_decode_def split: if_splits)
  have p9: "slice 0 8 p @ (p ! 8) # drop 9 p = p"
    using slice_append_drop [of 0 8 p] drop_eq_nth_Cons [of 8 p] len by simp
  have p17: "slice 9 13 p @ slice 13 17 p @ drop 17 p = drop 9 p" if "17 \<le> length p"
    using that slice_append_drop [of 13 17 p] slice_append_drop [of 9 13 p] by simp
  show "video_frame_wf m"
    using assms by (auto simp: video_frame_decode_def video_frame_wf_def Let_def split: if_splits)
  show "video_frame_encode m = p"
    using assms len p9 p17
    by (auto simp: video_frame_decode_def video_frame_encode_def Let_def unwrap_or_def
        be_bytes_slice8 be_bytes_slice4 split: if_splits)
qed

lemma touch_contact_encode_length [size_simps, simp]: "length (touch_contact_encode c) = 13"
  by (simp add: touch_contact_encode_def)

lemma concat_chunk:
  assumes "\<And>x. length (f x) = k" "i < length xs"
  shows "take k (drop (i * k) (concat (map f xs) @ rest)) = f (xs ! i)"
  using assms(2)
proof (induction xs arbitrary: i)
  case Nil
  then show ?case by simp
next
  case (Cons x xs)
  show ?case
  proof (cases i)
    case 0
    then show ?thesis by (simp add: assms(1))
  next
    case (Suc j)
    with Cons show ?thesis by (simp add: assms(1))
  qed
qed

lemma length_concat_const:
  "(\<And>x. length (f x) = k) \<Longrightarrow> length (concat (map f xs)) = k * length xs"
  by (induction xs) auto

lemma touch_contact_at_encode:
  assumes "take 13 (drop (9 + i * 13) payload) = touch_contact_encode c"
  shows "touch_contact_at payload i = c"
proof -
  let ?off = "9 + i * 13" and ?seg = "touch_contact_encode c"
  have len: "13 \<le> length (drop ?off payload)"
    using assms touch_contact_encode_length [of c] by (metis length_take min.cobounded1)
  have sl: "slice (?off + a) (?off + b) payload = slice a b ?seg" if "a \<le> b" "b \<le> 13" for a b
    using that unfolding assms [symmetric] slice_def
    by (simp add: drop_take ac_simps)
  have hd: "payload ! ?off = ?seg ! 0"
    using len unfolding assms [symmetric] by simp
  show ?thesis
    using sl [of 1 5] sl [of 5 9] sl [of 9 13] hd
    by (cases c) (simp add: touch_contact_at_def touch_contact_SIZE_def touch_contact_encode_def
        wire_simps slice_def del: from_be_bytes.simps)
qed

lemma touch_event_decode_encode_trunc:
  "touch_event_decode (touch_event_encode m) = Inr (m\<lparr>te_contacts := take 255 (te_contacts m)\<rparr>)"
proof -
  let ?cs = "take 255 (te_contacts m)"
  let ?n = "length ?cs"
  have n: "min (length (te_contacts m)) 255 = ?n" "take ?n (te_contacts m) = ?cs" "?n < 256"
    by (auto simp: min_def)
  have enc: "touch_event_encode m =
      to_be_bytes 8 (te_ts_ns m) @ [of_nat ?n] @ concat (map touch_contact_encode ?cs)" (is "_ = ?p")
    unfolding touch_event_encode_def Let_def n(1) n(2) ..
  have un: "unat (of_nat ?n :: u8) = ?n"
    using n(3) by (simp add: unat_of_nat)
  have at: "touch_contact_at ?p i = ?cs ! i" if "i < ?n" for i
  proof (rule touch_contact_at_encode)
    have "drop (9 + i * 13) ?p = drop (i * 13) (concat (map touch_contact_encode ?cs))"
      using drop_length_add [of "to_be_bytes 8 (te_ts_ns m) @ [of_nat ?n]" 9] by simp
    then show "take 13 (drop (9 + i * 13) ?p) = touch_contact_encode (?cs ! i)"
      using concat_chunk [of touch_contact_encode 13 i ?cs "[]"] that by simp
  qed
  have "map (touch_contact_at ?p) [0..<?n] = ?cs"
    by (rule nth_equalityI) (use at in auto)
  moreover have "?p ! 8 = of_nat ?n" "slice 0 8 ?p = to_be_bytes 8 (te_ts_ns m)"
    by (simp_all add: nth_append slice_def)
  moreover have "length ?p = 9 + ?n * 13"
    by (simp add: length_concat_const)
  ultimately show ?thesis
    using un unfolding enc touch_event_decode_def Let_def
    by (cases m) (simp add: touch_contact_SIZE_def del: length_take)
qed

section \<open>Framing laws\<close>

lemma encode_frame_length [size_simps]: "length (encode_frame i p) = 5 + length p"
  by (simp add: encode_frame_def)

lemma unat_len_u32: "length p \<le> MAX_PAYLOAD_LEN \<Longrightarrow> unat (of_nat (length p) :: u32) = length p"
  by (simp add: unat_of_nat MAX_PAYLOAD_LEN_def)

lemma read_frame_encode_frame:
  assumes "length p \<le> MAX_PAYLOAD_LEN"
  shows "read_frame \<lparr>pending = encode_frame i p @ rest, at_end = e\<rparr> =
    Inr ((i, p), \<lparr>pending = rest, at_end = e\<rparr>)"
  using assms unat_len_u32 [OF assms]
  by (simp add: read_frame_def encode_frame_def read_exact_def Let_def)

lemma read_frame_Inr_iff:
  "read_frame s = Inr ((i, p), s') \<longleftrightarrow>
     pending s = encode_frame i p @ pending s' \<and> at_end s' = at_end s \<and> length p \<le> MAX_PAYLOAD_LEN"
proof
  assume "read_frame s = Inr ((i, p), s')"
  then obtain a r1 l r2 where
    1: "read_exact 1 s = Inr (a, r1)" and 2: "read_exact 4 r1 = Inr (l, r2)"
    and 3: "read_exact (unat (from_be_bytes l :: u32)) r2 = Inr (p, s')"
    and "i = a ! 0" and max: "unat (from_be_bytes l :: u32) \<le> MAX_PAYLOAD_LEN"
    by (auto simp: read_frame_def io_try_Inr_iff result_bind_Inr_iff Let_def split: if_splits)
  from 1 \<open>i = a ! 0\<close> have "a = [i]" "pending s = i # pending r1" "at_end r1 = at_end s"
    by (auto simp: read_exact_Inr_iff length_Suc_conv)
  moreover from 3 have lp: "length p = unat (from_be_bytes l :: u32)"
    and "pending r2 = p @ pending s'" "at_end s' = at_end r2"
    by (auto simp: read_exact_Inr_iff)
  moreover from 2 have "length l = 4" "pending r1 = l @ pending r2" "at_end r2 = at_end r1"
    by (auto simp: read_exact_Inr_iff)
  moreover have "to_be_bytes 4 (of_nat (length p) :: u32) = l"
    using \<open>length l = 4\<close> by (simp add: lp to_be_from_be_bytes)
  ultimately show "pending s = encode_frame i p @ pending s' \<and> at_end s' = at_end s \<and>
      length p \<le> MAX_PAYLOAD_LEN"
    using max by (simp add: encode_frame_def)
next
  assume "pending s = encode_frame i p @ pending s' \<and> at_end s' = at_end s \<and>
    length p \<le> MAX_PAYLOAD_LEN"
  then show "read_frame s = Inr ((i, p), s')"
    using read_frame_encode_frame [of p i "pending s'" "at_end s"] by (cases s; cases s') simp
qed

text \<open>The failures of \<open>read_frame\<close>: an oversized length field, or bytes that end before the
  frame does. A proper prefix of a frame never yields a message.\<close>

lemma read_frame_oversized:
  assumes "MAX_PAYLOAD_LEN < length p" "length p < 2 ^ 32"
  shows "read_frame \<lparr>pending = encode_frame i p @ rest, at_end = e\<rparr> =
    Inl (PayloadTooLarge (of_nat (length p)))"
  using assms
  by (simp add: read_frame_def encode_frame_def read_exact_def Let_def unat_of_nat)

lemma read_frame_truncated:
  assumes "length p \<le> MAX_PAYLOAD_LEN" "pending s = take k (encode_frame i p)" "k < 5 + length p"
  shows "read_frame s = Inl (Io (at_end s))"
proof -
  consider "k = 0" | "0 < k" "k < 5" | "5 \<le> k" by linarith
  then show ?thesis
  proof cases
    case 1
    with assms(2) show ?thesis by (simp add: read_frame_def read_exact_def)
  next
    case 2
    then obtain j where "k = Suc j" "j < 4" by (cases k) auto
    with assms(2) show ?thesis
      by (simp add: read_frame_def read_exact_def encode_frame_def)
  next
    case 3
    then obtain j where k: "k = 5 + j" by (metis le_Suc_ex)
    then have "pending s = [i] @ to_be_bytes 4 (of_nat (length p) :: u32) @ take j p" "j < length p"
      using assms(2,3) take_length_add [of "[i] @ to_be_bytes 4 (of_nat (length p) :: u32)" 5 j p]
      by (simp_all add: encode_frame_def)
    with unat_len_u32 [OF assms(1)] assms(1) show ?thesis
      by (simp add: read_frame_def read_exact_def Let_def)
  qed
qed

text \<open>A sequence of frames is read back frame by frame.\<close>

fun read_frames :: "nat \<Rightarrow> in_stream \<Rightarrow> protocol_error + ((u8 \<times> bytes) list \<times> in_stream)" where
  "read_frames 0 s = Inr ([], s)"
| "read_frames (Suc n) s =
     result_bind (read_frame s) (\<lambda>(f, s).
     result_bind (read_frames n s) (\<lambda>(fs, s). Inr (f # fs, s)))"

definition encode_frames :: "(u8 \<times> bytes) list \<Rightarrow> bytes" where
  "encode_frames fs = concat (map (\<lambda>(i, p). encode_frame i p) fs)"

lemma read_frames_encode_frames:
  "(\<forall>(i, p) \<in> set fs. length p \<le> MAX_PAYLOAD_LEN) \<Longrightarrow>
   read_frames (length fs) \<lparr>pending = encode_frames fs @ rest, at_end = e\<rparr> =
     Inr (fs, \<lparr>pending = rest, at_end = e\<rparr>)"
  by (induction fs) (auto simp: encode_frames_def read_frame_encode_frame)

section \<open>The interface of a typed message\<close>

text \<open>
  \<open>wire_message\<close>: what the session relies on when it sends a typed message in a frame.
  \<open>strict_message\<close> adds that the decoder accepts nothing but encodings, \<open>fixed_message\<close>
  that all encodings have one size.
\<close>

locale wire_message =
  fixes encode :: "'m \<Rightarrow> bytes"
    and decode :: "bytes \<Rightarrow> protocol_error + 'm"
    and wf :: "'m \<Rightarrow> bool"
    and msg_id :: u8
  assumes decode_encode: "wf m \<Longrightarrow> decode (encode m) = Inr m"
begin

lemma encode_inject: "wf m \<Longrightarrow> wf m' \<Longrightarrow> encode m = encode m' \<longleftrightarrow> m = m'"
  by (metis decode_encode sum.inject(2))

lemma delivered:
  assumes "wf m" "length (encode m) \<le> MAX_PAYLOAD_LEN" "broken w = None"
  shows "\<exists>w' f. write_frame w msg_id (encode m) = Inr w' \<and> written w' = written w @ f \<and>
    (\<forall>rest e. \<exists>p. read_frame \<lparr>pending = f @ rest, at_end = e\<rparr> =
       Inr ((msg_id, p), \<lparr>pending = rest, at_end = e\<rparr>) \<and> decode p = Inr m)"
proof (intro exI conjI allI)
  show "write_frame w msg_id (encode m) =
      Inr (w\<lparr>written := written w @ encode_frame msg_id (encode m)\<rparr>)"
    using assms(3) by (simp add: write_frame_def write_all_def)
  show "read_frame \<lparr>pending = encode_frame msg_id (encode m) @ rest, at_end = e\<rparr> =
      Inr ((msg_id, encode m), \<lparr>pending = rest, at_end = e\<rparr>)" for rest e
    by (rule read_frame_encode_frame [OF assms(2)])
qed (simp_all add: decode_encode assms)

end

locale strict_message = wire_message +
  assumes encode_decode: "decode p = Inr m \<Longrightarrow> wf m \<and> encode m = p"
begin

lemma decode_iff: "decode p = Inr m \<longleftrightarrow> wf m \<and> p = encode m"
  using decode_encode encode_decode by blast

lemma decode_rejects: "p \<notin> encode ` {m. wf m} \<Longrightarrow> \<exists>err. decode p = Inl err"
  using encode_decode by (cases "decode p") blast+

end

locale fixed_message = strict_message +
  fixes sz :: nat
  assumes encode_size: "wf m \<Longrightarrow> length (encode m) = sz"
    and sz_fits: "sz \<le> MAX_PAYLOAD_LEN"
begin

lemma wrong_size_rejected: "length p \<noteq> sz \<Longrightarrow> \<exists>err. decode p = Inl err"
  by (rule decode_rejects) (auto simp: encode_size)

lemma always_delivered:
  "wf m \<Longrightarrow> broken w = None \<Longrightarrow>
   \<exists>w' f. write_frame w msg_id (encode m) = Inr w' \<and> written w' = written w @ f \<and>
    (\<forall>rest e. \<exists>p. read_frame \<lparr>pending = f @ rest, at_end = e\<rparr> =
       Inr ((msg_id, p), \<lparr>pending = rest, at_end = e\<rparr>) \<and> decode p = Inr m)"
  using sz_fits by (intro delivered) (simp_all add: encode_size)

end

lemmas max_size_defs = MAX_PAYLOAD_LEN_def size_defs

interpretation hello_pc_msg: fixed_message hello_pc_encode hello_pc_decode "\<lambda>_. True"
    MSG_HELLO_PC hello_pc_SIZE
  by unfold_locales
    (auto simp: hello_pc_decode_encode hello_pc_encode_decode size_simps max_size_defs)

interpretation hello_android_msg: fixed_message hello_android_encode hello_android_decode
    "\<lambda>_. True" MSG_HELLO_ANDROID hello_android_SIZE
  by unfold_locales
    (auto simp: hello_android_decode_encode hello_android_encode_decode size_simps max_size_defs)

interpretation pen_event_msg: fixed_message pen_event_encode pen_event_decode "\<lambda>_. True"
    MSG_PEN_EVENT pen_event_SIZE
  by unfold_locales
    (auto simp: pen_event_decode_encode pen_event_encode_decode size_simps max_size_defs)

interpretation client_config_msg: wire_message client_config_encode client_config_decode
    "\<lambda>_. True" MSG_CLIENT_CONFIG
  by unfold_locales (use client_config_decode_encode [of _ "[]"] in simp)

interpretation video_frame_msg: strict_message video_frame_encode video_frame_decode
    video_frame_wf MSG_VIDEO_FRAME
  by unfold_locales
    (auto simp: video_frame_decode_encode_norm video_frame_norm_wf video_frame_encode_decode)

interpretation touch_event_msg: wire_message touch_event_encode touch_event_decode
    "\<lambda>m. length (te_contacts m) \<le> 255" MSG_TOUCH_EVENT
  by unfold_locales (simp add: touch_event_decode_encode_trunc)

end
