(* ===== verification/Nal.thy ===== *)
theory Nal
  imports Protocol
begin

text \<open>
  The Annex-B start-code walker of \<^verbatim>\<open>crates/penflow-protocol/src/lib.rs\<close>
  (\<open>split_nals\<close> and the extraction of parameter sets built on it), and the Annex-B
  byte streams it is correct for: \<open>annex_b\<close> serialises a list of NAL units, and a NAL
  unit is \<open>clean\<close> when its bytes contain no start code and do not end in a zero byte.
\<close>

section \<open>The walker\<close>

definition starts_with :: "'a list \<Rightarrow> 'a list \<Rightarrow> bool" where
  "starts_with xs p \<longleftrightarrow> take (length p) xs = p"

text \<open>The first loop of \<open>split_nals\<close>: the offsets of start codes and of the bytes after them.\<close>

function nal_starts :: "bytes \<Rightarrow> nat \<Rightarrow> (nat \<times> nat) list" where
  "nal_starts bytes i =
     (if i + 3 \<le> length bytes then
        if starts_with (drop i bytes) [0, 0, 0, 1] then (i, i + 4) # nal_starts bytes (i + 4)
        else if starts_with (drop i bytes) [0, 0, 1] then (i, i + 3) # nal_starts bytes (i + 3)
        else nal_starts bytes (i + 1)
      else [])"
  by pat_completeness auto
termination
  by (relation "measure (\<lambda>(bytes, i). length bytes - i)") auto

declare nal_starts.simps [simp del]

definition split_nals :: "bytes \<Rightarrow> (u8 \<Rightarrow> u8) \<Rightarrow> (nat \<times> nat \<times> u8) list" where
  "split_nals bytes nal_type_from_header_byte =
     (let starts = nal_starts bytes 0 in
      concat (map (\<lambda>k.
        let (start_off, payload_off) = starts ! k;
            end_off = (if k + 1 < length starts then fst (starts ! (k + 1)) else length bytes) in
        if payload_off \<ge> length bytes then []
        else [(start_off, end_off, nal_type_from_header_byte (bytes ! payload_off))])
      [0..<length starts]))"

definition hevc_nal_type :: "u8 \<Rightarrow> u8" where
  "hevc_nal_type b = drop_bit 1 b AND 0x3F"

definition h264_nal_type :: "u8 \<Rightarrow> u8" where
  "h264_nal_type b = b AND 0x1F"

definition split_hevc_nals :: "bytes \<Rightarrow> (nat \<times> nat \<times> u8) list" where
  "split_hevc_nals bytes = split_nals bytes hevc_nal_type"

definition split_h264_nals :: "bytes \<Rightarrow> (nat \<times> nat \<times> u8) list" where
  "split_h264_nals bytes = split_nals bytes h264_nal_type"

definition keep_nals :: "bytes \<Rightarrow> u8 list \<Rightarrow> (nat \<times> nat \<times> u8) list \<Rightarrow> bytes" where
  "keep_nals annex_b keep_types nals =
     concat (map (\<lambda>(start_off, end_off, nal_type).
       if nal_type \<in> set keep_types then slice start_off end_off annex_b else []) nals)"

definition extract_hevc_nals :: "bytes \<Rightarrow> u8 list \<Rightarrow> bytes" where
  "extract_hevc_nals annex_b keep_types = keep_nals annex_b keep_types (split_hevc_nals annex_b)"

definition extract_h264_nals :: "bytes \<Rightarrow> u8 list \<Rightarrow> bytes" where
  "extract_h264_nals annex_b keep_types = keep_nals annex_b keep_types (split_h264_nals annex_b)"

section \<open>Annex-B streams\<close>

text \<open>A NAL unit on the wire: whether its start code is the four-byte one, and its bytes.\<close>

type_synonym nal = "bool \<times> bytes"

definition start_code :: "bool \<Rightarrow> bytes" where
  "start_code four = (if four then [0, 0, 0, 1] else [0, 0, 1])"

definition nal_bytes :: "nal \<Rightarrow> bytes" where
  "nal_bytes n = start_code (fst n) @ snd n"

definition annex_b :: "nal list \<Rightarrow> bytes" where
  "annex_b ns = concat (map nal_bytes ns)"

definition sc_at :: "bytes \<Rightarrow> nat \<Rightarrow> bool" where
  "sc_at bs i \<longleftrightarrow> starts_with (drop i bs) [0, 0, 0, 1] \<or> starts_with (drop i bs) [0, 0, 1]"

definition no_start_code :: "bytes \<Rightarrow> bool" where
  "no_start_code bs \<longleftrightarrow> (\<forall>i \<in> {0..<length bs}. \<not> starts_with (drop i bs) [0, 0, 1])"

definition clean :: "bytes \<Rightarrow> bool" where
  "clean bs \<longleftrightarrow> bs \<noteq> [] \<and> last bs \<noteq> 0 \<and> no_start_code bs"

lemma annex_b_simps [simp]: "annex_b [] = []" "annex_b (n # ns) = nal_bytes n @ annex_b ns"
  by (simp_all add: annex_b_def)

lemma length_start_code: "length (start_code four) = (if four then 4 else 3)"
  by (simp add: start_code_def)

lemma starts_with_append: "starts_with (p @ xs) p"
  by (simp add: starts_with_def)

lemma starts_with_length: "starts_with xs p \<Longrightarrow> length p \<le> length xs"
  unfolding starts_with_def by (metis length_take min.cobounded1)

lemma starts_with_nth:
  assumes "p \<noteq> []"
  shows "starts_with (drop i xs) p \<longleftrightarrow>
     i + length p \<le> length xs \<and> (\<forall>j < length p. xs ! (i + j) = p ! j)"
proof
  assume sw: "starts_with (drop i xs) p"
  have len: "length p \<le> length xs - i" using starts_with_length [OF sw] by simp
  then have i: "i + length p \<le> length xs" using assms by (cases p) auto
  have "xs ! (i + j) = p ! j" if "j < length p" for j
    using arg_cong [OF sw [unfolded starts_with_def], of "\<lambda>l. l ! j"] that i by simp
  with i show "i + length p \<le> length xs \<and> (\<forall>j < length p. xs ! (i + j) = p ! j)" by blast
next
  assume "i + length p \<le> length xs \<and> (\<forall>j < length p. xs ! (i + j) = p ! j)"
  then show "starts_with (drop i xs) p"
    unfolding starts_with_def by (intro nth_equalityI) auto
qed

lemma sc3_iff: "starts_with (drop i xs) [0, 0, 1 :: u8] \<longleftrightarrow>
    i + 3 \<le> length xs \<and> xs ! i = 0 \<and> xs ! (i + 1) = 0 \<and> xs ! (i + 2) = 1"
  by (subst starts_with_nth) (auto simp: less_Suc_eq numeral_eq_Suc)

lemma sc4_iff: "starts_with (drop i xs) [0, 0, 0, 1 :: u8] \<longleftrightarrow>
    i + 4 \<le> length xs \<and> xs ! i = 0 \<and> xs ! (i + 1) = 0 \<and> xs ! (i + 2) = 0 \<and> xs ! (i + 3) = 1"
  by (subst starts_with_nth) (auto simp: less_Suc_eq numeral_eq_Suc)

lemma sc_at_iff: "sc_at xs i \<longleftrightarrow> i + 3 \<le> length xs \<and> xs ! i = 0 \<and> xs ! (i + 1) = 0 \<and>
    (xs ! (i + 2) = 1 \<or> i + 4 \<le> length xs \<and> xs ! (i + 2) = 0 \<and> xs ! (i + 3) = 1)"
  unfolding sc_at_def sc3_iff sc4_iff by auto

text \<open>No start code begins inside a clean unit, whatever follows it.\<close>

lemma clean_no_sc_inside:
  assumes "clean bs" "i < length bs"
  shows "\<not> sc_at (bs @ rest) i"
proof
  assume sc: "sc_at (bs @ rest) i"
  let ?n = "length bs"
  have last: "bs ! (?n - 1) \<noteq> 0" using assms by (auto simp: clean_def last_conv_nth)
  have no3: "\<not> (k + 3 \<le> ?n \<and> bs ! k = 0 \<and> bs ! (k + 1) = 0 \<and> bs ! (k + 2) = 1)" for k
    using assms(1) by (fastforce simp: clean_def no_start_code_def sc3_iff)
  have ap: "k < ?n \<Longrightarrow> (bs @ rest) ! k = bs ! k" for k by (simp add: nth_append)
  consider "i = ?n - 1" | "i + 1 = ?n - 1" | "i + 2 = ?n - 1" | "i + 3 < ?n"
    using assms(2) by linarith
  then show False
  proof cases
    case 1
    then show False using sc [unfolded sc_at_iff] ap [of i] last assms(2) by auto
  next
    case 2
    then show False using sc [unfolded sc_at_iff] ap [of "i + 1"] last by auto
  next
    case 3
    then show False
      using sc [unfolded sc_at_iff] ap [of i] ap [of "i + 1"] ap [of "i + 2"] last no3 [of i] by auto
  next
    case 4
    then have "i + 1 + 1 = i + 2" "i + 1 + 2 = i + 3" "i + 1 + 3 \<le> ?n" "i + 3 \<le> ?n" by simp_all
    then show False
      using sc [unfolded sc_at_iff] ap [of i] ap [of "i + 1"] ap [of "i + 2"] ap [of "i + 3"]
        no3 [of i] no3 [of "i + 1"] 4 by (auto simp: numeral_eq_Suc)
  qed
qed

lemma sc_at_drop: "sc_at (pre @ bs) (length pre + i) = sc_at bs i"
  by (simp add: sc_at_def)

section \<open>The walker on Annex-B streams\<close>

lemma nal_starts_skip:
  assumes "\<And>k. k < n \<Longrightarrow> \<not> sc_at bs (i + k)" "i + n \<le> length bs"
  shows "nal_starts bs i = nal_starts bs (i + n)"
  using assms
proof (induction n arbitrary: i)
  case 0
  then show ?case by simp
next
  case (Suc n)
  have "nal_starts bs i = nal_starts bs (i + 1)"
  proof (cases "i + 3 \<le> length bs")
    case True
    then show ?thesis using Suc.prems(1) [of 0] by (subst nal_starts.simps) (simp add: sc_at_def)
  next
    case False
    then show ?thesis
      unfolding nal_starts.simps [of bs i] nal_starts.simps [of bs "i + 1"] by simp
  qed
  also have "\<dots> = nal_starts bs (i + 1 + n)"
    using Suc.prems(1) [of "Suc k" for k] Suc.prems(2) by (intro Suc.IH) auto
  finally show ?case by simp
qed

lemma nal_starts_hit:
  assumes "drop i bs = start_code four @ rest"
  shows "nal_starts bs i = (i, i + length (start_code four)) # nal_starts bs (i + length (start_code four))"
proof -
  have "length (start_code four) \<le> length bs - i"
    using assms by (metis le_add1 length_append length_drop)
  then show ?thesis
    using assms
    by (subst nal_starts.simps, cases four) (auto simp: start_code_def starts_with_def numeral_eq_Suc)
qed

text \<open>Where the units of a stream lie: start, payload and end offset of each.\<close>

fun nal_layout :: "nat \<Rightarrow> nal list \<Rightarrow> (nat \<times> nat) list" where
  "nal_layout off [] = []"
| "nal_layout off (n # ns) =
     (off, off + length (start_code (fst n))) # nal_layout (off + length (nal_bytes n)) ns"

lemma nal_starts_annex_b:
  "\<forall>n \<in> set ns. clean (snd n) \<Longrightarrow>
   nal_starts (pre @ annex_b ns) (length pre) = nal_layout (length pre) ns"
proof (induction ns arbitrary: pre)
  case Nil
  then show ?case by (subst nal_starts.simps) simp
next
  case (Cons n ns)
  let ?sc = "start_code (fst n)" and ?bs = "pre @ annex_b (n # ns)"
  let ?p = "length pre + length ?sc"
  have "nal_starts ?bs (length pre) = (length pre, ?p) # nal_starts ?bs ?p"
    by (rule nal_starts_hit [where rest = "snd n @ annex_b ns"]) (simp add: nal_bytes_def)
  also have "nal_starts ?bs ?p = nal_starts ?bs (?p + length (snd n))"
  proof (rule nal_starts_skip)
    fix k assume "k < length (snd n)"
    then have "\<not> sc_at (snd n @ annex_b ns) k"
      using Cons.prems by (intro clean_no_sc_inside) auto
    then show "\<not> sc_at ?bs (?p + k)"
      using sc_at_drop [of "pre @ ?sc" "snd n @ annex_b ns" k] by (simp add: nal_bytes_def)
  qed (simp add: nal_bytes_def)
  also have "\<dots> = nal_layout (?p + length (snd n)) ns"
    using Cons.IH [of "pre @ nal_bytes n"] Cons.prems by (simp add: nal_bytes_def add.assoc)
  finally show ?case by (simp add: nal_bytes_def add.assoc)
qed

text \<open>The second loop read as a recursion over the offsets.\<close>

fun nal_spans :: "nat \<Rightarrow> (nat \<times> nat) list \<Rightarrow> (nat \<times> nat \<times> nat) list" where
  "nal_spans n [] = []"
| "nal_spans n [(s, p)] = [(s, p, n)]"
| "nal_spans n ((s, p) # (s', p') # xs) = (s, p, s') # nal_spans n ((s', p') # xs)"

lemma nal_spans_nth:
  "map (\<lambda>k. (fst (xs ! k), snd (xs ! k), if k + 1 < length xs then fst (xs ! (k + 1)) else n))
     [0..<length xs] = nal_spans n xs"
proof (induction n xs rule: nal_spans.induct)
  case (3 n s p s' p' xs)
  have "[0..<length ((s, p) # (s', p') # xs)] = 0 # map Suc [0..<length ((s', p') # xs)]"
    by (simp add: map_Suc_upt upt_conv_Cons del: upt_Suc)
  then show ?case using 3 by (simp add: comp_def del: upt_Suc cong: if_cong)
qed simp_all

lemma split_nals_spans:
  "split_nals bytes f =
     concat (map (\<lambda>(s, p, e). if p \<ge> length bytes then [] else [(s, e, f (bytes ! p))])
       (nal_spans (length bytes) (nal_starts bytes 0)))"
  unfolding split_nals_def Let_def nal_spans_nth [symmetric]
  by (simp add: comp_def case_prod_beta cong: if_cong)

lemma nal_spans_layout:
  "nal_spans (off + length (annex_b ns)) (nal_layout off ns) =
   (case ns of [] \<Rightarrow> [] | n # ns' \<Rightarrow>
      (off, off + length (start_code (fst n)), off + length (nal_bytes n)) #
      nal_spans (off + length (nal_bytes n) + length (annex_b ns')) (nal_layout (off + length (nal_bytes n)) ns'))"
  by (cases ns rule: list.exhaust [case_product list.exhaust [of "tl ns"]]; cases "tl ns")
     (auto simp: add.assoc)

text \<open>Extraction keeps exactly the units whose type is asked for, in order, byte for byte.\<close>

lemma keep_nals_spans:
  assumes "\<forall>n \<in> set ns. clean (snd n)"
  shows "keep_nals (pre @ annex_b ns) keep
      (concat (map (\<lambda>(s, p, e). if p \<ge> length (pre @ annex_b ns) then []
          else [(s, e, f ((pre @ annex_b ns) ! p))])
        (nal_spans (length (pre @ annex_b ns)) (nal_layout (length pre) ns)))) =
    annex_b (filter (\<lambda>n. f (hd (snd n)) \<in> set keep) ns)"
  using assms
proof (induction ns arbitrary: pre)
  case Nil
  then show ?case by (simp add: keep_nals_def)
next
  case (Cons n ns)
  let ?bs = "pre @ annex_b (n # ns)"
  have ne: "snd n \<noteq> []" using Cons.prems by (auto simp: clean_def)
  have at: "?bs ! (length pre + length (start_code (fst n))) = hd (snd n)"
    using ne by (simp add: nal_bytes_def nth_append hd_conv_nth)
  have sl: "slice (length pre) (length pre + length (nal_bytes n)) ?bs = nal_bytes n"
    by (simp add: slice_def)
  have sp: "nal_spans (length ?bs) (nal_layout (length pre) (n # ns)) =
      (length pre, length pre + length (start_code (fst n)), length pre + length (nal_bytes n)) #
      nal_spans (length ?bs) (nal_layout (length (pre @ nal_bytes n)) ns)"
    using nal_spans_layout [of "length pre" "n # ns"] by (simp add: add.assoc)
  have lt: "length pre + length (start_code (fst n)) < length ?bs"
    using ne by (simp add: nal_bytes_def)
  show ?case
    using Cons.IH [of "pre @ nal_bytes n"] Cons.prems at sl sp lt
    by (simp add: keep_nals_def cong: if_cong)
qed

lemma extract_annex_b:
  assumes "\<forall>n \<in> set ns. clean (snd n)"
  shows "keep_nals (annex_b ns) keep (split_nals (annex_b ns) f) =
    annex_b (filter (\<lambda>n. f (hd (snd n)) \<in> set keep) ns)"
  using keep_nals_spans [OF assms, of "[]" keep f] nal_starts_annex_b [OF assms, of "[]"]
  by (simp add: split_nals_spans cong: if_cong)

section \<open>Size\<close>

text \<open>The units of a stream do not overlap, so an extract is never longer than the stream it was taken
  from, whatever the bytes.\<close>

lemma nal_starts_offsets:
  "(\<forall>a \<in> set (map fst (nal_starts bs i)). i \<le> a \<and> a \<le> length bs) \<and> sorted (map fst (nal_starts bs i))"
proof (induction bs i rule: nal_starts.induct)
  case (1 bs i)
  define d4 where "d4 = starts_with (drop i bs) [0, 0, 0, 1]"
  define d3 where "d3 = starts_with (drop i bs) [0, 0, 1]"
  note e = nal_starts.simps [of bs i, folded d4_def d3_def] and IH = 1 [folded d4_def d3_def]
  show ?case
  proof (cases "i + 3 \<le> length bs")
    case True
    consider "d4" | "\<not> d4" "d3" | "\<not> d4" "\<not> d3" by blast
    then show ?thesis
    proof cases
      case 1
      with IH(1) True show ?thesis unfolding e by fastforce
    next
      case 2
      with IH(2) True show ?thesis unfolding e by fastforce
    next
      case 3
      with IH(3) True show ?thesis unfolding e by fastforce
    qed
  qed (simp add: e)
qed

lemma span_lengths:
  fixes xs :: "nat list"
  assumes "sorted xs" "\<forall>x \<in> set xs. x \<le> n"
  shows "(\<Sum>k\<leftarrow>[0..<length xs]. (if Suc k < length xs then xs ! Suc k else n) - xs ! k) \<le> n - (if xs = [] then n else hd xs)"
  using assms
proof (induction xs)
  case (Cons x xs)
  let ?f = "\<lambda>xs k. (if Suc k < length xs then xs ! Suc k else n) - xs ! k"
  have "(\<Sum>k\<leftarrow>[0..<length (x # xs)]. ?f (x # xs) k) = ?f (x # xs) 0 + (\<Sum>k\<leftarrow>[0..<length xs]. ?f xs k)"
    by (simp add: map_upt_Suc del: upt_Suc cong: if_cong)
  also have "\<dots> \<le> n - x"
    using Cons by (cases xs) auto
  finally show ?case by simp
qed simp

lemma length_concat_concat: "length (concat (map g (concat (map h ks)))) = (\<Sum>k\<leftarrow>ks. length (concat (map g (h k))))"
  by (induction ks) simp_all

lemma keep_nals_length: "length (keep_nals bs ks (split_nals bs f)) \<le> length bs"
proof -
  let ?st = "nal_starts bs 0"
  let ?g = "\<lambda>k. (if Suc k < length (map fst ?st) then map fst ?st ! Suc k else length bs) - map fst ?st ! k"
  have "length (keep_nals bs ks (split_nals bs f)) \<le> (\<Sum>k\<leftarrow>[0..<length ?st]. ?g k)"
    unfolding keep_nals_def split_nals_def Let_def length_concat_concat
    by (rule sum_list_mono) (auto simp: slice_def split_def)
  also have "\<dots> \<le> length bs"
    using span_lengths [of "map fst ?st" "length bs"] nal_starts_offsets [of bs 0] by fastforce
  finally show ?thesis .
qed

end
