(* ===== verification/Rbsp.thy ===== *)
theory Rbsp
  imports Nal
begin

text \<open>
  Emulation prevention (\<open>rbsp_unescape\<close>, \<open>rbsp_escape\<close> of
  \<^verbatim>\<open>crates/penflow-core/src/encoder/sps_patcher.rs\<close>). Both loops walk an index over
  the input and look at most two bytes ahead, so each is a recursion on the bytes from
  that index on: \<open>i + 2 < len\<close> says that at least three bytes are left.
\<close>

fun rbsp_unescape :: "bytes \<Rightarrow> bytes" where
  "rbsp_unescape [] = []"
| "rbsp_unescape [a] = [a]"
| "rbsp_unescape [a, b] = [a, b]"
| "rbsp_unescape (a # b # c # rest) =
     (if a = 0x00 \<and> b = 0x00 \<and> c = 0x03 then 0x00 # 0x00 # rbsp_unescape rest
      else a # rbsp_unescape (b # c # rest))"

fun rbsp_escape :: "bytes \<Rightarrow> bytes" where
  "rbsp_escape [] = []"
| "rbsp_escape [a] = [a]"
| "rbsp_escape [a, b] = [a, b]"
| "rbsp_escape (a # b # c # rest) =
     (if a = 0x00 \<and> b = 0x00 \<and> c \<le> 0x03 then 0x00 # 0x00 # 0x03 # rbsp_escape (c # rest)
      else a # rbsp_escape (b # c # rest))"

section \<open>Escaping is undone by unescaping\<close>

lemma rbsp_escape_Cons2: "\<exists>t. rbsp_escape (a # b # xs) = a # b # t"
proof (cases xs)
  case Nil
  then show ?thesis by simp
next
  case (Cons c rest)
  have "\<exists>t. rbsp_escape (b # c # rest) = b # t"
    by (cases rest) auto
  with Cons show ?thesis by auto
qed

lemma rbsp_escape_eq_Nil [simp]: "rbsp_escape xs = [] \<longleftrightarrow> xs = []"
  by (cases xs rule: rbsp_escape.cases) auto

lemma rbsp_unescape_escape: "rbsp_unescape (rbsp_escape xs) = xs"
proof (induction xs rule: rbsp_escape.induct)
  case (4 a b c rest)
  show ?case
  proof (cases "a = 0 \<and> b = 0 \<and> c \<le> 3")
    case True
    with 4 show ?thesis by simp
  next
    case False
    obtain t where t: "rbsp_escape (b # c # rest) = b # c # t"
      using rbsp_escape_Cons2 by blast
    have "\<not> (a = 0 \<and> b = 0 \<and> c = 3)" using False by auto
    then have "rbsp_unescape (a # b # c # t) = a # rbsp_unescape (b # c # t)" by auto
    with 4(2) False t show ?thesis by (auto simp del: rbsp_unescape.simps)
  qed
qed simp_all

section \<open>Escaped bytes contain no start code\<close>

text \<open>\<open>emulation_free\<close>: nowhere two zero bytes followed by a byte below three, the pattern a
  decoder could take for a start code (ITU-T H.264 7.4.1.1, H.265 7.4.2.1).\<close>

fun emulation_free :: "bytes \<Rightarrow> bool" where
  "emulation_free (a # b # c # rest) \<longleftrightarrow>
     \<not> (a = 0 \<and> b = 0 \<and> c \<le> 2) \<and> emulation_free (b # c # rest)"
| "emulation_free _ \<longleftrightarrow> True"

lemma emulation_free_003: "emulation_free (0 # 0 # 3 # xs) = emulation_free xs"
  by (cases xs rule: emulation_free.cases) auto

lemma emulation_free_escape: "emulation_free (rbsp_escape xs)"
proof (induction xs rule: rbsp_escape.induct)
  case (4 a b c rest)
  show ?case
  proof (cases "a = 0 \<and> b = 0 \<and> c \<le> 3")
    case True
    with 4(1) show ?thesis by (simp add: emulation_free_003 del: emulation_free.simps)
  next
    case False
    obtain t where t: "rbsp_escape (b # c # rest) = b # c # t"
      using rbsp_escape_Cons2 by blast
    have "c \<le> 2 \<Longrightarrow> c \<le> 3" by (erule order_trans) simp
    with 4(2) False t show ?thesis by auto
  qed
qed simp_all

lemma emulation_free_nth:
  "emulation_free xs \<Longrightarrow> i + 2 < length xs \<Longrightarrow> \<not> (xs ! i = 0 \<and> xs ! (i + 1) = 0 \<and> xs ! (i + 2) \<le> 2)"
proof (induction xs arbitrary: i rule: emulation_free.induct)
  case (1 a b c rest)
  then show ?case by (cases i) auto
qed auto

lemma emulation_free_no_start_code: "emulation_free xs \<Longrightarrow> no_start_code xs"
  unfolding no_start_code_def sc3_iff
proof (intro ballI notI, elim conjE)
  fix i assume "emulation_free xs" "i + 3 \<le> length xs" "xs ! i = 0" "xs ! (i + 1) = 0" "xs ! (i + 2) = 1"
  then show False using emulation_free_nth [of xs i] by simp
qed

lemma last_rbsp_escape: "xs \<noteq> [] \<Longrightarrow> last (rbsp_escape xs) = last xs"
proof (induction xs rule: rbsp_escape.induct)
  case (4 a b c rest)
  then show ?case by (cases rest) auto
qed simp_all

text \<open>A NAL unit rebuilt from a header that does not end in zero and an escaped payload whose
  last byte is not zero is clean.\<close>

lemma emulation_free_Cons:
  "emulation_free xs \<Longrightarrow> h \<noteq> 0 \<Longrightarrow> emulation_free (h # xs)"
  by (cases xs rule: emulation_free.cases) auto

lemma emulation_free_nz_append:
  "emulation_free xs \<Longrightarrow> h \<noteq> [] \<Longrightarrow> last h \<noteq> 0 \<Longrightarrow> length h \<le> 2 \<Longrightarrow> emulation_free (h @ xs)"
proof -
  assume ef: "emulation_free xs" and h: "h \<noteq> []" "last h \<noteq> 0" "length h \<le> 2"
  then consider a where "h = [a]" "a \<noteq> 0" | a b where "h = [a, b]" "b \<noteq> 0"
    by (cases h rule: emulation_free.cases) auto
  then show ?thesis
  proof cases
    case 1
    with ef show ?thesis by (simp add: emulation_free_Cons)
  next
    case 2
    then have "emulation_free (b # xs)" using ef by (simp add: emulation_free_Cons)
    with 2 show ?thesis by (cases xs) auto
  qed
qed

lemma clean_header_escape:
  assumes "h \<noteq> []" "last h \<noteq> 0" "length h \<le> 2" "rbsp \<noteq> [] \<Longrightarrow> last rbsp \<noteq> 0"
  shows "clean (h @ rbsp_escape rbsp)"
proof -
  have "emulation_free (h @ rbsp_escape rbsp)"
    by (rule emulation_free_nz_append [OF emulation_free_escape assms(1-3)])
  then show ?thesis
    using assms by (auto simp: clean_def last_rbsp_escape last_append emulation_free_no_start_code)
qed

lemma rbsp_escape_length: "length (rbsp_escape xs) \<le> length xs + length xs div 2"
  by (induction xs rule: rbsp_escape.induct) auto

lemma clean_emulation_free: "bs \<noteq> [] \<Longrightarrow> last bs \<noteq> 0 \<Longrightarrow> emulation_free bs \<Longrightarrow> clean bs"
  by (simp add: clean_def emulation_free_no_start_code)

end
