(* ===== verification/SpsPacket.thy ===== *)
theory SpsPacket
  imports SpsHevc Rbsp
begin

text \<open>
  \<open>patch_packet_for_low_latency_dpb\<close> of
  \<^verbatim>\<open>crates/penflow-core/src/encoder/sps_patcher.rs\<close>: the walk over the start codes of a
  coded packet that rewrites its SPS NAL units, and its specification on lists of NAL
  units, \<open>patch_nals\<close>.
\<close>

section \<open>Model\<close>

text \<open>\<^verbatim>\<open>Codec\<close> of \<^verbatim>\<open>encoder/mod.rs\<close>.\<close>

datatype codec = H264 | Hevc

function scan_start_code :: "bytes \<Rightarrow> nat \<Rightarrow> (nat \<times> nat) option" where
  "scan_start_code bytes i =
     (if i + 3 \<le> length bytes then
        if starts_with (drop i bytes) [0, 0, 0, 1] then Some (4, i + 4)
        else if starts_with (drop i bytes) [0, 0, 1] then Some (3, i + 3)
        else scan_start_code bytes (i + 1)
      else None)"
  by pat_completeness auto
termination by (relation "measure (\<lambda>(bytes, i). length bytes - i)") auto

declare scan_start_code.simps [simp del]

text \<open>The inner loop that finds the end of a NAL unit.\<close>

function find_nal_end :: "bytes \<Rightarrow> nat \<Rightarrow> nat" where
  "find_nal_end bytes j =
     (if j + 3 > length bytes then length bytes
      else if starts_with (drop j bytes) [0, 0, 0, 1] \<or> starts_with (drop j bytes) [0, 0, 1] then j
      else find_nal_end bytes (j + 1))"
  by pat_completeness auto
termination by (relation "measure (\<lambda>(bytes, j). length bytes - j)") auto

declare find_nal_end.simps [simp del]

definition header_len :: "codec \<Rightarrow> nat" where
  "header_len codec = (case codec of H264 \<Rightarrow> 1 | Hevc \<Rightarrow> 2)"

definition is_sps :: "codec \<Rightarrow> u8 \<Rightarrow> bool" where
  "is_sps codec b =
     (case codec of H264 \<Rightarrow> b AND 0x1F = 7 | Hevc \<Rightarrow> drop_bit 1 b AND 0x3F = 33)"

definition patch_sps_rbsp :: "codec \<Rightarrow> bytes \<Rightarrow> bytes option" where
  "patch_sps_rbsp codec rbsp =
     (case codec of H264 \<Rightarrow> patch_h264_sps_rbsp rbsp | Hevc \<Rightarrow> patch_hevc_sps_rbsp rbsp)"

lemma find_nal_end_ge: "j \<le> length bytes \<Longrightarrow> j \<le> find_nal_end bytes j \<and> find_nal_end bytes j \<le> length bytes"
proof (induction bytes j rule: find_nal_end.induct)
  case (1 bytes j)
  then show ?case by (subst (1 2) find_nal_end.simps) auto
qed

lemma scan_start_code_gt: "scan_start_code bytes i = Some (n, p) \<Longrightarrow> i + 3 \<le> p \<and> p \<le> length bytes"
proof (induction bytes i rule: scan_start_code.induct)
  case (1 bytes i)
  then show ?case
    by (subst (asm) scan_start_code.simps) (auto simp: sc3_iff sc4_iff split: if_splits)
qed

function patch_packet_loop :: "codec \<Rightarrow> bytes \<Rightarrow> nat \<Rightarrow> bytes \<Rightarrow> bytes option" where
  "patch_packet_loop codec bytes i out =
     (if i < length bytes then
        case scan_start_code bytes i of
          None \<Rightarrow> Some (out @ drop i bytes)
        | Some (sc_len, payload_off) \<Rightarrow>
            let nal_end = find_nal_end bytes payload_off in
            if payload_off + header_len codec > nal_end then Some (out @ drop i bytes)
            else if \<not> is_sps codec (bytes ! payload_off) then
              patch_packet_loop codec bytes nal_end (out @ slice i nal_end bytes)
            else
              let header_end = payload_off + header_len codec;
                  rbsp = rbsp_unescape (slice header_end nal_end bytes) in
              case patch_sps_rbsp codec rbsp of
                None \<Rightarrow> None
              | Some patched_rbsp \<Rightarrow>
                  patch_packet_loop codec bytes nal_end
                    (out @ slice i header_end bytes @ rbsp_escape patched_rbsp)
      else Some out)"
  by pat_completeness auto
termination
proof (relation "measure (\<lambda>(codec, bytes, i, out). length bytes - i)")
  have dec: "length bytes - find_nal_end bytes p < length bytes - i"
    if "i < length bytes" "scan_start_code bytes i = Some (n, p)" for bytes :: bytes and i n p :: nat
    using that scan_start_code_gt [of bytes i n p] find_nal_end_ge [of p bytes] by linarith
  show "((codec, bytes, nal_end, out @ slice i nal_end bytes), codec, bytes, i, out)
      \<in> measure (\<lambda>(codec, bytes, i, out). length bytes - i)"
    if "i < length bytes" "scan_start_code bytes i = Some x" "(n, p) = x" "nal_end = find_nal_end bytes p"
    for codec bytes i out x n p nal_end
    using that dec by auto
  show "((codec, bytes, nal_end, out @ slice i h bytes @ rbsp_escape q), codec, bytes, i, out)
      \<in> measure (\<lambda>(codec, bytes, i, out). length bytes - i)"
    if "i < length bytes" "scan_start_code bytes i = Some x" "(n, p) = x" "nal_end = find_nal_end bytes p"
    for codec bytes i out x n p nal_end h q
    using that dec by auto
qed simp

declare patch_packet_loop.simps [simp del]

definition patch_packet_for_low_latency_dpb :: "codec \<Rightarrow> bytes \<Rightarrow> bytes option" where
  "patch_packet_for_low_latency_dpb codec bytes = patch_packet_loop codec bytes 0 []"

section \<open>The packet as a list of NAL units\<close>

text \<open>What happens to one unit that is at least as long as its header.\<close>

definition patch_nal :: "codec \<Rightarrow> nal \<Rightarrow> nal option" where
  "patch_nal codec n =
     (if is_sps codec (hd (snd n)) then
        map_option (\<lambda>p. (fst n, take (header_len codec) (snd n) @ rbsp_escape p))
          (patch_sps_rbsp codec (rbsp_unescape (drop (header_len codec) (snd n))))
      else Some n)"

text \<open>A unit shorter than its header ends the walk: it and all that follows is kept.\<close>

fun patch_nals :: "codec \<Rightarrow> nal list \<Rightarrow> nal list option" where
  "patch_nals codec [] = Some []"
| "patch_nals codec (n # ns) =
     (if length (snd n) < header_len codec then Some (n # ns)
      else do { m \<leftarrow> patch_nal codec n; ms \<leftarrow> patch_nals codec ns; Some (m # ms) })"

lemma scan_start_code_hit:
  assumes "drop i bs = start_code four @ rest"
  shows "scan_start_code bs i = Some (length (start_code four), i + length (start_code four))"
proof -
  have "length (start_code four) \<le> length bs - i"
    using assms by (metis le_add1 length_append length_drop)
  then show ?thesis
    using assms by (subst scan_start_code.simps)
      (cases four; auto simp: start_code_def starts_with_def)
qed

lemma find_nal_end_skip:
  assumes "\<And>k. k < n \<Longrightarrow> \<not> sc_at bs (i + k)" "i + n \<le> length bs"
  shows "find_nal_end bs i = find_nal_end bs (i + n)"
  using assms
proof (induction n arbitrary: i)
  case (Suc n)
  have "find_nal_end bs i = find_nal_end bs (i + 1)"
  proof (cases "i + 3 > length bs")
    case True
    then show ?thesis
      unfolding find_nal_end.simps [of bs i] find_nal_end.simps [of bs "i + 1"] by simp
  next
    case False
    then show ?thesis using Suc.prems(1) [of 0] by (subst find_nal_end.simps) (simp add: sc_at_def)
  qed
  also have "\<dots> = find_nal_end bs (i + 1 + n)"
    using Suc.prems(1) [of "Suc k" for k] Suc.prems(2) by (intro Suc.IH) auto
  finally show ?case by simp
qed simp

lemma find_nal_end_annex_b:
  assumes "clean bs"
  shows "find_nal_end (pre @ bs @ annex_b ns) (length pre) = length pre + length bs"
proof -
  let ?all = "pre @ bs @ annex_b ns"
  have "find_nal_end ?all (length pre) = find_nal_end ?all (length pre + length bs)"
  proof (rule find_nal_end_skip)
    fix k assume "k < length bs"
    then show "\<not> sc_at ?all (length pre + k)"
      unfolding sc_at_drop by (rule clean_no_sc_inside [OF assms])
  qed simp
  also have "\<dots> = length pre + length bs"
  proof (cases ns)
    case Nil
    then show ?thesis by (subst find_nal_end.simps) simp
  next
    case (Cons n ns')
    have "sc_at (annex_b ns) 0" "3 \<le> length (annex_b ns)"
      unfolding Cons by (auto simp: sc_at_def nal_bytes_def start_code_def starts_with_def)
    then have "sc_at ?all (length pre + length bs)" "length pre + length bs + 3 \<le> length ?all"
      using sc_at_drop [of "pre @ bs" "annex_b ns" 0] by simp_all
    then show ?thesis by (subst find_nal_end.simps) (auto simp: sc_at_def)
  qed
  finally show ?thesis .
qed

lemma slice_append: "slice (length pre) (length pre + length xs) (pre @ xs @ ys) = xs"
  by (simp add: slice_def)

lemma patch_packet_loop_annex_b:
  "\<forall>n \<in> set ns. clean (snd n) \<Longrightarrow>
     patch_packet_loop codec (pre @ annex_b ns) (length pre) out =
       map_option (\<lambda>ms. out @ annex_b ms) (patch_nals codec ns)"
proof (induction ns arbitrary: pre out)
  case Nil
  then show ?case by (subst patch_packet_loop.simps) simp
next
  case (Cons n ns)
  let ?sc = "start_code (fst n)" and ?bs = "snd n" and ?h = "header_len codec"
  let ?all = "pre @ annex_b (n # ns)" and ?p = "length pre + length (start_code (fst n))"
  have all: "?all = pre @ ?sc @ ?bs @ annex_b ns" by (simp add: nal_bytes_def)
  have cl: "clean ?bs" using Cons.prems by simp
  then have ne: "?bs \<noteq> []" by (simp add: clean_def)
  have lt: "length pre < length ?all" using ne unfolding all by simp
  have sc: "scan_start_code ?all (length pre) = Some (length ?sc, ?p)"
    by (rule scan_start_code_hit [of _ _ _ "?bs @ annex_b ns"]) (simp add: nal_bytes_def)
  have fe: "find_nal_end ?all ?p = ?p + length ?bs"
    using find_nal_end_annex_b [OF cl, of "pre @ ?sc" ns] by (simp add: nal_bytes_def)
  have hd: "?all ! ?p = hd ?bs" using ne unfolding all by (simp add: nth_append hd_conv_nth)
  have IH: "patch_packet_loop codec ?all (?p + length ?bs) out' =
      map_option (\<lambda>ms. out' @ annex_b ms) (patch_nals codec ns)" for out'
    using Cons.IH [of "pre @ ?sc @ ?bs" out'] Cons.prems by (simp add: nal_bytes_def add.assoc)
  show ?case
  proof (cases "length ?bs < ?h")
    case True
    then show ?thesis by (subst patch_packet_loop.simps) (use lt sc fe in \<open>simp add: nal_bytes_def\<close>)
  next
    case long: False
    show ?thesis
    proof (cases "is_sps codec (hd ?bs)")
      case False
      have "slice (length pre) (?p + length ?bs) ?all = nal_bytes n"
        using slice_append [of pre "nal_bytes n" "annex_b ns"] by (simp add: nal_bytes_def add.assoc)
      moreover have "patch_packet_loop codec ?all (length pre) out =
          patch_packet_loop codec ?all (?p + length ?bs) (out @ slice (length pre) (?p + length ?bs) ?all)"
        using long False hd lt sc fe by (subst patch_packet_loop.simps) (simp add: Let_def)
      ultimately show ?thesis
        unfolding IH using long False
        by (cases "patch_nals codec ns") (simp_all add: patch_nal_def)
    next
      case True
      have body: "slice (?p + ?h) (?p + length ?bs) ?all = drop ?h ?bs"
        using long by (simp add: slice_def nal_bytes_def)
      have head: "slice (length pre) (?p + ?h) ?all = ?sc @ take ?h ?bs"
        using long by (simp add: slice_def nal_bytes_def)
      have "patch_packet_loop codec ?all (length pre) out =
          (case patch_sps_rbsp codec (rbsp_unescape (drop ?h ?bs)) of None \<Rightarrow> None
           | Some p \<Rightarrow> patch_packet_loop codec ?all (?p + length ?bs) (out @ (?sc @ take ?h ?bs) @ rbsp_escape p))"
        using long True hd lt sc fe body head by (subst patch_packet_loop.simps) (simp add: Let_def cong: option.case_cong)
      then show ?thesis
        unfolding IH using long True
        by (cases "patch_nals codec ns"; cases "patch_sps_rbsp codec (rbsp_unescape (drop ?h ?bs))")
           (simp_all add: patch_nal_def nal_bytes_def)
    qed
  qed
qed

lemma patch_packet_annex_b:
  assumes "\<forall>n \<in> set ns. clean (snd n)"
  shows "patch_packet_for_low_latency_dpb codec (annex_b ns) = map_option annex_b (patch_nals codec ns)"
  using patch_packet_loop_annex_b [OF assms, of codec "[]" "[]"]
  by (simp add: patch_packet_for_low_latency_dpb_def)

section \<open>Patched units are clean again\<close>

lemma bits_of_last: "bits_of bs = e @ True # replicate k False \<Longrightarrow> k < 8 \<Longrightarrow> bs \<noteq> [] \<and> last bs \<noteq> 0"
proof (induction bs rule: rev_induct)
  case (snoc b bs)
  have len: "8 * length bs + 8 = length e + 1 + k"
    using arg_cong [OF snoc.prems(1), of length] by (simp del: append.simps)
  then have "(bits_of (bs @ [b])) ! length e = True"
    unfolding snoc.prems(1) by (simp add: nth_append)
  moreover have "8 * length bs \<le> length e" "length e - 8 * length bs < 8" using len snoc.prems(2) by linarith+
  ultimately have "byte_bits b ! (length e - 8 * length bs)" by (simp add: nth_append)
  moreover have "\<not> byte_bits 0 ! j" if "j < 8" for j using that by (simp add: byte_bits_def)
  ultimately show ?case using \<open>length e - 8 * length bs < 8\<close> by auto
qed simp

lemma patched_h264_last: "patch_h264_sps_rbsp rbsp = Some out \<Longrightarrow> out \<noteq> [] \<and> last out \<noteq> 0"
  unfolding patch_h264_sps_rbsp_iff rbsp_of_def using bits_of_last by blast

lemma patch_nal_h264_clean:
  assumes "clean (snd n)" "patch_nal H264 n = Some m"
  shows "clean (snd m)"
proof (cases "is_sps H264 (hd (snd n))")
  case False
  then show ?thesis using assms by (simp add: patch_nal_def)
next
  case True
  obtain h t where n: "snd n = h # t" using assms(1) by (cases "snd n") (auto simp: clean_def)
  have "h \<noteq> 0" using True n by (auto simp: is_sps_def)
  moreover obtain p where "patch_h264_sps_rbsp (rbsp_unescape t) = Some p" "snd m = [h] @ rbsp_escape p"
    using assms(2) True n by (auto simp: patch_nal_def patch_sps_rbsp_def header_len_def)
  ultimately show ?thesis using patched_h264_last [of "rbsp_unescape t" p] clean_header_escape [of "[h]" p] by simp
qed

lemma patch_nal_h264_idem:
  assumes "clean (snd n)" "patch_nal H264 n = Some m"
  shows "patch_nal H264 m = Some m"
proof (cases "is_sps H264 (hd (snd n))")
  case False
  then show ?thesis using assms by (auto simp: patch_nal_def)
next
  case True
  obtain h t where n: "snd n = h # t" using assms(1) by (cases "snd n") (auto simp: clean_def)
  obtain p where p: "patch_h264_sps_rbsp (rbsp_unescape t) = Some p" "m = (fst n, h # rbsp_escape p)"
    using assms(2) True n by (auto simp: patch_nal_def patch_sps_rbsp_def header_len_def)
  then have "patch_h264_sps_rbsp p = Some p" using patch_h264_sps_rbsp_idem [of "rbsp_unescape t"] by simp
  then show ?thesis using True n p
    by (simp add: patch_nal_def patch_sps_rbsp_def header_len_def rbsp_unescape_escape)
qed

lemma patch_nals_h264:
  "\<forall>n \<in> set ns. clean (snd n) \<Longrightarrow> patch_nals H264 ns = Some ms \<Longrightarrow>
     (\<forall>m \<in> set ms. clean (snd m)) \<and> patch_nals H264 ms = Some ms"
proof (induction ns arbitrary: ms)
  case (Cons n ns)
  have long: "\<not> length (snd n) < header_len H264"
    using Cons.prems(1) by (cases "snd n") (auto simp: clean_def header_len_def)
  then obtain m ms' where m: "patch_nal H264 n = Some m" "patch_nals H264 ns = Some ms'" "ms = m # ms'"
    using Cons.prems(2) by (auto simp: bind_eq_Some_conv)
  have c: "clean (snd m)" "patch_nal H264 m = Some m"
    using patch_nal_h264_clean [OF _ m(1)] patch_nal_h264_idem [OF _ m(1)] Cons.prems(1) by simp_all
  then have "\<not> length (snd m) < header_len H264"
    by (cases "snd m") (auto simp: clean_def header_len_def)
  then show ?case using Cons.IH [OF _ m(2)] Cons.prems(1) m c by simp
qed simp

lemma patch_packet_h264_idem:
  assumes "\<forall>n \<in> set ns. clean (snd n)" "patch_packet_for_low_latency_dpb H264 (annex_b ns) = Some out"
  shows "patch_packet_for_low_latency_dpb H264 out = Some out"
proof -
  obtain ms where "patch_nals H264 ns = Some ms" "out = annex_b ms"
    using assms by (auto simp: patch_packet_annex_b)
  then show ?thesis using patch_nals_h264 [OF assms(1)] patch_packet_annex_b [of ms] by auto
qed

text \<open>A packet without SPS units passes unchanged.\<close>

lemma patch_nals_no_sps: "\<forall>n \<in> set ns. \<not> is_sps codec (hd (snd n)) \<Longrightarrow> patch_nals codec ns = Some ns"
  by (induction ns) (simp_all add: patch_nal_def)

end
