(* ===== verification/PacketQueue.thy ===== *)
theory PacketQueue
  imports Prelude "HOL-Library.Sublist"
begin

text \<open>
  \<^verbatim>\<open>PacketQueue\<close> of \<^verbatim>\<open>crates/penflow-core/src/packet_queue.rs\<close>: the queue between the
  pipeline (producer) and the session (consumer), which drops its oldest packet when it is
  full. Every method holds the mutex for one critical section, so the concurrent queue is
  the interleaving of these sections: \<open>push\<close>, \<open>close\<close>, and one turn of the loop of
  \<open>pop_blocking\<close> or \<open>pop_timeout\<close> (\<open>pop_turn\<close>); a turn that ends in \<^verbatim>\<open>cv.wait\<close> is \<open>Wait\<close>.
\<close>

section \<open>Model\<close>

record 'a packet_queue =
  pq_deque :: "'a list"
  pq_capacity :: nat
  pq_closed :: bool
  pq_dropped_overflow :: u64

definition packet_queue_new :: "nat \<Rightarrow> 'a packet_queue" where
  "packet_queue_new capacity =
     \<lparr>pq_deque = [], pq_capacity = max capacity 1, pq_closed = False, pq_dropped_overflow = 0\<rparr>"

definition saturating_add_u64 :: "u64 \<Rightarrow> u64 \<Rightarrow> u64" where
  "saturating_add_u64 a b = (if a + b < a then - 1 else a + b)"

definition push :: "'a \<Rightarrow> 'a packet_queue \<Rightarrow> u64 \<times> 'a packet_queue" where
  "push item g =
     (if pq_closed g then (pq_dropped_overflow g, g)
      else
        let g = (if length (pq_deque g) = pq_capacity g then
                   g\<lparr>pq_deque := tl (pq_deque g),
                     pq_dropped_overflow := saturating_add_u64 (pq_dropped_overflow g) 1\<rparr>
                 else g);
            g = g\<lparr>pq_deque := pq_deque g @ [item]\<rparr> in
        (pq_dropped_overflow g, g))"

datatype 'a pop_result = Got 'a | Closed | Timed_out | Wait

text \<open>One turn of the pop loops; \<open>expired\<close> is \<^verbatim>\<open>now >= deadline\<close>, always false in \<open>pop_blocking\<close>.\<close>

definition pop_turn :: "bool \<Rightarrow> 'a packet_queue \<Rightarrow> 'a pop_result \<times> 'a packet_queue" where
  "pop_turn expired g =
     (case pq_deque g of
        item # rest \<Rightarrow> (Got item, g\<lparr>pq_deque := rest\<rparr>)
      | [] \<Rightarrow> if pq_closed g then (Closed, g) else if expired then (Timed_out, g) else (Wait, g))"

definition close :: "'a packet_queue \<Rightarrow> 'a packet_queue" where
  "close g = g\<lparr>pq_closed := True\<rparr>"

record queue_stats =
  qs_depth :: nat
  qs_capacity :: nat
  qs_dropped_overflow :: u64
  qs_closed :: bool

definition stats :: "'a packet_queue \<Rightarrow> queue_stats" where
  "stats g = \<lparr>qs_depth = length (pq_deque g), qs_capacity = pq_capacity g,
     qs_dropped_overflow = pq_dropped_overflow g, qs_closed = pq_closed g\<rparr>"

section \<open>The interface: a bounded buffer that keeps the newest\<close>

text \<open>What the pipeline and the session rely on, without the counters.\<close>

locale keep_newest =
  fixes contents :: "'q \<Rightarrow> 'a list"
    and bound :: "'q \<Rightarrow> nat"
    and enq :: "'a \<Rightarrow> 'q \<Rightarrow> 'q"
    and deq :: "'q \<Rightarrow> 'a option \<times> 'q"
    and ok :: "'q \<Rightarrow> bool"
  assumes ok_bound: "ok q \<Longrightarrow> 0 < bound q \<and> length (contents q) \<le> bound q"
    and ok_enq: "ok q \<Longrightarrow> ok (enq x q) \<and> bound (enq x q) = bound q"
    and ok_deq: "ok q \<Longrightarrow> ok (snd (deq q)) \<and> bound (snd (deq q)) = bound q"
    and enq_contents: "ok q \<Longrightarrow> contents (enq x q) =
        (if length (contents q) = bound q then tl (contents q) else contents q) @ [x]"
    and deq_contents: "ok q \<Longrightarrow> deq q = (None, q) \<and> contents q = [] \<or>
        (\<exists>x. fst (deq q) = Some x \<and> contents q = x # contents (snd (deq q)))"
begin

lemma enq_newest: "ok q \<Longrightarrow> contents (enq x q) \<noteq> [] \<and> last (contents (enq x q)) = x"
  by (simp add: enq_contents)

text \<open>A burst of pushes leaves the newest \<open>bound\<close> items, in order.\<close>

lemma enq_all:
  assumes "ok q"
  shows "ok (fold enq xs q) \<and> bound (fold enq xs q) = bound q \<and>
    contents (fold enq xs q) =
      drop (length (contents q @ xs) - bound q) (contents q @ xs)"
  using assms
proof (induction xs arbitrary: q)
  case Nil
  then show ?case using ok_bound [of q] by simp
next
  case (Cons x xs)
  let ?q = "enq x q"
  have q: "ok ?q" "bound ?q = bound q" using ok_enq [OF Cons.prems] by blast+
  have b: "0 < bound q" "length (contents q) \<le> bound q" using ok_bound [OF Cons.prems] by blast+
  have "drop (length (contents ?q @ xs) - bound q) (contents ?q @ xs)
      = drop (length (contents q @ x # xs) - bound q) (contents q @ x # xs)"
  proof (cases "length (contents q) = bound q")
    case True
    then obtain y ys where c: "contents q = y # ys" using b(1) by (cases "contents q") auto
    then have "contents ?q = ys @ [x]" using enq_contents [OF Cons.prems] True by simp
    then show ?thesis using c by (simp add: True [symmetric])
  next
    case False
    then have "contents ?q = contents q @ [x]" using enq_contents [OF Cons.prems] by simp
    then show ?thesis by simp
  qed
  then show ?case using Cons.IH [OF q(1)] q by simp
qed

text \<open>What comes out of a queue nobody pushes to is its contents, in order.\<close>

fun drain :: "nat \<Rightarrow> 'q \<Rightarrow> 'a list" where
  "drain 0 q = []"
| "drain (Suc n) q = (case deq q of (None, _) \<Rightarrow> [] | (Some x, q') \<Rightarrow> x # drain n q')"

lemma drain_contents: "ok q \<Longrightarrow> length (contents q) \<le> n \<Longrightarrow> drain n q = contents q"
proof (induction n arbitrary: q)
  case (Suc n)
  show ?case using deq_contents [OF Suc.prems(1)]
  proof
    assume "deq q = (None, q) \<and> contents q = []"
    then show ?thesis by simp
  next
    assume "\<exists>x. fst (deq q) = Some x \<and> contents q = x # contents (snd (deq q))"
    then obtain x q' where "deq q = (Some x, q')" "contents q = x # contents q'"
      by (metis prod.collapse)
    then show ?thesis using Suc.IH [of q'] Suc.prems ok_deq [OF Suc.prems(1)] by simp
  qed
qed simp

end

definition pq_ok :: "'a packet_queue \<Rightarrow> bool" where
  "pq_ok g \<longleftrightarrow> 0 < pq_capacity g \<and> length (pq_deque g) \<le> pq_capacity g"

definition try_pop :: "'a packet_queue \<Rightarrow> 'a option \<times> 'a packet_queue" where
  "try_pop g = (case pop_turn True g of (Got x, g') \<Rightarrow> (Some x, g') | (_, g') \<Rightarrow> (None, g'))"

lemma pq_ok_new [simp]: "pq_ok (packet_queue_new c)"
  by (simp add: pq_ok_def packet_queue_new_def)

interpretation pq: keep_newest pq_deque pq_capacity "\<lambda>x g. snd (push x g)" try_pop
    "\<lambda>g. pq_ok g \<and> \<not> pq_closed g"
proof unfold_locales
  fix g :: "'a packet_queue" and x
  assume ok: "pq_ok g \<and> \<not> pq_closed g"
  then show "0 < pq_capacity g \<and> length (pq_deque g) \<le> pq_capacity g" by (simp add: pq_ok_def)
  show "(pq_ok (snd (push x g)) \<and> \<not> pq_closed (snd (push x g))) \<and> pq_capacity (snd (push x g)) = pq_capacity g"
    using ok by (auto simp: push_def Let_def pq_ok_def)
  show "(pq_ok (snd (try_pop g)) \<and> \<not> pq_closed (snd (try_pop g))) \<and> pq_capacity (snd (try_pop g)) = pq_capacity g"
    using ok by (auto simp: try_pop_def pop_turn_def pq_ok_def split: list.split)
  show "pq_deque (snd (push x g)) =
      (if length (pq_deque g) = pq_capacity g then tl (pq_deque g) else pq_deque g) @ [x]"
    using ok by (simp add: push_def Let_def)
  show "try_pop g = (None, g) \<and> pq_deque g = [] \<or>
      (\<exists>x. fst (try_pop g) = Some x \<and> pq_deque g = x # pq_deque (snd (try_pop g)))"
    using ok by (auto simp: try_pop_def pop_turn_def split: list.split)
qed

section \<open>Interleavings\<close>

text \<open>A run of critical sections by any number of threads, with what it accepted (pushed while
  open), delivered and dropped, oldest first.\<close>

datatype 'a queue_op = Push 'a | Pop bool | Close

record 'a queue_run =
  qr_queue :: "'a packet_queue"
  qr_accepted :: "'a list"
  qr_delivered :: "'a list"
  qr_lost :: "'a list"

definition run_start :: "nat \<Rightarrow> 'a queue_run" where
  "run_start c = \<lparr>qr_queue = packet_queue_new c, qr_accepted = [], qr_delivered = [], qr_lost = []\<rparr>"

definition run_op :: "'a queue_op \<Rightarrow> 'a queue_run \<Rightarrow> 'a queue_run" where
  "run_op op s =
     (let g = qr_queue s in
      case op of
        Push x \<Rightarrow> s\<lparr>qr_queue := snd (push x g),
          qr_accepted := (if pq_closed g then qr_accepted s else qr_accepted s @ [x]),
          qr_lost := (if \<not> pq_closed g \<and> length (pq_deque g) = pq_capacity g
                      then qr_lost s @ [hd (pq_deque g)] else qr_lost s)\<rparr>
      | Pop expired \<Rightarrow>
          (case pop_turn expired g of
             (Got x, g') \<Rightarrow> s\<lparr>qr_queue := g', qr_delivered := qr_delivered s @ [x]\<rparr>
           | (_, g') \<Rightarrow> s\<lparr>qr_queue := g'\<rparr>)
      | Close \<Rightarrow> s\<lparr>qr_queue := close g\<rparr>)"

text \<open>Every accepted packet is delivered, dropped or still queued, exactly once; the queue holds
  the newest ones, and delivered packets keep their order.\<close>

definition run_inv :: "'a queue_run \<Rightarrow> bool" where
  "run_inv s \<longleftrightarrow> pq_ok (qr_queue s) \<and>
     (\<exists>ms. qr_accepted s = ms @ pq_deque (qr_queue s) \<and> ms \<in> shuffles (qr_delivered s) (qr_lost s)) \<and>
     unat (pq_dropped_overflow (qr_queue s)) = min (length (qr_lost s)) (2 ^ 64 - 1)"

lemma snoc_in_shuffles: "ys @ [x] \<in> shuffles [x] ys"
  by (induction ys) (auto simp: Cons_in_shuffles_iff)

lemma shuffles_snoc1: "ms \<in> shuffles xs ys \<Longrightarrow> ms @ [x] \<in> shuffles (xs @ [x]) ys"
proof (induction xs ys arbitrary: ms rule: shuffles.induct)
  case (3 a xs b ys)
  then show ?case by (auto simp: Cons_in_shuffles_iff)
qed (auto simp: snoc_in_shuffles)

lemma shuffles_snoc2: "ms \<in> shuffles xs ys \<Longrightarrow> ms @ [y] \<in> shuffles xs (ys @ [y])"
  using shuffles_snoc1 [of ms ys xs y] by (simp add: shuffles_commutes)

lemma unat_minus_1_u64: "unat (- 1 :: u64) = 2 ^ 64 - 1"
  by (simp add: unsigned_minus_1_eq_mask mask_eq_exp_minus_1)

lemma saturating_add_1:
  "unat (saturating_add_u64 a 1) = min (unat a + 1) (2 ^ 64 - 1)"
proof (cases "a = - 1")
  case True
  then show ?thesis
    using unat_minus_1_u64 by (simp add: saturating_add_u64_def word_less_nat_alt)
next
  case False
  then have "unat a \<noteq> 2 ^ 64 - 1"
    using unat_minus_1_u64 by (metis word_unat_eq_iff)
  moreover have "unat a < 2 ^ 64" using unsigned_less [of a] by simp
  ultimately have "unat (a + 1) = unat a + 1" by (simp add: unat_word_ariths)
  moreover from this have "\<not> a + 1 < a" by (simp add: word_less_nat_alt)
  moreover have "unat (a + 1) < 2 ^ 64" using unsigned_less [of "a + 1"] by simp
  ultimately show ?thesis by (simp add: saturating_add_u64_def)
qed

lemma run_inv_start: "run_inv (run_start c)"
  by (simp add: run_inv_def run_start_def packet_queue_new_def pq_ok_def)

lemma run_inv_op:
  assumes "run_inv s"
  shows "run_inv (run_op op s)"
proof -
  let ?g = "qr_queue s"
  obtain ms where acc: "qr_accepted s = ms @ pq_deque ?g" "ms \<in> shuffles (qr_delivered s) (qr_lost s)"
    and ok: "pq_ok ?g"
    and cnt: "unat (pq_dropped_overflow ?g) = min (length (qr_lost s)) (2 ^ 64 - 1)"
    using assms unfolding run_inv_def by blast
  show ?thesis
  proof (cases op)
    case (Push x)
    show ?thesis
    proof (cases "pq_closed ?g")
      case True
      then show ?thesis using assms Push by (simp add: run_op_def Let_def push_def run_inv_def)
    next
      case open_: False
      show ?thesis
      proof (cases "length (pq_deque ?g) = pq_capacity ?g")
        case full: True
        then obtain y ys where d: "pq_deque ?g = y # ys" using ok by (cases "pq_deque ?g") (auto simp: pq_ok_def)
        have "ms @ [y] \<in> shuffles (qr_delivered s) (qr_lost s @ [y])" using acc(2) by (rule shuffles_snoc2)
        then show ?thesis
          using full open_ acc ok cnt d saturating_add_1 [of "pq_dropped_overflow ?g"] Push
          by (auto simp: run_op_def Let_def push_def run_inv_def pq_ok_def)
      next
        case False
        then show ?thesis using open_ acc ok cnt Push
          by (auto simp: run_op_def Let_def push_def run_inv_def pq_ok_def)
      qed
    qed
  next
    case (Pop expired)
    show ?thesis
    proof (cases "pq_deque ?g")
      case Nil
      then show ?thesis using assms Pop by (auto simp: run_op_def Let_def pop_turn_def run_inv_def)
    next
      case (Cons y ys)
      have "ms @ [y] \<in> shuffles (qr_delivered s @ [y]) (qr_lost s)" using acc(2) by (rule shuffles_snoc1)
      then show ?thesis using acc ok cnt Cons Pop
        by (auto simp: run_op_def Let_def pop_turn_def run_inv_def pq_ok_def)
    qed
  next
    case Close
    then show ?thesis using assms by (simp add: run_op_def close_def run_inv_def pq_ok_def)
  qed
qed

lemma run_inv_ops: "run_inv s \<Longrightarrow> run_inv (fold run_op ops s)"
  by (induction ops arbitrary: s) (simp_all add: run_inv_op)

lemma capacity_op: "pq_capacity (qr_queue (run_op op s)) = pq_capacity (qr_queue s)"
  by (cases op) (auto simp: run_op_def Let_def push_def pop_turn_def close_def split: list.split)

lemma capacity_ops: "pq_capacity (qr_queue (fold run_op ops s)) = pq_capacity (qr_queue s)"
  by (induction ops arbitrary: s) (simp_all add: capacity_op)

text \<open>A closed queue accepts nothing more and lets consumers drain it.\<close>

lemma closed_stays: "pq_closed (qr_queue s) \<Longrightarrow>
    pq_closed (qr_queue (run_op op s)) \<and> qr_accepted (run_op op s) = qr_accepted s \<and> qr_lost (run_op op s) = qr_lost s"
  by (cases op) (auto simp: run_op_def Let_def push_def pop_turn_def close_def split: list.split)

lemma closed_drains:
  "pq_closed g \<Longrightarrow> pop_turn e g = (case pq_deque g of [] \<Rightarrow> (Closed, g) | x # xs \<Rightarrow> (Got x, g\<lparr>pq_deque := xs\<rparr>))"
  by (simp add: pop_turn_def split: list.split)


text \<open>After \<^verbatim>\<open>close\<close> the pops deliver what was queued, oldest first, and nothing else changes.\<close>

definition is_pop :: "'a queue_op \<Rightarrow> bool" where
  "is_pop op = (case op of Pop _ \<Rightarrow> True | _ \<Rightarrow> False)"

lemma closed_run:
  "pq_closed (qr_queue s) \<Longrightarrow>
   qr_delivered (fold run_op ops s) = qr_delivered s @ take (length (filter is_pop ops)) (pq_deque (qr_queue s)) \<and>
   pq_deque (qr_queue (fold run_op ops s)) = drop (length (filter is_pop ops)) (pq_deque (qr_queue s)) \<and>
   qr_accepted (fold run_op ops s) = qr_accepted s \<and> qr_lost (fold run_op ops s) = qr_lost s"
proof (induction ops arbitrary: s)
  case (Cons op ops)
  note closed = Cons.prems
  have "pq_closed (qr_queue (run_op op s))" using closed_stays [OF Cons.prems] by blast
  note IH = Cons.IH [OF this] and same = closed_stays [OF Cons.prems, of op]
  show ?case
  proof (cases op)
    case (Pop e)
    show ?thesis
    proof (cases "pq_deque (qr_queue s)")
      case Nil
      then have "qr_delivered (run_op op s) = qr_delivered s" "pq_deque (qr_queue (run_op op s)) = []"
        using Cons.prems Pop by (simp_all add: run_op_def Let_def closed_drains)
      then show ?thesis using IH same Nil Pop by (simp add: is_pop_def)
    next
      case (Cons x xs)
      then have "qr_delivered (run_op op s) = qr_delivered s @ [x]" "pq_deque (qr_queue (run_op op s)) = xs"
        using closed Pop by (simp_all add: run_op_def Let_def closed_drains)
      then show ?thesis using IH same Cons Pop by (simp add: is_pop_def)
    qed
  next
    case (Push x)
    then have "run_op op s = s" using Cons.prems by (simp add: run_op_def Let_def push_def)
    then show ?thesis using IH Push by (simp add: is_pop_def)
  next
    case Close
    then have "qr_delivered (run_op op s) = qr_delivered s" "pq_deque (qr_queue (run_op op s)) = pq_deque (qr_queue s)"
      by (simp_all add: run_op_def Let_def close_def)
    then show ?thesis using IH same Close by (simp add: is_pop_def)
  qed
qed simp

lemma closed_by_close:
  "pq_closed (qr_queue (run_op Close s))" "pq_deque (qr_queue (run_op Close s)) = pq_deque (qr_queue s)"
  "qr_delivered (run_op Close s) = qr_delivered s" "qr_accepted (run_op Close s) = qr_accepted s"
  "qr_lost (run_op Close s) = qr_lost s"
  by (simp_all add: run_op_def Let_def close_def)

end
