(* ===== verification/Inject.thy ===== *)
theory Inject
  imports Prelude "HOL-Library.AList"
begin

unbundle bit_operations_syntax

text \<open>
  Pen and touch injection: the types of \<^verbatim>\<open>crates/penflow-core/src/inject/mod.rs\<close> and
  \<^verbatim>\<open>inject/binding.rs\<close>, the report writer of \<^verbatim>\<open>inject/vmulti.rs\<close> and the state machine
  of \<^verbatim>\<open>inject/win_ink.rs\<close>.

  Win32 is a parameter: \<open>win32_api\<close> says whether a call succeeds, given every call before it,
  and what \<^verbatim>\<open>GetSystemMetrics\<close> reports at that moment. Each call is recorded with its outcome
  in \<open>w_log\<close>. An operation returns whether it ended in \<^verbatim>\<open>Ok\<close>, with the new state either way,
  so that what an early return leaves behind is kept.
\<close>

section \<open>Types\<close>

datatype mouse_button_kind = Left_Button | Right_Button | Middle_Button

type_synonym virtual_key = u16

datatype binding =
    No_Binding
  | Key_Tap virtual_key
  | Key_Hold "virtual_key list"
  | Key_Chord "virtual_key list"
  | Mouse_Button mouse_button_kind
  | Eraser_Toggle

record pen_button_profile =
  barrel_1 :: binding
  barrel_2 :: binding
  tertiary :: binding
  tip_threshold :: f32_bits

record pen_sample =
  ps_x :: i32
  ps_y :: i32
  ps_x_logical :: u16
  ps_y_logical :: u16
  ps_pressure :: f32_bits
  ps_tilt_x_deg :: i32
  ps_tilt_y_deg :: i32
  ps_in_range :: bool
  ps_in_contact :: bool
  ps_eraser :: bool
  ps_buttons :: u8

datatype touch_state = Touch_Down | Touch_Update | Touch_Up

record touch_point =
  tp_id :: u32
  tp_x :: i32
  tp_y :: i32
  tp_state :: touch_state

text \<open>\<^verbatim>\<open>POINTER_FLAGS\<close> as the set of its bits.\<close>

datatype pointer_flag = NEW | INRANGE | INCONTACT | FIRSTBUTTON | PRIMARY | DOWN | UPDATE | UP

record pen_frame =
  pf_flags :: "pointer_flag set"
  pf_location :: "i32 \<times> i32"
  pf_inverted :: bool
  pf_pressure :: u32
  pf_tilt_x :: i32
  pf_tilt_y :: i32

record touch_frame =
  tf_id :: u32
  tf_flags :: "pointer_flag set"
  tf_location :: "i32 \<times> i32"

datatype os_call =
    Send_Key virtual_key bool
  | Send_Mouse_Button mouse_button_kind bool
  | Send_Mouse_Move i32 i32
  | Inject_Pen_Frame pen_frame
  | Inject_Touch_Frames "touch_frame list"
  | Write_Report bytes

type_synonym os_log = "(os_call \<times> bool) list"

record win32_api =
  api_accepts :: "os_log \<Rightarrow> os_call \<Rightarrow> bool"
  api_screen :: "os_log \<Rightarrow> i32 \<times> i32 \<times> i32 \<times> i32"

section \<open>Floating-point pressure\<close>

text \<open>The pressure is an IEEE 754 binary32, here its bits. \<open>f32_clamp01\<close> is
  \<^verbatim>\<open>clamp(0.0, 1.0)\<close>, which leaves a NaN; \<open>f32_scale_round k\<close> is
  \<^verbatim>\<open>(x * k).round() as u32\<close> for \<open>x\<close> in \<open>[0, 1]\<close> or NaN: the product rounded to 24 bits, ties to
  even, then to an integer, ties away from zero; the cast of a NaN is 0.\<close>

definition f32_exp :: "f32_bits \<Rightarrow> nat" where
  "f32_exp b = unat (drop_bit 23 b AND 0xFF)"

definition f32_frac :: "f32_bits \<Rightarrow> nat" where
  "f32_frac b = unat (b AND 0x7FFFFF)"

definition f32_is_nan :: "f32_bits \<Rightarrow> bool" where
  "f32_is_nan b \<longleftrightarrow> f32_exp b = 255 \<and> f32_frac b \<noteq> 0"

definition f32_clamp01 :: "f32_bits \<Rightarrow> f32_bits" where
  "f32_clamp01 b =
     (if f32_is_nan b then b
      else if bit b 31 then if b = 0x80000000 then b else 0
      else if b > 0x3F800000 then 0x3F800000 else b)"

text \<open>A non-negative finite number is \<open>m * 2 ^ - e\<close>; here \<open>(m, e)\<close>.\<close>

definition f32_parts :: "f32_bits \<Rightarrow> nat \<times> nat" where
  "f32_parts b = (if f32_exp b = 0 then (f32_frac b, 149) else (2 ^ 23 + f32_frac b, 150 - f32_exp b))"

fun excess_bits :: "nat \<Rightarrow> nat" where
  "excess_bits m = (if m < 2 ^ 24 then 0 else Suc (excess_bits (m div 2)))"

declare excess_bits.simps [simp del]

definition round_even_24 :: "nat \<Rightarrow> nat" where
  "round_even_24 m =
     (let s = excess_bits m; q = m div 2 ^ s; r = m mod 2 ^ s in
      if 2 * r > 2 ^ s \<or> 2 * r = 2 ^ s \<and> odd q then (q + 1) * 2 ^ s else q * 2 ^ s)"

definition f32_scale_round :: "nat \<Rightarrow> f32_bits \<Rightarrow> nat" where
  "f32_scale_round k b =
     (if f32_is_nan b \<or> bit b 31 then 0
      else let (m, e) = f32_parts b in (2 * round_even_24 (m * k) + 2 ^ e) div 2 ^ Suc e)"

section \<open>State\<close>

text \<open>\<open>inj_vmulti\<close> is the report buffer of the VMulti device, when there is one. The
  \<^verbatim>\<open>HashMap\<close> of touch positions is an association list with distinct keys; its iteration
  order is an argument of \<open>inject_touch\<close>.\<close>

record injector =
  last_pen_eraser :: bool
  last_pen_in_range :: bool
  last_pen_in_contact :: bool
  pen_profile :: pen_button_profile
  last_pen_buttons :: u8
  pen_eraser_sticky :: bool
  last_touch_pos :: "(u32 \<times> (i32 \<times> i32)) list"
  inj_vmulti :: "bytes option"

record world =
  w_inj :: injector
  w_log :: os_log

type_synonym op = "world \<Rightarrow> bool \<times> world"

definition op_ok :: op where "op_ok w = (True, w)"

definition and_then :: "op \<Rightarrow> op \<Rightarrow> op" where
  "and_then f g w = (case f w of (True, w') \<Rightarrow> g w' | (False, w') \<Rightarrow> (False, w'))"

definition ignore :: "op \<Rightarrow> op" where
  "ignore f w = (True, snd (f w))"

fun each :: "('a \<Rightarrow> op) \<Rightarrow> 'a list \<Rightarrow> op" where
  "each f [] = op_ok"
| "each f (x # xs) = and_then (f x) (each f xs)"

definition perform :: "win32_api \<Rightarrow> os_call \<Rightarrow> op" where
  "perform api c w = (let s = api_accepts api (w_log w) c in (s, w\<lparr>w_log := w_log w @ [(c, s)]\<rparr>))"

definition modify_inj :: "(injector \<Rightarrow> injector) \<Rightarrow> op" where
  "modify_inj f w = (True, w\<lparr>w_inj := f (w_inj w)\<rparr>)"

section \<open>Bindings\<close>

definition VK_SHIFT :: virtual_key where "VK_SHIFT = 0x10"
definition VK_CONTROL :: virtual_key where "VK_CONTROL = 0x11"
definition VK_E :: virtual_key where "VK_E = 0x45"

definition default_profile :: pen_button_profile where
  "default_profile = \<lparr>barrel_1 = Key_Hold [VK_CONTROL], barrel_2 = Key_Hold [VK_SHIFT],
     tertiary = Key_Tap VK_E, tip_threshold = 0\<rparr>"

definition predecessor_compat :: pen_button_profile where
  "predecessor_compat = \<lparr>barrel_1 = Key_Hold [VK_CONTROL], barrel_2 = Key_Hold [VK_SHIFT],
     tertiary = Key_Tap VK_E, tip_threshold = 0\<rparr>"

definition injector_new :: "bytes option \<Rightarrow> injector" where
  "injector_new vmulti = \<lparr>last_pen_eraser = False, last_pen_in_range = False, last_pen_in_contact = False,
     pen_profile = default_profile, last_pen_buttons = 0, pen_eraser_sticky = False,
     last_touch_pos = [], inj_vmulti = vmulti\<rparr>"

definition slot_binding :: "pen_button_profile \<Rightarrow> nat \<Rightarrow> binding" where
  "slot_binding p slot = (if slot = 0 then barrel_1 p else if slot = 1 then barrel_2 p else tertiary p)"

definition send_key :: "win32_api \<Rightarrow> virtual_key \<Rightarrow> bool \<Rightarrow> op" where
  "send_key api vk down = perform api (Send_Key vk down)"

definition send_mouse_button :: "win32_api \<Rightarrow> mouse_button_kind \<Rightarrow> bool \<Rightarrow> op" where
  "send_mouse_button api kind down = perform api (Send_Mouse_Button kind down)"

text \<open>\<^verbatim>\<open>i64\<close> arithmetic on \<^verbatim>\<open>i32\<close> inputs, which cannot overflow; \<^verbatim>\<open>span - 1\<close> is \<^verbatim>\<open>i32\<close>
  and positive there.\<close>

definition normalize_absolute_mouse_coord :: "i32 \<Rightarrow> i32 \<Rightarrow> i32 \<Rightarrow> i32" where
  "normalize_absolute_mouse_coord pos origin span =
     (if span \<le>s 1 then 0
      else let max_index = sint (span - 1);
               rel = max 0 (min max_index (sint pos - sint origin)) in
        of_int ((rel * 65535 + max_index div 2) div max_index))"

definition send_mouse_move_to :: "win32_api \<Rightarrow> i32 \<Rightarrow> i32 \<Rightarrow> op" where
  "send_mouse_move_to api x y w =
     (let (vx, vy, vw, vh) = api_screen api (w_log w) in
      perform api (Send_Mouse_Move (normalize_absolute_mouse_coord x vx vw)
        (normalize_absolute_mouse_coord y vy vh)) w)"

text \<open>What one press and one release of a barrel button do.\<close>

definition press_binding :: "win32_api \<Rightarrow> binding \<Rightarrow> op" where
  "press_binding api b =
     (case b of
        No_Binding \<Rightarrow> op_ok
      | Key_Tap vk \<Rightarrow> and_then (send_key api vk True) (send_key api vk False)
      | Key_Hold keys \<Rightarrow> each (\<lambda>vk. send_key api vk True) keys
      | Key_Chord keys \<Rightarrow> and_then (each (\<lambda>vk. send_key api vk True) keys)
          (each (\<lambda>vk. send_key api vk False) (rev keys))
      | Mouse_Button kind \<Rightarrow> send_mouse_button api kind True
      | Eraser_Toggle \<Rightarrow> modify_inj (\<lambda>i. i\<lparr>pen_eraser_sticky := \<not> pen_eraser_sticky i\<rparr>))"

definition release_binding :: "win32_api \<Rightarrow> binding \<Rightarrow> op" where
  "release_binding api b =
     (case b of
        Key_Hold keys \<Rightarrow> each (\<lambda>vk. send_key api vk False) (rev keys)
      | Mouse_Button kind \<Rightarrow> send_mouse_button api kind False
      | _ \<Rightarrow> op_ok)"

text \<open>\<open>set_pen_profile\<close> ignores the result of every call it makes.\<close>

definition release_ignoring :: "win32_api \<Rightarrow> binding \<Rightarrow> op" where
  "release_ignoring api b =
     (case b of
        Key_Hold keys \<Rightarrow> each (\<lambda>vk. ignore (send_key api vk False)) (rev keys)
      | Mouse_Button kind \<Rightarrow> ignore (send_mouse_button api kind False)
      | _ \<Rightarrow> op_ok)"

definition set_pen_profile :: "win32_api \<Rightarrow> pen_button_profile \<Rightarrow> op" where
  "set_pen_profile api profile w =
     (let bits_to_release = last_pen_buttons (w_inj w); old = pen_profile (w_inj w) in
      and_then
        (each (\<lambda>slot. if bit bits_to_release slot then release_ignoring api (slot_binding old slot) else op_ok) [0, 1, 2])
        (modify_inj (\<lambda>i. i\<lparr>last_pen_buttons := 0, pen_profile := profile\<rparr>)) w)"

definition is_mouse_binding :: "binding \<Rightarrow> bool" where
  "is_mouse_binding b = (case b of Mouse_Button _ \<Rightarrow> True | _ \<Rightarrow> False)"

definition dispatch_pen_buttons :: "win32_api \<Rightarrow> pen_sample \<Rightarrow> op" where
  "dispatch_pen_buttons api sample w =
     (let now_bits = ps_buttons sample;
          prev = last_pen_buttons (w_inj w);
          pressed_now = NOT prev AND now_bits;
          released_now = prev AND NOT now_bits;
          profile = pen_profile (w_inj w);
          sync_mouse_to_pen = list_ex (\<lambda>slot. is_mouse_binding (slot_binding profile slot) \<and>
            (bit now_bits slot \<or> bit released_now slot)) [0, 1, 2] in
      and_then (if sync_mouse_to_pen then send_mouse_move_to api (ps_x sample) (ps_y sample) else op_ok)
      (and_then
        (each (\<lambda>slot. and_then
            (if bit pressed_now slot then press_binding api (slot_binding profile slot) else op_ok)
            (if bit released_now slot then release_binding api (slot_binding profile slot) else op_ok)) [0, 1, 2])
        (modify_inj (\<lambda>i. i\<lparr>last_pen_buttons := now_bits\<rparr>))) w)"

section \<open>Pen frames\<close>

definition pen_pointer_flags :: "bool \<Rightarrow> bool \<Rightarrow> bool \<Rightarrow> bool \<Rightarrow> pointer_flag set" where
  "pen_pointer_flags was_in_range was_in_contact in_range in_contact =
     (if \<not> in_range then {UP, PRIMARY}
      else
        let flags = {INRANGE, PRIMARY};
            flags = (if \<not> was_in_range then flags \<union> {NEW} else flags) in
        if in_contact then
          let flags = flags \<union> {INCONTACT, FIRSTBUTTON} in
          if was_in_contact then flags \<union> {UPDATE} else flags \<union> {DOWN}
        else if was_in_contact then flags \<union> {UP}
        else flags \<union> {UPDATE})"

definition clamp_i32 :: "i32 \<Rightarrow> i32 \<Rightarrow> i32 \<Rightarrow> i32" where
  "clamp_i32 x lo hi = (if x <s lo then lo else if hi <s x then hi else x)"

definition write_pen :: "win32_api \<Rightarrow> pen_sample \<Rightarrow> bool \<Rightarrow> op" where
  "write_pen api sample eraser w =
     (let i = w_inj w in
      if \<not> last_pen_in_range i \<and> \<not> ps_in_range sample then (True, w)
      else
        let flags = pen_pointer_flags (last_pen_in_range i) (last_pen_in_contact i)
              (ps_in_range sample) (ps_in_contact sample);
            (vx, vy, _, _) = api_screen api (w_log w) in
        perform api (Inject_Pen_Frame \<lparr>
            pf_flags = flags,
            pf_location = (ps_x sample - vx, ps_y sample - vy),
            pf_inverted = eraser,
            pf_pressure = of_nat (f32_scale_round 1024 (f32_clamp01 (ps_pressure sample))),
            pf_tilt_x = clamp_i32 (ps_tilt_x_deg sample) (- 90) 90,
            pf_tilt_y = clamp_i32 (ps_tilt_y_deg sample) (- 90) 90\<rparr>) w)"

section \<open>VMulti reports\<close>

record vmulti_pen_sample =
  vs_x :: u16
  vs_y :: u16
  vs_pressure :: u16
  vs_tilt_x_deg :: u8
  vs_tilt_y_deg :: u8
  vs_tip_down :: bool
  vs_barrel :: bool
  vs_eraser :: bool
  vs_inverted :: bool
  vs_in_range :: bool

definition REPORT_BUF_LEN :: nat where "REPORT_BUF_LEN = 65"
definition DIGI_PAYLOAD_LEN :: nat where "DIGI_PAYLOAD_LEN = 12"
definition VMULTI_HEADER_ID :: u8 where "VMULTI_HEADER_ID = 0x40"
definition REPORT_ID_EXTENDED :: u8 where "REPORT_ID_EXTENDED = 0x06"
definition VMULTI_LOGICAL_MAX :: u16 where "VMULTI_LOGICAL_MAX = 32767"
definition VMULTI_PRESSURE_MAX_EXTENDED :: u16 where "VMULTI_PRESSURE_MAX_EXTENDED = 16383"

definition vmulti_buttons :: "vmulti_pen_sample \<Rightarrow> u8" where
  "vmulti_buttons s =
     (let buttons = 0;
          buttons = (if vs_tip_down s then buttons OR push_bit 0 1 else buttons);
          buttons = (if vs_barrel s then buttons OR push_bit 1 1 else buttons);
          buttons = (if vs_eraser s then buttons OR push_bit 2 1 else buttons);
          buttons = (if vs_inverted s then buttons OR push_bit 3 1 else buttons) in
      if vs_in_range s then buttons OR push_bit 4 1 else buttons)"

text \<open>The buffer after the writes: the first twelve bytes are replaced, the rest is kept.\<close>

definition vmulti_report :: "bytes \<Rightarrow> vmulti_pen_sample \<Rightarrow> bytes" where
  "vmulti_report buf s =
     (let x = min (vs_x s) VMULTI_LOGICAL_MAX;
          y = min (vs_y s) VMULTI_LOGICAL_MAX;
          pressure = min (vs_pressure s) VMULTI_PRESSURE_MAX_EXTENDED in
      [VMULTI_HEADER_ID, of_nat (DIGI_PAYLOAD_LEN - 1), REPORT_ID_EXTENDED, vmulti_buttons s]
        @ to_le_bytes 2 x @ to_le_bytes 2 y @ to_le_bytes 2 pressure
        @ [vs_tilt_x_deg s, vs_tilt_y_deg s] @ drop DIGI_PAYLOAD_LEN buf)"

definition vmulti_sample :: "pen_sample \<Rightarrow> bool \<Rightarrow> vmulti_pen_sample" where
  "vmulti_sample sample eraser =
     \<lparr>vs_x = ps_x_logical sample, vs_y = ps_y_logical sample,
      vs_pressure = of_nat (f32_scale_round 16383 (f32_clamp01 (ps_pressure sample))),
      vs_tilt_x_deg = ucast (clamp_i32 (ps_tilt_x_deg sample) (- 90) 90),
      vs_tilt_y_deg = ucast (clamp_i32 (ps_tilt_y_deg sample) (- 90) 90),
      vs_tip_down = ps_in_contact sample, vs_barrel = False, vs_eraser = eraser,
      vs_inverted = eraser, vs_in_range = ps_in_range sample\<rparr>"

definition write_pen_vmulti :: "win32_api \<Rightarrow> pen_sample \<Rightarrow> bool \<Rightarrow> op" where
  "write_pen_vmulti api sample eraser w =
     (let buf = vmulti_report (the (inj_vmulti (w_inj w))) (vmulti_sample sample eraser) in
      perform api (Write_Report buf) (w\<lparr>w_inj := (w_inj w)\<lparr>inj_vmulti := Some buf\<rparr>\<rparr>))"

text \<open>The frames of one sample, \<open>eraser\<close> the effective eraser state; then what
  \<open>inject_pen\<close> remembers of it.\<close>

definition emit_pen :: "win32_api \<Rightarrow> pen_sample \<Rightarrow> bool \<Rightarrow> op" where
  "emit_pen api sample eraser w =
     (if inj_vmulti (w_inj w) \<noteq> None then write_pen_vmulti api sample eraser
      else and_then
        (if eraser \<noteq> last_pen_eraser (w_inj w) \<and> last_pen_in_range (w_inj w) then
           write_pen api (sample\<lparr>ps_in_range := False, ps_in_contact := False, ps_pressure := 0\<rparr>)
             (last_pen_eraser (w_inj w))
         else op_ok)
        (write_pen api sample eraser)) w"

definition remember_pen :: "pen_sample \<Rightarrow> bool \<Rightarrow> op" where
  "remember_pen sample eraser = modify_inj (\<lambda>i. i\<lparr>last_pen_eraser := eraser,
     last_pen_in_range := ps_in_range sample, last_pen_in_contact := ps_in_contact sample\<rparr>)"

definition inject_pen :: "win32_api \<Rightarrow> pen_sample \<Rightarrow> op" where
  "inject_pen api sample = and_then (dispatch_pen_buttons api sample) (\<lambda>w.
     let effective_eraser = ps_eraser sample \<or> pen_eraser_sticky (w_inj w) in
     and_then (emit_pen api sample effective_eraser) (remember_pen sample effective_eraser) w)"

section \<open>Touch frames\<close>

definition make_touch_info :: "win32_api \<Rightarrow> os_log \<Rightarrow> u32 \<Rightarrow> i32 \<Rightarrow> i32 \<Rightarrow> pointer_flag set \<Rightarrow> touch_frame" where
  "make_touch_info api log i x y flags =
     (let (vx, vy, _, _) = api_screen api log in
      \<lparr>tf_id = i, tf_flags = flags, tf_location = (x - vx, y - vy)\<rparr>)"

definition contact_flags :: "bool \<Rightarrow> bool \<Rightarrow> pointer_flag set" where
  "contact_flags was_down is_first =
     (let flags = {INRANGE, INCONTACT, FIRSTBUTTON};
          flags = (if was_down then flags \<union> {UPDATE} else flags \<union> {NEW, DOWN}) in
      if is_first then flags \<union> {PRIMARY} else flags)"

text \<open>\<open>iter\<close> is the order in which the \<^verbatim>\<open>HashMap\<close> is iterated.\<close>

definition touch_infos :: "win32_api \<Rightarrow> ((u32 \<times> (i32 \<times> i32)) list \<Rightarrow> (u32 \<times> (i32 \<times> i32)) list) \<Rightarrow>
    touch_point list \<Rightarrow> os_log \<Rightarrow> (u32 \<times> (i32 \<times> i32)) list \<Rightarrow> touch_frame list" where
  "touch_infos api iter snapshot log prev =
     map (\<lambda>(k, tp). make_touch_info api log (tp_id tp) (tp_x tp) (tp_y tp)
         (contact_flags (tp_id tp \<in> fst ` set prev) (k = 0))) (enumerate 0 snapshot) @
     map (\<lambda>(i, x, y). make_touch_info api log i x y {UP})
       (filter (\<lambda>(i, _). i \<notin> tp_id ` set snapshot) (iter prev))"

definition inject_touch :: "win32_api \<Rightarrow> ((u32 \<times> (i32 \<times> i32)) list \<Rightarrow> (u32 \<times> (i32 \<times> i32)) list) \<Rightarrow>
    touch_point list \<Rightarrow> op" where
  "inject_touch api iter snapshot w =
     (let prev = last_touch_pos (w_inj w); infos = touch_infos api iter snapshot (w_log w) prev in
      if snapshot = [] \<and> prev = [] then (True, w)
      else if infos = [] then (True, w)
      else and_then (perform api (Inject_Touch_Frames infos))
        (modify_inj (\<lambda>i. i\<lparr>last_touch_pos :=
           fold (\<lambda>tp m. AList.update (tp_id tp) (tp_x tp, tp_y tp) m) snapshot []\<rparr>)) w)"


section \<open>Runs\<close>

text \<open>The commands a session gives its injector; it goes on after a failed one.\<close>

datatype command = Sample pen_sample | Profile pen_button_profile | Touch "touch_point list"

definition run_command :: "win32_api \<Rightarrow> ((u32 \<times> (i32 \<times> i32)) list \<Rightarrow> (u32 \<times> (i32 \<times> i32)) list) \<Rightarrow>
    command \<Rightarrow> world \<Rightarrow> world" where
  "run_command api iter c w = snd (case c of
     Sample s \<Rightarrow> inject_pen api s w
   | Profile p \<Rightarrow> set_pen_profile api p w
   | Touch ts \<Rightarrow> inject_touch api iter ts w)"

definition run_commands :: "win32_api \<Rightarrow> ((u32 \<times> (i32 \<times> i32)) list \<Rightarrow> (u32 \<times> (i32 \<times> i32)) list) \<Rightarrow>
    command list \<Rightarrow> world \<Rightarrow> world" where
  "run_commands api iter cs w = fold (run_command api iter) cs w"

definition world_new :: "bytes option \<Rightarrow> world" where
  "world_new vmulti = \<lparr>w_inj = injector_new vmulti, w_log = []\<rparr>"

lemma run_commands_simps [simp]:
  "run_commands api iter [] w = w"
  "run_commands api iter (c # cs) w = run_commands api iter cs (run_command api iter c w)"
  by (simp_all add: run_commands_def)

lemma run_commands_append [simp]:
  "run_commands api iter (cs @ ds) w = run_commands api iter ds (run_commands api iter cs w)"
  by (simp add: run_commands_def)

text \<open>An invariant of every command is one of every run.\<close>

lemma run_commands_invariant:
  assumes "\<And>c w. c \<in> set cs \<Longrightarrow> I w \<Longrightarrow> I (run_command api iter c w)" "I w"
  shows "I (run_commands api iter cs w)"
  using assms by (induction cs arbitrary: w) simp_all

text \<open>Two operations after each other, and a property that both keep.\<close>

lemma and_then_assoc: "and_then (and_then f g) h = and_then f (and_then g h)"
  by (rule ext) (simp add: and_then_def split: prod.split bool.split)

definition keeps :: "(world \<Rightarrow> bool) \<Rightarrow> op \<Rightarrow> bool" where
  "keeps I f \<longleftrightarrow> (\<forall>w. I w \<longrightarrow> I (snd (f w)))"

named_theorems keeps_intros

lemma keeps_op_ok [keeps_intros]: "keeps I op_ok"
  by (simp add: keeps_def op_ok_def)

lemma keeps_and_then [keeps_intros]: "keeps I f \<Longrightarrow> keeps I g \<Longrightarrow> keeps I (and_then f g)"
  by (simp add: keeps_def and_then_def split_def split: bool.split)

lemma keeps_ignore [keeps_intros]: "keeps I f \<Longrightarrow> keeps I (ignore f)"
  by (simp add: keeps_def ignore_def)

lemma keeps_each [keeps_intros]: "(\<And>x. x \<in> set xs \<Longrightarrow> keeps I (f x)) \<Longrightarrow> keeps I (each f xs)"
  by (induction xs) (simp_all add: keeps_op_ok keeps_and_then)

lemma keeps_if [keeps_intros]: "(b \<Longrightarrow> keeps I f) \<Longrightarrow> (\<not> b \<Longrightarrow> keeps I g) \<Longrightarrow> keeps I (if b then f else g)"
  by simp

lemma keeps_modify_inj: "(\<And>w. I w \<Longrightarrow> I (w\<lparr>w_inj := f (w_inj w)\<rparr>)) \<Longrightarrow> keeps I (modify_inj f)"
  by (simp add: keeps_def modify_inj_def)

lemma keeps_perform: "(\<And>w s. I w \<Longrightarrow> I (w\<lparr>w_log := w_log w @ [(c, s)]\<rparr>)) \<Longrightarrow> keeps I (perform api c)"
  by (simp add: keeps_def perform_def Let_def)

text \<open>An operation that depends on the state it starts in.\<close>

lemma keeps_state: "(\<And>w. I w \<Longrightarrow> keeps I (f w)) \<Longrightarrow> keeps I (\<lambda>w. f w w)"
  by (simp add: keeps_def)

lemma keepsD: "keeps I f \<Longrightarrow> I w \<Longrightarrow> I (snd (f w))"
  by (simp add: keeps_def)

end
