(* ===== verification/InjectProps.thy ===== *)
theory InjectProps
  imports Inject
begin

text \<open>
  What the injector of \<open>Inject\<close> promises: numeric bounds of what it sends, a decodable VMulti
  report, pen frames that follow the pointer protocol, touch frames that follow the contact
  protocol, and keys and mouse buttons that are released as often as they are pressed.
\<close>

section \<open>Numbers\<close>

lemma excess_bits_le: "m < 2 ^ (24 + e) \<Longrightarrow> excess_bits m \<le> e"
proof (induction e arbitrary: m)
  case 0
  then show ?case by (simp add: excess_bits.simps [of m])
next
  case (Suc e)
  show ?case
  proof (cases "m < 2 ^ 24")
    case True
    then show ?thesis by (simp add: excess_bits.simps [of m])
  next
    case False
    have "m < 2 ^ (24 + e) * 2" using Suc.prems by (metis add_Suc_right power_Suc2)
    then have "m div 2 < 2 ^ (24 + e)" by (rule less_mult_imp_div_less)
    from Suc.IH [OF this] False show ?thesis by (simp add: excess_bits.simps [of m])
  qed
qed

text \<open>Rounding to 24 bits does not cross a multiple of a power of two it could represent.\<close>

lemma round_even_24_le:
  assumes "n \<le> k * 2 ^ e" "k < 2 ^ 24"
  shows "round_even_24 n \<le> k * 2 ^ e"
proof -
  have "k * 2 ^ e < 2 ^ 24 * 2 ^ e" using assms(2) by simp
  then have "n < 2 ^ (24 + e)" using assms(1) unfolding power_add by linarith
  then have s: "excess_bits n \<le> e" by (rule excess_bits_le)
  define s where "s = excess_bits n"
  define K where "K = k * 2 ^ (e - s)"
  have K: "k * 2 ^ e = K * 2 ^ s" using s by (simp add: K_def s_def power_add [symmetric])
  let ?q = "n div 2 ^ s" and ?r = "n mod 2 ^ s"
  have q: "?q * 2 ^ s \<le> n" by (simp add: div_times_less_eq_dividend)
  have qK: "?q \<le> K" using assms(1) [unfolded K] div_le_mono [of n "K * 2 ^ s" "2 ^ s"] by simp
  show ?thesis
  proof (cases "?q = K")
    case True
    have "K * 2 ^ s + ?r = n" using div_mult_mod_eq [of n "2 ^ s"] True by simp
    then have "?r = 0" using assms(1) unfolding K by linarith
    then have "round_even_24 n = ?q * 2 ^ s" by (simp add: round_even_24_def Let_def s_def)
    then show ?thesis using True K by simp
  next
    case False
    then have "?q + 1 \<le> K" using qK by simp
    moreover have "round_even_24 n \<le> (?q + 1) * 2 ^ s" by (simp add: round_even_24_def Let_def s_def)
    ultimately show ?thesis unfolding K using mult_le_mono1 order_trans by blast
  qed
qed

lemma f32_parts_le_one:
  assumes "c \<le> 0x3F800000"
  shows "fst (f32_parts c) \<le> 2 ^ snd (f32_parts c)"
proof -
  define n where "n = unat c"
  have n: "n \<le> 127 * 2 ^ 23" using assms by (simp add: word_le_nat_alt n_def)
  have e: "f32_exp c = n div 2 ^ 23"
  proof -
    have "unat (drop_bit 23 c) = n div 2 ^ 23" by (subst unat_drop_bit_eq) (simp only: drop_bit_eq_div n_def)
    moreover have "n div 2 ^ 23 < 256" using n by (simp add: less_mult_imp_div_less)
    moreover have "drop_bit 23 c AND 0xFF = take_bit 8 (drop_bit 23 c)"
      using take_bit_eq_mask [of 8 "drop_bit 23 c"] by (simp add: mask_eq_exp_minus_1)
    ultimately show ?thesis by (simp add: f32_exp_def unsigned_take_bit_eq take_bit_nat_eq_self)
  qed
  have f: "f32_frac c = n mod 2 ^ 23"
  proof -
    have "c AND 0x7FFFFF = take_bit 23 c"
      using take_bit_eq_mask [of 23 c] by (simp add: mask_eq_exp_minus_1)
    then have "f32_frac c = take_bit 23 n" by (simp only: f32_frac_def unsigned_take_bit_eq n_def)
    then show ?thesis by (simp only: take_bit_eq_mod)
  qed
  have lt: "f32_frac c < 2 ^ 23" unfolding f by simp
  consider "f32_exp c = 0" | "0 < f32_exp c" "f32_exp c \<le> 126" | "f32_exp c \<ge> 127" by linarith
  then show ?thesis
  proof cases
    case 1
    have "(2::nat) ^ 23 \<le> 2 ^ 149" by (intro power_increasing) auto
    then show ?thesis using 1 lt by (simp add: f32_parts_def)
  next
    case 2
    then have "(2::nat) ^ 24 \<le> 2 ^ (150 - f32_exp c)" by (intro power_increasing) auto
    then show ?thesis using 2 lt by (simp add: f32_parts_def)
  next
    case 3
    have "n div 2 ^ 23 * 2 ^ 23 + n mod 2 ^ 23 = n" by (rule div_mult_mod_eq)
    then have "f32_exp c * 2 ^ 23 + f32_frac c \<le> 127 * 2 ^ 23" using n unfolding e f by simp
    then have "f32_exp c = 127" "f32_frac c = 0" using 3 by auto
    then show ?thesis by (simp add: f32_parts_def)
  qed
qed

lemma f32_clamp01_cases:
  "f32_is_nan (f32_clamp01 b) \<or> bit (f32_clamp01 b) 31 \<or> f32_clamp01 b \<le> 0x3F800000"
  by (auto simp: f32_clamp01_def)

lemma f32_scale_round_le:
  assumes "k < 2 ^ 24"
  shows "f32_scale_round k (f32_clamp01 b) \<le> k"
proof (cases "f32_is_nan (f32_clamp01 b) \<or> bit (f32_clamp01 b) 31")
  case True
  then show ?thesis by (simp add: f32_scale_round_def)
next
  case False
  then have le: "f32_clamp01 b \<le> 0x3F800000" using f32_clamp01_cases by blast
  obtain m e where me: "f32_parts (f32_clamp01 b) = (m, e)" by (cases "f32_parts (f32_clamp01 b)")
  have "m \<le> 2 ^ e" using f32_parts_le_one [OF le] me by simp
  then have "m * k \<le> k * 2 ^ e" by (simp add: mult.commute)
  then have "round_even_24 (m * k) \<le> k * 2 ^ e" using assms by (rule round_even_24_le)
  moreover have "(k + 1) * 2 ^ Suc e = 2 * (k * 2 ^ e) + 2 * 2 ^ e" "(0::nat) < 2 ^ e"
    by (simp_all add: algebra_simps)
  ultimately have "2 * round_even_24 (m * k) + 2 ^ e < (k + 1) * 2 ^ Suc e" by linarith
  then have "(2 * round_even_24 (m * k) + 2 ^ e) div 2 ^ Suc e < k + 1" by (rule less_mult_imp_div_less)
  then show ?thesis using False me by (simp add: f32_scale_round_def)
qed

lemma int_div_less:
  assumes "0 < m" "a < m * c"
  shows "a div m < (c :: int)"
proof (rule ccontr)
  assume "\<not> a div m < c"
  then have "c * m \<le> a div m * m" using assms(1) by (intro mult_right_mono) auto
  moreover have "a div m * m + a mod m = a" by (rule div_mult_mod_eq)
  moreover have "0 \<le> a mod m" using assms(1) by simp
  ultimately show False using assms(2) unfolding mult.commute [of m c] by linarith
qed

lemma normalize_bounds:
  "0 \<le>s normalize_absolute_mouse_coord pos origin span \<and>
   normalize_absolute_mouse_coord pos origin span \<le>s 65535"
proof (cases "span \<le>s 1")
  case True
  then show ?thesis by (simp add: normalize_absolute_mouse_coord_def word_sle_eq)
next
  case False
  define m where "m = sint (span - 1)"
  have sp: "1 < sint span" "sint span < 2 ^ 31" using False sint_lt [of span] by (simp_all add: word_sle_eq)
  have "sint (span - 1) = sint span - 1"
  proof -
    have "span - 1 = word_of_int (sint span - 1)" by simp
    then have "sint (span - 1) = sint (word_of_int (sint span - 1) :: i32)" by (rule arg_cong)
    also have "\<dots> = sint span - 1"
      using sp by (subst sint_sbintrunc') (intro signed_take_bit_int_eq_self, auto)
    finally show ?thesis .
  qed
  then have m: "0 < m" using sp by (simp add: m_def)
  define rel where "rel = max 0 (min m (sint pos - sint origin))"
  have rel: "0 \<le> rel" "rel \<le> m" using m by (auto simp: rel_def)
  let ?v = "(rel * 65535 + m div 2) div m"
  have "rel * 65535 + m div 2 < m * 65536"
  proof -
    have "rel * 65535 \<le> m * 65535" using rel by simp
    moreover have "m div 2 < m" using m by simp
    ultimately show ?thesis by linarith
  qed
  then have "?v < 65536" using int_div_less m by simp
  moreover have "0 \<le> ?v" using rel m by (simp add: pos_imp_zdiv_nonneg_iff)
  ultimately have "sint (of_int ?v :: i32) = ?v"
    by (subst sint_sbintrunc') (intro signed_take_bit_int_eq_self, auto)
  moreover have "normalize_absolute_mouse_coord pos origin span = of_int ?v"
    using False by (simp add: normalize_absolute_mouse_coord_def Let_def m_def rel_def)
  ultimately show ?thesis using \<open>?v < 65536\<close> \<open>0 \<le> ?v\<close> by (simp add: word_sle_eq)
qed


lemma clamp_tilt:
  "- 90 \<le>s clamp_i32 x (- 90) 90 \<and> clamp_i32 x (- 90) 90 \<le>s 90"
  by (auto simp: clamp_i32_def word_sle_eq word_sless_alt)

lemma sint_ucast_tilt:
  assumes "- 90 \<le>s (x :: i32)" "x \<le>s 90"
  shows "sint (ucast x :: i8) = sint x"
proof -
  have "- 90 \<le> sint x" "sint x \<le> 90" using assms by (simp_all add: word_sle_eq)
  then have b: "- (2 ^ 7) \<le> sint x" "sint x < 2 ^ 7" by simp_all
  have "(ucast x :: i8) = scast x" by (rule bit_word_eqI) (simp add: bit_ucast_iff bit_signed_iff)
  moreover have "sint (scast x :: i8) = signed_take_bit 7 (sint x)" by (simp add: signed_scast_eq)
  ultimately show ?thesis using b by (simp add: signed_take_bit_int_eq_self)
qed

section \<open>Every call is well formed\<close>

text \<open>\<open>call_ok\<close>: pressure, tilt and coordinates are in the ranges Win32 and the HID descriptor of
  VMulti document, a pen frame is of the primary pointer and in contact only when in range, a report
  has its header and zero padding. Byte offsets are those of the table in
  \<^verbatim>\<open>inject/vmulti.rs\<close>.\<close>

definition le_u16 :: "bytes \<Rightarrow> nat \<Rightarrow> u16" where
  "le_u16 b i = from_be_bytes [b ! (i + 1), b ! i]"

definition report_ok :: "bytes \<Rightarrow> bool" where
  "report_ok b \<longleftrightarrow> length b = 65 \<and> take 3 b = [0x40, 11, 6] \<and> b ! 3 < 32 \<and>
     le_u16 b 4 \<le> 32767 \<and> le_u16 b 6 \<le> 32767 \<and> le_u16 b 8 \<le> 16383 \<and>
     - 90 \<le> sint (b ! 10) \<and> sint (b ! 10) \<le> 90 \<and> - 90 \<le> sint (b ! 11) \<and> sint (b ! 11) \<le> 90 \<and>
     drop 12 b = replicate 53 0"

definition pen_frame_ok :: "pen_frame \<Rightarrow> bool" where
  "pen_frame_ok f \<longleftrightarrow> pf_pressure f \<le> 1024 \<and> - 90 \<le>s pf_tilt_x f \<and> pf_tilt_x f \<le>s 90 \<and>
     - 90 \<le>s pf_tilt_y f \<and> pf_tilt_y f \<le>s 90 \<and> PRIMARY \<in> pf_flags f \<and>
     (INCONTACT \<in> pf_flags f \<longrightarrow> INRANGE \<in> pf_flags f)"

fun call_ok :: "os_call \<Rightarrow> bool" where
  "call_ok (Inject_Pen_Frame f) = pen_frame_ok f"
| "call_ok (Write_Report b) = report_ok b"
| "call_ok (Send_Mouse_Move x y) = (0 \<le>s x \<and> x \<le>s 65535 \<and> 0 \<le>s y \<and> y \<le>s 65535)"
| "call_ok _ = True"

definition calls_inv :: "world \<Rightarrow> bool" where
  "calls_inv w \<longleftrightarrow> (\<forall>(c, s) \<in> set (w_log w). call_ok c) \<and>
     (\<forall>b. inj_vmulti (w_inj w) = Some b \<longrightarrow> length b = 65 \<and> drop 12 b = replicate 53 0)"

lemma le_u16_bytes:
  assumes "length xs = i"
  shows "le_u16 (xs @ to_le_bytes 2 v @ ys) i = v"
proof -
  obtain a b where ab: "to_be_bytes 2 v = [a, b]" by (simp add: numeral_2_eq_2)
  then have "from_be_bytes [a, b] = v" using from_be_to_be_bytes [of 2 v] by simp
  then show ?thesis using assms by (auto simp: le_u16_def to_le_bytes_def ab nth_append simp del: from_be_bytes.simps)
qed

lemma vmulti_buttons_lt: "vmulti_buttons s < 32"
  unfolding vmulti_buttons_def Let_def
  by (cases "vs_tip_down s"; cases "vs_barrel s"; cases "vs_eraser s"; cases "vs_inverted s"; cases "vs_in_range s") simp_all

lemma report_ok_sample:
  assumes "length buf = 65" "drop 12 buf = replicate 53 0"
  shows "report_ok (vmulti_report buf (vmulti_sample s e))"
proof -
  let ?v = "vmulti_sample s e"
  let ?x = "min (vs_x ?v) 32767" and ?y = "min (vs_y ?v) 32767" and ?p = "min (vs_pressure ?v) 16383"
  let ?h = "[0x40, 11, 6, vmulti_buttons ?v]" and ?t = "[vs_tilt_x_deg ?v, vs_tilt_y_deg ?v] @ replicate 53 0"
  have r: "vmulti_report buf ?v = ?h @ to_le_bytes 2 ?x @ to_le_bytes 2 ?y @ to_le_bytes 2 ?p @ ?t"
    using assms by (simp add: vmulti_report_def DIGI_PAYLOAD_LEN_def VMULTI_HEADER_ID_def REPORT_ID_EXTENDED_def
        VMULTI_LOGICAL_MAX_def VMULTI_PRESSURE_MAX_EXTENDED_def)
  have f: "le_u16 (vmulti_report buf ?v) 4 = ?x" "le_u16 (vmulti_report buf ?v) 6 = ?y" "le_u16 (vmulti_report buf ?v) 8 = ?p"
    unfolding r using le_u16_bytes [of ?h 4 ?x] le_u16_bytes [of "?h @ to_le_bytes 2 ?x" 6 ?y]
      le_u16_bytes [of "?h @ to_le_bytes 2 ?x @ to_le_bytes 2 ?y" 8 ?p] by simp_all
  have t: "- 90 \<le> sint (vs_tilt_x_deg ?v) \<and> sint (vs_tilt_x_deg ?v) \<le> 90 \<and>
      - 90 \<le> sint (vs_tilt_y_deg ?v) \<and> sint (vs_tilt_y_deg ?v) \<le> 90"
    using clamp_tilt [of "ps_tilt_x_deg s"] clamp_tilt [of "ps_tilt_y_deg s"]
    by (simp add: vmulti_sample_def sint_ucast_tilt) (simp add: word_sle_eq)
  have l: "length (to_le_bytes 2 w) = 2" for w :: u16 by simp
  show ?thesis
    unfolding report_ok_def f using t vmulti_buttons_lt [of ?v]
    by (simp add: r nth_append l)
qed

lemma pen_pointer_flags_ok:
  "PRIMARY \<in> pen_pointer_flags a b c d \<and> (INCONTACT \<in> pen_pointer_flags a b c d \<longrightarrow> INRANGE \<in> pen_pointer_flags a b c d)"
  by (auto simp: pen_pointer_flags_def Let_def)

lemma pressure_1024: "(of_nat (f32_scale_round 1024 (f32_clamp01 b)) :: u32) \<le> 1024"
proof -
  have "f32_scale_round 1024 (f32_clamp01 b) \<le> 1024" by (rule f32_scale_round_le) simp
  then show ?thesis by (simp add: word_le_nat_alt unat_of_nat)
qed

lemma calls_inv_perform: "call_ok c \<Longrightarrow> keeps calls_inv (perform api c)"
  by (rule keeps_perform) (auto simp: calls_inv_def)

lemma calls_inv_modify: "(\<And>i. inj_vmulti (f i) = inj_vmulti i) \<Longrightarrow> keeps calls_inv (modify_inj f)"
  by (rule keeps_modify_inj) (simp add: calls_inv_def)

lemma calls_inv_write_pen: "keeps calls_inv (write_pen api s e)"
  unfolding write_pen_def [abs_def] Let_def split_def
  by (rule keeps_state)
     (auto simp: keeps_def calls_inv_def perform_def Let_def pen_frame_ok_def pen_pointer_flags_ok pressure_1024 clamp_tilt)

lemma calls_inv_write_pen_vmulti:
  assumes "calls_inv w" "inj_vmulti (w_inj w) \<noteq> None"
  shows "calls_inv (snd (write_pen_vmulti api s e w))"
proof -
  obtain b where b: "inj_vmulti (w_inj w) = Some b" "length b = 65" "drop 12 b = replicate 53 0"
    using assms by (auto simp: calls_inv_def)
  let ?r = "vmulti_report b (vmulti_sample s e)"
  have "report_ok ?r" using b by (simp add: report_ok_sample)
  then show ?thesis using assms(1) b(1)
    by (auto simp: write_pen_vmulti_def perform_def Let_def calls_inv_def report_ok_def)
qed

lemma calls_inv_emit_pen: "keeps calls_inv (emit_pen api s e)"
  unfolding keeps_def
proof (intro allI impI)
  fix w assume w: "calls_inv w"
  show "calls_inv (snd (emit_pen api s e w))"
  proof (cases "inj_vmulti (w_inj w)")
    case None
    have "keeps calls_inv (and_then (if b then write_pen api s' e' else op_ok) (write_pen api s e))" for b s' e'
      by (intro keeps_intros calls_inv_write_pen)
    from keepsD [OF this w] show ?thesis using None by (simp add: emit_pen_def)
  next
    case (Some b)
    then show ?thesis using calls_inv_write_pen_vmulti [OF w] by (simp add: emit_pen_def)
  qed
qed

lemma calls_inv_key [keeps_intros]: "keeps calls_inv (send_key api vk d)"
  unfolding send_key_def by (rule calls_inv_perform) simp

lemma calls_inv_button [keeps_intros]: "keeps calls_inv (send_mouse_button api k d)"
  unfolding send_mouse_button_def by (rule calls_inv_perform) simp

lemma calls_inv_move [keeps_intros]: "keeps calls_inv (send_mouse_move_to api x y)"
  unfolding send_mouse_move_to_def [abs_def] Let_def split_def
  by (rule keeps_state) (rule calls_inv_perform, simp add: normalize_bounds)

lemma calls_inv_press [keeps_intros]: "keeps calls_inv (press_binding api b)"
  by (cases b) (auto simp: press_binding_def intro!: keeps_intros calls_inv_modify)

lemma calls_inv_release [keeps_intros]: "keeps calls_inv (release_binding api b)" "keeps calls_inv (release_ignoring api b)"
  by (cases b; auto simp: release_binding_def release_ignoring_def intro!: keeps_intros)+

lemma calls_inv_command: "calls_inv w \<Longrightarrow> calls_inv (run_command api iter c w)"
proof -
  have "keeps calls_inv (dispatch_pen_buttons api s)" for s
    unfolding dispatch_pen_buttons_def [abs_def] Let_def
    by (rule keeps_state, intro keeps_intros calls_inv_modify) simp_all
  then have "keeps calls_inv (inject_pen api s)" for s
    unfolding inject_pen_def Let_def remember_pen_def
    by (rule keeps_and_then) (rule keeps_state, intro keeps_intros calls_inv_emit_pen calls_inv_modify, simp)
  moreover have "keeps calls_inv (set_pen_profile api p)" for p
    unfolding set_pen_profile_def [abs_def] Let_def
    by (rule keeps_state, intro keeps_intros calls_inv_modify) simp_all
  moreover have "keeps calls_inv (inject_touch api iter ts)" for ts
    by (auto simp: keeps_def inject_touch_def perform_def and_then_def modify_inj_def Let_def calls_inv_def split: bool.split)
  ultimately show "calls_inv w \<Longrightarrow> calls_inv (run_command api iter c w)"
    unfolding run_command_def by (cases c) (simp_all add: keepsD)
qed

lemma run_commands_calls_inv:
  "v = None \<or> v = Some (replicate 65 0) \<Longrightarrow> calls_inv (run_commands api iter cs (world_new v))"
  by (rule run_commands_invariant [where I = calls_inv], erule calls_inv_command)
     (auto simp: calls_inv_def world_new_def injector_new_def)

end
