(* ===== verification/InjectKeys.thy ===== *)
theory InjectKeys
  imports Inject
begin

text \<open>
  Keys and mouse buttons are released as often as they are pressed. \<open>net\<close> counts, over the
  accepted calls, the presses of an input minus its releases; \<open>held_now\<close> is what the bindings of
  the pressed barrel buttons hold down. The commands of a session keep the two equal.
\<close>

section \<open>Counting\<close>

datatype input = Key virtual_key | Button mouse_button_kind

fun call_delta :: "os_call \<Rightarrow> input \<Rightarrow> int" where
  "call_delta (Send_Key vk down) x = (if x = Key vk then if down then 1 else - 1 else 0)"
| "call_delta (Send_Mouse_Button k down) x = (if x = Button k then if down then 1 else - 1 else 0)"
| "call_delta _ x = 0"

definition net :: "os_log \<Rightarrow> input \<Rightarrow> int" where
  "net log x = sum_list (map (\<lambda>(c, s). if s then call_delta c x else 0) log)"

fun held :: "binding \<Rightarrow> input list" where
  "held (Key_Hold keys) = map Key keys"
| "held (Mouse_Button k) = [Button k]"
| "held _ = []"

definition held_count :: "binding \<Rightarrow> input \<Rightarrow> int" where
  "held_count b x = int (count_list (held b) x)"

definition held_now :: "injector \<Rightarrow> input \<Rightarrow> int" where
  "held_now i x = (\<Sum>slot\<leftarrow>[0, 1, 2]. if bit (last_pen_buttons i) slot
     then held_count (slot_binding (pen_profile i) slot) x else 0)"

fun is_input :: "os_call \<Rightarrow> bool" where
  "is_input (Send_Key _ _) = True"
| "is_input (Send_Mouse_Button _ _) = True"
| "is_input (Send_Mouse_Move _ _) = True"
| "is_input _ = False"

definition accepts_input :: "win32_api \<Rightarrow> bool" where
  "accepts_input api \<longleftrightarrow> (\<forall>log c. is_input c \<longrightarrow> api_accepts api log c)"

lemma net_append [simp]: "net (log @ log') x = net log x + net log' x"
  by (simp add: net_def)

lemma net_Nil [simp]: "net [] x = 0"
  by (simp add: net_def)

section \<open>Operations that succeed and add to the count\<close>

text \<open>\<open>adds f d\<close>: \<open>f\<close> succeeds, adds \<open>d\<close> to the count and changes no more of the
  injector than the sticky eraser.\<close>

definition adds :: "op \<Rightarrow> (input \<Rightarrow> int) \<Rightarrow> bool" where
  "adds f d \<longleftrightarrow> (\<forall>w. \<exists>w' b. f w = (True, w') \<and> (\<forall>x. net (w_log w') x = net (w_log w) x + d x) \<and>
     w_inj w' = (w_inj w)\<lparr>pen_eraser_sticky := b\<rparr>)"

named_theorems adds_intros

lemma same_sticky [simp]: "\<exists>b. i = i\<lparr>pen_eraser_sticky := b\<rparr>" for i :: injector
  by (rule exI [of _ "pen_eraser_sticky i"]) simp

lemma adds_op_ok [adds_intros]: "adds op_ok (\<lambda>_. 0)"
  unfolding adds_def op_ok_def by simp

lemma adds_and_then [adds_intros]:
  assumes "adds f d" "adds g e"
  shows "adds (and_then f g) (\<lambda>x. d x + e x)"
  unfolding adds_def
proof
  fix w
  obtain w1 b1 where 1: "f w = (True, w1)" "\<forall>x. net (w_log w1) x = net (w_log w) x + d x"
    "w_inj w1 = (w_inj w)\<lparr>pen_eraser_sticky := b1\<rparr>" using assms(1) unfolding adds_def by blast
  obtain w2 b2 where 2: "g w1 = (True, w2)" "\<forall>x. net (w_log w2) x = net (w_log w1) x + e x"
    "w_inj w2 = (w_inj w1)\<lparr>pen_eraser_sticky := b2\<rparr>" using assms(2) unfolding adds_def by blast
  have "and_then f g w = (True, w2)" using 1 2 by (simp add: and_then_def)
  moreover have "\<forall>x. net (w_log w2) x = net (w_log w) x + (d x + e x)" using 1 2 by simp
  moreover have "w_inj w2 = (w_inj w)\<lparr>pen_eraser_sticky := b2\<rparr>" using 1 2 by simp
  ultimately show "\<exists>w' b. and_then f g w = (True, w') \<and>
      (\<forall>x. net (w_log w') x = net (w_log w) x + (d x + e x)) \<and> w_inj w' = (w_inj w)\<lparr>pen_eraser_sticky := b\<rparr>"
    by blast
qed

lemma adds_cong: "adds f d \<Longrightarrow> (\<And>x. d x = e x) \<Longrightarrow> adds f e"
  by (simp add: adds_def)

lemma adds_if [adds_intros]: "(b \<Longrightarrow> adds f d) \<Longrightarrow> (\<not> b \<Longrightarrow> adds g e) \<Longrightarrow> adds (if b then f else g) (if b then d else e)"
  by simp

lemma adds_each: "(\<And>y. y \<in> set ys \<Longrightarrow> adds (f y) (d y)) \<Longrightarrow> adds (each f ys) (\<lambda>x. \<Sum>y\<leftarrow>ys. d y x)"
proof (induction ys)
  case (Cons y ys)
  then show ?case using adds_and_then [of "f y" "d y" "each f ys" "\<lambda>x. \<Sum>y\<leftarrow>ys. d y x"] by simp
qed (simp add: adds_op_ok)

lemma adds_perform:
  assumes "accepts_input api" "is_input c"
  shows "adds (perform api c) (call_delta c)"
  using assms unfolding adds_def perform_def accepts_input_def by (simp add: Let_def net_def)

lemma adds_ignore: "adds f d \<Longrightarrow> adds (ignore f) d"
  unfolding adds_def ignore_def by (metis snd_conv)

lemma sum_key_delta: "(\<Sum>vk\<leftarrow>ks. call_delta (Send_Key vk down) x) =
    (if down then 1 else - 1) * int (count_list (map Key ks) x)"
  by (induction ks) (auto simp: algebra_simps)

lemma count_list_map_rev: "count_list (map f (rev xs)) y = count_list (map f xs) y"
  by (simp add: rev_map [symmetric])

lemma adds_keys:
  assumes acc: "accepts_input api"
  shows "adds (each (\<lambda>vk. send_key api vk down) ks)
    (\<lambda>x. (if down then 1 else - 1) * int (count_list (map Key ks) x))"
  unfolding sum_key_delta [symmetric] send_key_def
  by (rule adds_each) (simp add: adds_perform [OF acc] del: call_delta.simps)

lemma adds_press:
  assumes acc: "accepts_input api"
  shows "adds (press_binding api b) (held_count b)"
proof (cases b)
  case (Key_Tap vk)
  show ?thesis unfolding Key_Tap press_binding_def send_key_def binding.case
    by (rule adds_cong [OF adds_and_then [OF adds_perform [OF acc] adds_perform [OF acc]]])
       (simp_all add: held_count_def)
next
  case (Key_Chord keys)
  show ?thesis unfolding Key_Chord press_binding_def binding.case
    by (rule adds_cong [OF adds_and_then [OF adds_keys [OF acc] adds_keys [OF acc]]]) (simp add: held_count_def count_list_map_rev)
next
  case (Key_Hold keys)
  show ?thesis unfolding Key_Hold press_binding_def binding.case
    by (rule adds_cong [OF adds_keys [OF acc]]) (simp add: held_count_def)
next
  case (Mouse_Button k)
  show ?thesis unfolding Mouse_Button press_binding_def send_mouse_button_def binding.case
    by (rule adds_cong [OF adds_perform [OF acc]]) (auto simp: held_count_def)
next
  case Eraser_Toggle
  show ?thesis unfolding Eraser_Toggle press_binding_def
    by (auto simp: adds_def modify_inj_def held_count_def)
qed (simp add: press_binding_def adds_cong [OF adds_op_ok] held_count_def)

lemma adds_release:
  assumes acc: "accepts_input api"
  shows "adds (release_binding api b) (\<lambda>x. - held_count b x)"
proof (cases b)
  case (Key_Hold keys)
  show ?thesis unfolding Key_Hold release_binding_def binding.case
    by (rule adds_cong [OF adds_keys [OF acc]]) (simp add: held_count_def count_list_map_rev)
next
  case (Mouse_Button k)
  show ?thesis unfolding Mouse_Button release_binding_def send_mouse_button_def binding.case
    by (rule adds_cong [OF adds_perform [OF acc]]) (auto simp: held_count_def)
qed (simp_all add: release_binding_def held_count_def adds_op_ok)

lemma adds_release_ignoring:
  assumes acc: "accepts_input api"
  shows "adds (release_ignoring api b) (\<lambda>x. - held_count b x)"
proof (cases b)
  case (Key_Hold keys)
  show ?thesis unfolding Key_Hold release_ignoring_def send_key_def binding.case
    by (rule adds_cong [OF adds_each [OF adds_ignore [OF adds_perform [OF acc]]]])
       (simp_all add: held_count_def count_list_map_rev sum_key_delta del: call_delta.simps)
next
  case (Mouse_Button k)
  show ?thesis unfolding Mouse_Button release_ignoring_def send_mouse_button_def binding.case
    by (rule adds_cong [OF adds_ignore [OF adds_perform [OF acc]]]) (auto simp: held_count_def)
qed (simp_all add: release_ignoring_def held_count_def adds_op_ok)


section \<open>The commands\<close>

lemma addsD: "adds f d \<Longrightarrow> \<exists>w' b. f w = (True, w') \<and> (\<forall>x. net (w_log w') x = net (w_log w) x + d x) \<and>
    w_inj w' = (w_inj w)\<lparr>pen_eraser_sticky := b\<rparr>"
  unfolding adds_def by blast

definition balanced :: "world \<Rightarrow> bool" where
  "balanced w \<longleftrightarrow> (\<forall>x. net (w_log w) x = held_now (w_inj w) x)"

lemma set_pen_profile_balanced:
  assumes acc: "accepts_input api" and bal: "balanced w"
  shows "\<exists>w'. set_pen_profile api p w = (True, w') \<and> balanced w' \<and> (\<forall>x. net (w_log w') x = 0) \<and>
    pen_profile (w_inj w') = p"
proof -
  let ?i = "w_inj w"
  let ?f = "each (\<lambda>slot. if bit (last_pen_buttons ?i) slot
      then release_ignoring api (slot_binding (pen_profile ?i) slot) else op_ok) [0, 1, 2]"
  have "adds ?f (\<lambda>x. \<Sum>slot\<leftarrow>[0, 1, 2]. (if bit (last_pen_buttons ?i) slot
      then \<lambda>x. - held_count (slot_binding (pen_profile ?i) slot) x else (\<lambda>_. 0)) x)"
    by (rule adds_each, rule adds_if) (simp_all add: adds_release_ignoring [OF acc] adds_op_ok)
  from addsD [OF this, of w] obtain w' b where w': "?f w = (True, w')" "w_inj w' = ?i\<lparr>pen_eraser_sticky := b\<rparr>"
    and n: "\<And>x. net (w_log w') x = net (w_log w) x + (\<Sum>slot\<leftarrow>[0, 1, 2]. (if bit (last_pen_buttons ?i) slot
      then \<lambda>x. - held_count (slot_binding (pen_profile ?i) slot) x else (\<lambda>_. 0)) x)" by blast
  have "net (w_log w') x = 0" for x
    using bal unfolding n balanced_def by (simp add: held_now_def)
  moreover have "set_pen_profile api p w =
      (True, w'\<lparr>w_inj := (w_inj w')\<lparr>last_pen_buttons := 0, pen_profile := p\<rparr>\<rparr>)"
    using w'(1) by (simp add: set_pen_profile_def Let_def and_then_def modify_inj_def)
  ultimately show ?thesis by (simp add: balanced_def held_now_def)
qed

lemma adds_send_mouse_move:
  "accepts_input api \<Longrightarrow> adds (send_mouse_move_to api x y) (\<lambda>_. 0)"
  unfolding adds_def send_mouse_move_to_def accepts_input_def perform_def
  by (simp add: Let_def net_def split_def)

lemma slot_balance:
  fixes a c :: u8 and f :: "input \<Rightarrow> int"
  shows "k < 8 \<Longrightarrow> (if bit (NOT a AND c) k then f else (\<lambda>_. 0)) x + (if bit (a AND NOT c) k then \<lambda>x. - f x else (\<lambda>_. 0)) x =
     (if bit c k then f x else 0) - (if bit a k then f x else 0)"
  by (simp add: bit_and_iff bit_not_iff)

lemma dispatch_balanced:
  assumes acc: "accepts_input api" and bal: "balanced w"
  shows "\<exists>w'. dispatch_pen_buttons api s w = (True, w') \<and> balanced w' \<and>
    last_pen_buttons (w_inj w') = ps_buttons s \<and> pen_profile (w_inj w') = pen_profile (w_inj w)"
proof -
  let ?i = "w_inj w"
  let ?bind = "\<lambda>slot. slot_binding (pen_profile ?i) slot"
  let ?pr = "NOT (last_pen_buttons ?i) AND ps_buttons s" and ?re = "last_pen_buttons ?i AND NOT (ps_buttons s)"
  let ?sync = "list_ex (\<lambda>slot. is_mouse_binding (?bind slot) \<and> (bit (ps_buttons s) slot \<or> bit ?re slot)) [0, 1, 2]"
  let ?m = "if ?sync then send_mouse_move_to api (ps_x s) (ps_y s) else op_ok"
  let ?e = "each (\<lambda>slot. and_then (if bit ?pr slot then press_binding api (?bind slot) else op_ok)
      (if bit ?re slot then release_binding api (?bind slot) else op_ok)) [0, 1, 2]"
  let ?d = "\<lambda>x. \<Sum>slot\<leftarrow>[0, 1, 2]. (if bit ?pr slot then held_count (?bind slot) else (\<lambda>_. 0)) x +
      (if bit ?re slot then \<lambda>x. - held_count (?bind slot) x else (\<lambda>_. 0)) x"
  have "adds ?m (if ?sync then \<lambda>_. 0 else (\<lambda>_. 0))"
    by (rule adds_if) (simp_all add: adds_send_mouse_move [OF acc] adds_op_ok)
  moreover have "adds ?e ?d"
    by (rule adds_each, rule adds_and_then; rule adds_if)
       (simp_all add: adds_press [OF acc] adds_release [OF acc] adds_op_ok)
  ultimately have "adds (and_then ?m ?e) (\<lambda>x. (if ?sync then \<lambda>_. 0 else (\<lambda>_. 0)) x + ?d x)"
    by (rule adds_and_then)
  from addsD [OF this, of w] obtain w' b where w': "and_then ?m ?e w = (True, w')" "w_inj w' = ?i\<lparr>pen_eraser_sticky := b\<rparr>"
    and n: "\<And>x. net (w_log w') x = net (w_log w) x + ?d x" by auto
  let ?w = "w'\<lparr>w_inj := (w_inj w')\<lparr>last_pen_buttons := ps_buttons s\<rparr>\<rparr>"
  have "dispatch_pen_buttons api s w = (True, ?w)"
    unfolding dispatch_pen_buttons_def Let_def and_then_assoc [symmetric]
    using w'(1) by (simp only: and_then_def [of "and_then _ _"] prod.case bool.case modify_inj_def)
  moreover have "balanced ?w"
  proof -
    have "?d x = held_now (w_inj ?w) x - held_now ?i x" for x
      unfolding held_now_def w'(2) by (simp add: slot_balance)
    then show ?thesis using bal by (simp add: balanced_def n)
  qed
  ultimately show ?thesis using w'(2) by simp
qed


text \<open>Pen frames, reports and touch frames leave the count and the buttons alone.\<close>

definition quiet :: "op \<Rightarrow> bool" where
  "quiet f \<longleftrightarrow> (\<forall>w. (\<forall>x. net (w_log (snd (f w))) x = net (w_log w) x) \<and>
     last_pen_buttons (w_inj (snd (f w))) = last_pen_buttons (w_inj w) \<and>
     pen_profile (w_inj (snd (f w))) = pen_profile (w_inj w))"

lemma quiet_balanced: "quiet f \<Longrightarrow> balanced (snd (f w)) = balanced w"
  by (simp add: quiet_def balanced_def held_now_def)

lemma quiet_and_then: "quiet f \<Longrightarrow> quiet g \<Longrightarrow> quiet (and_then f g)"
  unfolding quiet_def and_then_def by (simp add: split_def split: bool.split)

lemma quiet_op_ok: "quiet op_ok"
  by (simp add: quiet_def op_ok_def)

lemma quiet_write_pen: "quiet (write_pen api s e)"
  by (simp add: quiet_def write_pen_def perform_def Let_def net_def split_def)

lemma quiet_write_pen_vmulti: "quiet (write_pen_vmulti api s e)"
  by (simp add: quiet_def write_pen_vmulti_def perform_def Let_def net_def)

lemma quiet_inject_touch: "quiet (inject_touch api iter ts)"
  by (simp add: quiet_def inject_touch_def perform_def and_then_def modify_inj_def Let_def net_def split: bool.split)

lemma quiet_state: "(\<And>w. quiet (f w)) \<Longrightarrow> quiet (\<lambda>w. f w w)"
  by (simp add: quiet_def)

lemma quiet_emit_pen: "quiet (emit_pen api s e)"
  unfolding emit_pen_def [abs_def]
  by (rule quiet_state) (simp add: quiet_and_then quiet_op_ok quiet_write_pen quiet_write_pen_vmulti)

lemma quiet_remember_pen: "quiet (remember_pen s e)"
  by (simp add: quiet_def remember_pen_def modify_inj_def)

lemma inject_pen_balanced:
  assumes "accepts_input api" "balanced w"
  shows "balanced (snd (inject_pen api s w)) \<and> last_pen_buttons (w_inj (snd (inject_pen api s w))) = ps_buttons s"
proof -
  obtain w1 where w1: "dispatch_pen_buttons api s w = (True, w1)" "balanced w1" "last_pen_buttons (w_inj w1) = ps_buttons s"
    using dispatch_balanced [OF assms] by blast
  define g where "g = and_then (emit_pen api s (ps_eraser s \<or> pen_eraser_sticky (w_inj w1)))
      (remember_pen s (ps_eraser s \<or> pen_eraser_sticky (w_inj w1)))"
  have "quiet g" unfolding g_def by (intro quiet_and_then quiet_emit_pen quiet_remember_pen)
  moreover have "inject_pen api s w = g w1"
    using w1(1) by (simp add: inject_pen_def and_then_def [of "dispatch_pen_buttons api s"] g_def Let_def)
  ultimately show ?thesis using w1 quiet_balanced [of g w1] by (simp add: quiet_def)
qed

lemma run_command_balanced:
  assumes "accepts_input api" "balanced w"
  shows "balanced (run_command api iter c w)"
proof (cases c)
  case (Sample s)
  then show ?thesis using inject_pen_balanced [OF assms] by (simp add: run_command_def)
next
  case (Profile p)
  then show ?thesis using set_pen_profile_balanced [OF assms, of p] by (auto simp: run_command_def)
next
  case (Touch ts)
  then show ?thesis using quiet_balanced [OF quiet_inject_touch] assms by (simp add: run_command_def)
qed

lemma world_new_balanced: "balanced (world_new v)"
  by (simp add: balanced_def world_new_def injector_new_def held_now_def)

lemma run_commands_balanced:
  "accepts_input api \<Longrightarrow> balanced (run_commands api iter cs (world_new v))"
  by (rule run_commands_invariant [where I = balanced]) (auto simp: run_command_balanced world_new_balanced)

end
