(* ===== verification/InjectFrames.thy ===== *)
theory InjectFrames
  imports Inject "HOL-Library.Multiset"
begin

text \<open>
  The pointer frames the injector sends follow the contract of synthetic pointer devices. \<open>pen_step\<close>
  and \<open>touch_step\<close> are that contract as automata, over the frames Windows accepted: a pen is away,
  hovering or in contact; a touch contact goes down once, is updated while down and comes up once.
\<close>

section \<open>The pen automaton\<close>

datatype pen_phase = Away | Hover | Contact

definition pen_step :: "pen_phase \<Rightarrow> pointer_flag set \<Rightarrow> pen_phase option" where
  "pen_step ph fl = (case ph of
     Away \<Rightarrow>
       if fl = {NEW, INRANGE, PRIMARY, UPDATE} then Some Hover
       else if fl = {NEW, INRANGE, PRIMARY, INCONTACT, FIRSTBUTTON, DOWN} then Some Contact
       else None
   | Hover \<Rightarrow>
       if fl = {INRANGE, PRIMARY, UPDATE} then Some Hover
       else if fl = {INRANGE, PRIMARY, INCONTACT, FIRSTBUTTON, DOWN} then Some Contact
       else if fl = {UP, PRIMARY} then Some Away
       else None
   | Contact \<Rightarrow>
       if fl = {INRANGE, PRIMARY, INCONTACT, FIRSTBUTTON, UPDATE} then Some Contact
       else if fl = {INRANGE, PRIMARY, UP} then Some Hover
       else if fl = {UP, PRIMARY} then Some Away
       else None)"

fun pen_run :: "pen_phase \<Rightarrow> os_log \<Rightarrow> pen_phase option" where
  "pen_run ph [] = Some ph"
| "pen_run ph ((Inject_Pen_Frame f, True) # log) = Option.bind (pen_step ph (pf_flags f)) (\<lambda>ph. pen_run ph log)"
| "pen_run ph (_ # log) = pen_run ph log"

definition phase :: "bool \<Rightarrow> bool \<Rightarrow> pen_phase" where
  "phase in_range in_contact = (if \<not> in_range then Away else if in_contact then Contact else Hover)"

lemma pen_run_append: "pen_run ph (xs @ ys) = Option.bind (pen_run ph xs) (\<lambda>ph. pen_run ph ys)"
  by (induction ph xs rule: pen_run.induct) (auto split: Option.bind_split)

lemma pen_run_skip: "(\<forall>f. c \<noteq> Inject_Pen_Frame f) \<or> \<not> s \<Longrightarrow> pen_run ph [(c, s)] = Some ph"
  by (cases c; cases s) auto

lemma pen_step_flags:
  assumes "was_contact \<Longrightarrow> was_range" "c \<Longrightarrow> r" "was_range \<or> r"
  shows "pen_step (phase was_range was_contact) (pen_pointer_flags was_range was_contact r c) = Some (phase r c)"
  using assms
  by (cases was_range; cases was_contact; cases r; cases c)
     (auto simp: pen_step_def phase_def pen_pointer_flags_def Let_def doubleton_eq_iff)

section \<open>Pen frames follow it\<close>

definition no_toggle :: "pen_button_profile \<Rightarrow> bool" where
  "no_toggle p \<longleftrightarrow> Eraser_Toggle \<notin> {barrel_1 p, barrel_2 p, tertiary p}"

definition pen_inv :: "bool \<Rightarrow> world \<Rightarrow> bool" where
  "pen_inv e w \<longleftrightarrow> (let i = w_inj w in
     inj_vmulti i = None \<and> \<not> pen_eraser_sticky i \<and> no_toggle (pen_profile i) \<and>
     (last_pen_in_contact i \<longrightarrow> last_pen_in_range i) \<and> (last_pen_in_range i \<longrightarrow> last_pen_eraser i = e) \<and>
     pen_run Away (w_log w) = Some (phase (last_pen_in_range i) (last_pen_in_contact i)))"

fun pen_command_ok :: "bool \<Rightarrow> command \<Rightarrow> bool" where
  "pen_command_ok e (Sample s) \<longleftrightarrow> ps_eraser s = e \<and> (ps_in_contact s \<longrightarrow> ps_in_range s)"
| "pen_command_ok e (Profile p) \<longleftrightarrow> no_toggle p"
| "pen_command_ok e (Touch ts) \<longleftrightarrow> True"

lemma slot_no_toggle: "no_toggle p \<Longrightarrow> slot_binding p slot \<noteq> Eraser_Toggle"
  by (auto simp: no_toggle_def slot_binding_def)

lemma pen_inv_perform: "(\<forall>f. c \<noteq> Inject_Pen_Frame f) \<Longrightarrow> keeps (pen_inv e) (perform api c)"
  by (rule keeps_perform) (simp add: pen_inv_def Let_def pen_run_append pen_run_skip)

lemma pen_inv_input [keeps_intros]:
  "keeps (pen_inv e) (send_key api vk d)" "keeps (pen_inv e) (send_mouse_button api k d)"
  unfolding send_key_def send_mouse_button_def by (rule pen_inv_perform, simp)+

lemma pen_inv_move [keeps_intros]: "keeps (pen_inv e) (send_mouse_move_to api x y)"
  unfolding send_mouse_move_to_def [abs_def] Let_def split_def
  by (rule keeps_state, rule pen_inv_perform) simp

lemma pen_inv_press [keeps_intros]: "b \<noteq> Eraser_Toggle \<Longrightarrow> keeps (pen_inv e) (press_binding api b)"
  by (cases b) (auto simp: press_binding_def intro!: keeps_intros)

lemma pen_inv_release [keeps_intros]: "keeps (pen_inv e) (release_binding api b)" "keeps (pen_inv e) (release_ignoring api b)"
  by (cases b; auto simp: release_binding_def release_ignoring_def intro!: keeps_intros)+

lemma pen_inv_dispatch: "keeps (pen_inv e) (dispatch_pen_buttons api s)"
  unfolding dispatch_pen_buttons_def [abs_def] Let_def
proof (rule keeps_state, intro keeps_intros)
  fix w slot assume "pen_inv e w"
  then show "slot_binding (pen_profile (w_inj w)) slot \<noteq> Eraser_Toggle"
    by (intro slot_no_toggle) (simp add: pen_inv_def Let_def)
next
  show "keeps (pen_inv e) (modify_inj (\<lambda>i. i\<lparr>last_pen_buttons := ps_buttons s\<rparr>))"
    by (rule keeps_modify_inj) (simp add: pen_inv_def Let_def)
qed

lemma pen_inv_write_pen:
  assumes inv: "pen_inv e w" and s: "ps_in_contact s \<longrightarrow> ps_in_range s" and r: "write_pen api s e w = (r, w')"
  shows "if r then w_inj w' = w_inj w \<and> pen_run Away (w_log w') = Some (phase (ps_in_range s) (ps_in_contact s))
    else pen_inv e w'"
proof (cases "\<not> last_pen_in_range (w_inj w) \<and> \<not> ps_in_range s")
  case True
  then show ?thesis using inv r s by (auto simp: write_pen_def pen_inv_def Let_def phase_def)
next
  case False
  let ?i = "w_inj w"
  let ?fl = "pen_pointer_flags (last_pen_in_range ?i) (last_pen_in_contact ?i) (ps_in_range s) (ps_in_contact s)"
  obtain f where w: "write_pen api s e w = perform api (Inject_Pen_Frame f) w" "pf_flags f = ?fl"
    using False by (auto simp: write_pen_def Let_def split_def)
  have i: "pen_run Away (w_log w) = Some (phase (last_pen_in_range ?i) (last_pen_in_contact ?i))"
    "last_pen_in_contact ?i \<longrightarrow> last_pen_in_range ?i" using inv by (simp_all add: pen_inv_def Let_def)
  have "pen_step (phase (last_pen_in_range ?i) (last_pen_in_contact ?i)) ?fl = Some (phase (ps_in_range s) (ps_in_contact s))"
    by (rule pen_step_flags) (use i s False in auto)
  then have go: "pen_run Away (w_log w @ [(Inject_Pen_Frame f, True)]) = Some (phase (ps_in_range s) (ps_in_contact s))"
    by (simp add: pen_run_append i w(2))
  show ?thesis
  proof (cases r)
    case True
    then show ?thesis using r w(1) go by (auto simp: perform_def Let_def)
  next
    case False
    then show ?thesis using r w(1) inv by (auto simp: perform_def Let_def pen_inv_def pen_run_append)
  qed
qed

lemma pen_inv_command:
  assumes inv: "pen_inv e w" and ok: "pen_command_ok e c"
  shows "pen_inv e (run_command api iter c w)"
proof (cases c)
  case (Sample s)
  obtain b w1 where d: "dispatch_pen_buttons api s w = (b, w1)" by (cases "dispatch_pen_buttons api s w")
  have inv1: "pen_inv e w1" using keepsD [OF pen_inv_dispatch inv, of api s] d by simp
  show ?thesis
  proof (cases b)
    case False
    then show ?thesis using d inv1 Sample by (simp add: run_command_def inject_pen_def and_then_def)
  next
    case True
    obtain r w2 where r: "write_pen api s e w1 = (r, w2)" by (cases "write_pen api s e w1")
    have eff: "(ps_eraser s \<or> pen_eraser_sticky (w_inj w1)) = e" "inj_vmulti (w_inj w1) = None"
      "\<not> (e \<noteq> last_pen_eraser (w_inj w1) \<and> last_pen_in_range (w_inj w1))"
      using inv1 ok Sample by (auto simp: pen_inv_def Let_def)
    have em: "emit_pen api s e w1 = (r, w2)" using eff r by (auto simp: emit_pen_def and_then_def op_ok_def)
    have run: "run_command api iter c w = snd (and_then (emit_pen api s e) (remember_pen s e) w1)"
      using d True Sample by (simp add: run_command_def inject_pen_def and_then_def [of "dispatch_pen_buttons api s"] Let_def eff)
    have s: "ps_in_contact s \<longrightarrow> ps_in_range s" using ok Sample by simp
    from pen_inv_write_pen [OF inv1 s r] show ?thesis
      using inv1 s unfolding run by (cases r) (auto simp: and_then_def em remember_pen_def modify_inj_def pen_inv_def Let_def)
  qed
next
  case (Profile p)
  have "keeps (pen_inv e) (set_pen_profile api p)"
    unfolding set_pen_profile_def [abs_def] Let_def
  proof (rule keeps_state, intro keeps_intros)
    show "keeps (pen_inv e) (modify_inj (\<lambda>i. i\<lparr>last_pen_buttons := 0, pen_profile := p\<rparr>))"
      by (rule keeps_modify_inj) (use ok Profile in \<open>simp add: pen_inv_def Let_def\<close>)
  qed
  then show ?thesis using inv Profile by (simp add: run_command_def keepsD)
next
  case (Touch ts)
  then show ?thesis using inv
    by (auto simp: run_command_def inject_touch_def perform_def and_then_def modify_inj_def Let_def pen_inv_def
        pen_run_append pen_run_skip split: bool.split)
qed

lemma pen_inv_new: "pen_inv e (world_new None)"
  by (simp add: pen_inv_def world_new_def injector_new_def default_profile_def no_toggle_def phase_def)

lemma run_commands_pen_inv:
  "\<forall>c \<in> set cs. pen_command_ok e c \<Longrightarrow> pen_inv e (run_commands api iter cs (world_new None))"
  by (rule run_commands_invariant [where I = "pen_inv e"]) (auto intro: pen_inv_command pen_inv_new)


section \<open>The eraser\<close>

text \<open>When the eraser state changes while the pen is in range, the old pointer is lifted before the
  sample is sent with the new state. The lift carries the sample's own position, and the frame after
  it is that of a pen that had not left.\<close>

lemma eraser_flip:
  assumes "last_pen_in_range (w_inj w)" "last_pen_eraser (w_inj w) \<noteq> e" "inj_vmulti (w_inj w) = None"
  shows "\<exists>flush frame. w_log (snd (emit_pen \<lparr>api_accepts = \<lambda>_ _. True, api_screen = \<lambda>_. scr\<rparr> s e w)) =
      w_log w @ [(Inject_Pen_Frame flush, True), (Inject_Pen_Frame frame, True)] \<and>
    pf_flags flush = {UP, PRIMARY} \<and> pf_inverted flush = last_pen_eraser (w_inj w) \<and> pf_pressure flush = 0 \<and>
    pf_location flush = pf_location frame \<and> pf_inverted frame = e \<and> NEW \<notin> pf_flags frame"
proof -
  have z: "f32_scale_round 1024 (f32_clamp01 0) = 0"
    by (simp add: f32_scale_round_def f32_clamp01_def f32_is_nan_def f32_exp_def f32_frac_def f32_parts_def
        round_even_24_def Let_def excess_bits.simps [of 0])
  show ?thesis
    using assms
    by (simp add: emit_pen_def and_then_def write_pen_def perform_def Let_def split_def z)
       (simp add: pen_pointer_flags_def Let_def)
qed

section \<open>The touch automaton\<close>

text \<open>The contacts that are down, by id.\<close>

definition touch_step :: "u32 set \<Rightarrow> touch_frame \<Rightarrow> u32 set option" where
  "touch_step A f =
     (if tf_flags f = {UP} then if tf_id f \<in> A then Some (A - {tf_id f}) else None
      else if tf_flags f - {PRIMARY} = {INRANGE, INCONTACT, FIRSTBUTTON, NEW, DOWN} then
        if tf_id f \<in> A then None else Some (insert (tf_id f) A)
      else if tf_flags f - {PRIMARY} = {INRANGE, INCONTACT, FIRSTBUTTON, UPDATE} then
        if tf_id f \<in> A then Some A else None
      else None)"

fun touch_frames :: "u32 set \<Rightarrow> touch_frame list \<Rightarrow> u32 set option" where
  "touch_frames A [] = Some A"
| "touch_frames A (f # fs) = Option.bind (touch_step A f) (\<lambda>A. touch_frames A fs)"

fun touch_run :: "u32 set \<Rightarrow> os_log \<Rightarrow> u32 set option" where
  "touch_run A [] = Some A"
| "touch_run A ((Inject_Touch_Frames fs, True) # log) = Option.bind (touch_frames A fs) (\<lambda>A. touch_run A log)"
| "touch_run A (_ # log) = touch_run A log"

lemma touch_run_append: "touch_run A (xs @ ys) = Option.bind (touch_run A xs) (\<lambda>A. touch_run A ys)"
  by (induction A xs rule: touch_run.induct) (auto split: Option.bind_split)

lemma touch_frames_append: "touch_frames A (xs @ ys) = Option.bind (touch_frames A xs) (\<lambda>A. touch_frames A ys)"
  by (induction A xs rule: touch_frames.induct) (auto split: Option.bind_split)

lemma touch_run_skip: "(\<forall>fs. c \<noteq> Inject_Touch_Frames fs) \<or> \<not> s \<Longrightarrow> touch_run A [(c, s)] = Some A"
  by (cases c; cases s) auto

lemma touch_step_contact:
  "touch_step A (make_touch_info api log i x y (contact_flags was_down first)) =
     (if was_down then if i \<in> A then Some A else None else if i \<in> A then None else Some (insert i A))"
  by (cases was_down; cases first)
     (auto simp: touch_step_def make_touch_info_def contact_flags_def Let_def split_def)

lemma touch_step_up:
  "touch_step A (make_touch_info api log i x y {UP}) = (if i \<in> A then Some (A - {i}) else None)"
  by (simp add: touch_step_def make_touch_info_def Let_def split_def)

lemma touch_frames_contacts:
  assumes "distinct (map tp_id ts)" "\<And>tp. tp \<in> set ts \<Longrightarrow> tp_id tp \<in> A \<longleftrightarrow> tp_id tp \<in> P"
  shows "touch_frames A (map (\<lambda>(k, tp). make_touch_info api log (tp_id tp) (tp_x tp) (tp_y tp)
      (contact_flags (tp_id tp \<in> P) (k = 0))) (enumerate n ts)) = Some (A \<union> tp_id ` set ts)"
  using assms
proof (induction ts arbitrary: A n)
  case (Cons t ts)
  have "touch_step A (make_touch_info api log (tp_id t) (tp_x t) (tp_y t) (contact_flags (tp_id t \<in> P) (n = 0)))
      = Some (insert (tp_id t) A)"
    using Cons.prems(2) [of t] by (auto simp: touch_step_contact insert_absorb)
  moreover have "tp_id u \<in> insert (tp_id t) A \<longleftrightarrow> tp_id u \<in> P" if "u \<in> set ts" for u
    using Cons.prems that by (auto simp: image_iff)
  ultimately show ?case using Cons.IH [of "insert (tp_id t) A" "Suc n"] Cons.prems(1) by simp
qed simp

lemma touch_frames_lost:
  "distinct (map fst xs) \<Longrightarrow> fst ` set xs \<subseteq> A \<Longrightarrow>
   touch_frames A (map (\<lambda>(i, x, y). make_touch_info api log i x y {UP}) xs) = Some (A - fst ` set xs)"
proof (induction xs arbitrary: A)
  case (Cons p xs)
  then have "fst p \<notin> fst ` set xs" by simp
  moreover from this have "fst ` set xs \<subseteq> A - {fst p}"
    using Cons.prems unfolding list.set image_insert by blast
  ultimately show ?case using Cons
    by (cases p) (simp add: touch_step_up Diff_insert2 [symmetric])
qed simp

definition touch_inv :: "world \<Rightarrow> bool" where
  "touch_inv w \<longleftrightarrow> distinct (map fst (last_touch_pos (w_inj w))) \<and>
     touch_run {} (w_log w) = Some (fst ` set (last_touch_pos (w_inj w)))"

lemma touch_infos_run:
  assumes "distinct (map tp_id ts)" "distinct (map fst prev)" "\<And>m. mset (iter m) = mset m"
  shows "touch_frames (fst ` set prev) (touch_infos api iter ts log prev) = Some (tp_id ` set ts)"
proof -
  let ?ids = "tp_id ` set ts" and ?P = "fst ` set prev"
  let ?lost = "filter (\<lambda>(i, _). i \<notin> ?ids) (iter prev)"
  have it: "set (iter prev) = set prev" "distinct (map fst (iter prev))"
    using assms(2,3) by (metis set_mset_mset, metis distinct_map mset_map mset_eq_imp_distinct_iff)
  have l: "distinct (map fst ?lost)" using it(2) by (simp add: distinct_map_filter)
  have "fst ` set ?lost = ?P - ?ids" using it(1) by force
  moreover from this have "touch_frames (?P \<union> ?ids) (map (\<lambda>(i, x, y). make_touch_info api log i x y {UP}) ?lost)
      = Some (?P \<union> ?ids - fst ` set ?lost)" by (intro touch_frames_lost l) auto
  ultimately show ?thesis
    unfolding touch_infos_def touch_frames_append
    by (subst touch_frames_contacts [OF assms(1)]) (auto intro: arg_cong [of _ _ Some])
qed

lemma touch_positions:
  "distinct (map fst m) \<Longrightarrow>
   distinct (map fst (fold (\<lambda>tp m. AList.update (tp_id tp) (tp_x tp, tp_y tp) m) ts m)) \<and>
   fst ` set (fold (\<lambda>tp m. AList.update (tp_id tp) (tp_x tp, tp_y tp) m) ts m) = fst ` set m \<union> tp_id ` set ts"
proof (induction ts arbitrary: m)
  case (Cons t ts)
  let ?m = "AList.update (tp_id t) (tp_x t, tp_y t) m"
  have "distinct (map fst ?m)" using Cons.prems by (rule distinct_update)
  moreover have "fst ` set ?m = insert (tp_id t) (fst ` set m)"
    using arg_cong [OF update_keys [of "tp_id t" "(tp_x t, tp_y t)" m], of set] by (auto simp: insert_absorb)
  ultimately show ?case using Cons.IH [of ?m] by auto
qed simp

fun touch_command_ok :: "command \<Rightarrow> bool" where
  "touch_command_ok (Touch ts) \<longleftrightarrow> distinct (map tp_id ts)"
| "touch_command_ok _ \<longleftrightarrow> True"

lemma touch_inv_perform: "(\<forall>fs. c \<noteq> Inject_Touch_Frames fs) \<Longrightarrow> keeps touch_inv (perform api c)"
  by (rule keeps_perform) (simp add: touch_inv_def touch_run_append touch_run_skip)

lemma touch_inv_modify: "(\<And>i. last_touch_pos (f i) = last_touch_pos i) \<Longrightarrow> keeps touch_inv (modify_inj f)"
  by (rule keeps_modify_inj) (simp add: touch_inv_def)

lemma touch_inv_input [keeps_intros]:
  "keeps touch_inv (send_key api vk d)" "keeps touch_inv (send_mouse_button api k d)"
  unfolding send_key_def send_mouse_button_def by (rule touch_inv_perform, simp)+

lemma touch_inv_move [keeps_intros]: "keeps touch_inv (send_mouse_move_to api x y)"
  unfolding send_mouse_move_to_def [abs_def] Let_def split_def
  by (rule keeps_state, rule touch_inv_perform) simp

lemma touch_inv_press [keeps_intros]: "keeps touch_inv (press_binding api b)"
  by (cases b) (auto simp: press_binding_def intro!: keeps_intros touch_inv_modify)

lemma touch_inv_release [keeps_intros]: "keeps touch_inv (release_binding api b)" "keeps touch_inv (release_ignoring api b)"
  by (cases b; auto simp: release_binding_def release_ignoring_def intro!: keeps_intros)+

lemma touch_inv_write_pen [keeps_intros]: "keeps touch_inv (write_pen api s e)"
  by (auto simp: keeps_def write_pen_def perform_def Let_def split_def touch_inv_def touch_run_append touch_run_skip)

lemma touch_inv_write_pen_vmulti [keeps_intros]: "keeps touch_inv (write_pen_vmulti api s e)"
  by (auto simp: keeps_def write_pen_vmulti_def perform_def Let_def touch_inv_def touch_run_append touch_run_skip)

lemma touch_inv_inject_pen: "keeps touch_inv (inject_pen api s)"
proof -
  have "keeps touch_inv (dispatch_pen_buttons api s)"
    unfolding dispatch_pen_buttons_def [abs_def] Let_def
    by (rule keeps_state, intro keeps_intros touch_inv_modify) simp_all
  moreover have "keeps touch_inv (emit_pen api s e)" for e
    unfolding emit_pen_def [abs_def] by (rule keeps_state, intro keeps_intros)
  moreover have "keeps touch_inv (remember_pen s e)" for e
    unfolding remember_pen_def by (rule touch_inv_modify) simp
  ultimately show ?thesis
    unfolding inject_pen_def Let_def by (intro keeps_and_then) (assumption, rule keeps_state, intro keeps_and_then)
qed

lemma touch_inv_inject_touch:
  assumes "distinct (map tp_id ts)" "\<And>m. mset (iter m) = mset m" "touch_inv w"
  shows "touch_inv (snd (inject_touch api iter ts w))"
proof -
  let ?prev = "last_touch_pos (w_inj w)" and ?m = "fold (\<lambda>tp m. AList.update (tp_id tp) (tp_x tp, tp_y tp) m) ts []"
  have inv: "distinct (map fst ?prev)" "touch_run {} (w_log w) = Some (fst ` set ?prev)"
    using assms(3) by (simp_all add: touch_inv_def)
  have "distinct (map fst ?m)" "fst ` set ?m = tp_id ` set ts" using touch_positions [of "[]" ts] by simp_all
  moreover have "touch_run {} (w_log w @ [(Inject_Touch_Frames (touch_infos api iter ts (w_log w) ?prev), True)]) =
      Some (tp_id ` set ts)"
    using touch_infos_run [OF assms(1) inv(1) assms(2)] inv(2) by (simp add: touch_run_append)
  ultimately show ?thesis
    using assms(3) by (auto simp: inject_touch_def and_then_def perform_def modify_inj_def Let_def touch_inv_def touch_run_append split: bool.split)
qed

lemma touch_inv_command:
  assumes "touch_command_ok c" "\<And>m. mset (iter m) = mset m" "touch_inv w"
  shows "touch_inv (run_command api iter c w)"
proof (cases c)
  case (Sample s)
  then show ?thesis using keepsD [OF touch_inv_inject_pen assms(3)] by (simp add: run_command_def)
next
  case (Profile p)
  have "keeps touch_inv (set_pen_profile api p)"
    unfolding set_pen_profile_def [abs_def] Let_def
    by (rule keeps_state, intro keeps_intros touch_inv_modify) simp_all
  then show ?thesis using assms(3) Profile by (simp add: run_command_def keepsD)
next
  case (Touch ts)
  then show ?thesis using touch_inv_inject_touch [of ts iter w api] assms by (simp add: run_command_def)
qed

lemma touch_inv_new: "touch_inv (world_new v)"
  by (simp add: touch_inv_def world_new_def injector_new_def)

lemma run_commands_touch_inv:
  "\<forall>c \<in> set cs. touch_command_ok c \<Longrightarrow> (\<And>m. mset (iter m) = mset m) \<Longrightarrow>
   touch_inv (run_commands api iter cs (world_new v))"
  by (rule run_commands_invariant [where I = touch_inv])
     (auto intro: touch_inv_command touch_inv_new)

end
