(* ===== verification/F32.thy ===== *)
theory F32
  imports Prelude Complex_Main "HOL-Library.Log_Nat"
begin

text \<open>
  The part of Rust's \<^verbatim>\<open>f32\<close> the host computes coordinates with: IEEE 754 binary32 with
  rounding to nearest, ties to even. A finite number is its exact value, a rational; the two zeros
  are one value, which no operation used here tells apart.

  \<open>rnd\<close> rounds a rational to 24 significant bits (fewer below \<open>2 ^ - 126\<close>); the lemmas say that
  it picks a nearest representable number, so that representable bounds are kept.
\<close>

unbundle bit_operations_syntax

section \<open>Model\<close>

datatype f32 = NaN | Inf bool | Fin rat

definition f32_of_bits :: "f32_bits \<Rightarrow> f32" where
  "f32_of_bits b =
     (let s = bit b 31; e = unat (drop_bit 23 b AND 0xFF); m = unat (b AND 0x7FFFFF);
          sg = (if s then - 1 else 1 :: rat) in
      if e = 255 then (if m = 0 then Inf s else NaN)
      else if e = 0 then Fin (sg * of_nat m * 2 powi - 149)
      else Fin (sg * of_nat (2 ^ 23 + m) * 2 powi (int e - 150)))"

text \<open>\<open>ilog2 x\<close> is the exponent of the binade of a positive \<open>x\<close>.\<close>

definition ilog2 :: "rat \<Rightarrow> int" where
  "ilog2 x =
     (let (a, b) = quotient_of x; k = int (floorlog 2 (nat a)) - int (floorlog 2 (nat b)) in
      if 2 powi k \<le> x then k else k - 1)"

definition ulp_exp :: "rat \<Rightarrow> int" where
  "ulp_exp x = max (- 149) (ilog2 \<bar>x\<bar> - 23)"

definition round_half_even :: "rat \<Rightarrow> int" where
  "round_half_even x =
     (let q = \<lfloor>x\<rfloor>; r = x - of_int q in if r < 1 / 2 \<or> r = 1 / 2 \<and> even q then q else q + 1)"

definition rnd :: "rat \<Rightarrow> rat" where
  "rnd x = (if x = 0 then 0 else of_int (round_half_even (x / 2 powi ulp_exp x)) * 2 powi ulp_exp x)"

definition f32_make :: "rat \<Rightarrow> f32" where
  "f32_make x = (if \<bar>rnd x\<bar> \<ge> 2 ^ 128 then Inf (x < 0) else Fin (rnd x))"

definition f32_of_int :: "int \<Rightarrow> f32" where
  "f32_of_int k = f32_make (of_int k)"

fun f32_neg :: "f32 \<Rightarrow> f32" where
  "f32_neg (Fin x) = Fin (- x)"
| "f32_neg (Inf s) = Inf (\<not> s)"
| "f32_neg NaN = NaN"

fun f32_add :: "f32 \<Rightarrow> f32 \<Rightarrow> f32" where
  "f32_add (Fin x) (Fin y) = f32_make (x + y)"
| "f32_add (Inf s) (Fin y) = Inf s"
| "f32_add (Fin x) (Inf s) = Inf s"
| "f32_add (Inf s) (Inf t) = (if s = t then Inf s else NaN)"
| "f32_add _ _ = NaN"

fun f32_mul :: "f32 \<Rightarrow> f32 \<Rightarrow> f32" where
  "f32_mul (Fin x) (Fin y) = f32_make (x * y)"
| "f32_mul (Inf s) (Fin y) = (if y = 0 then NaN else Inf (s \<noteq> (y < 0)))"
| "f32_mul (Fin x) (Inf s) = (if x = 0 then NaN else Inf (s \<noteq> (x < 0)))"
| "f32_mul (Inf s) (Inf t) = Inf (s \<noteq> t)"
| "f32_mul _ _ = NaN"

text \<open>Division by a number that is not zero.\<close>

fun f32_div :: "f32 \<Rightarrow> f32 \<Rightarrow> f32" where
  "f32_div (Fin x) (Fin y) = (if y = 0 then NaN else f32_make (x / y))"
| "f32_div (Inf s) (Fin y) = Inf (s \<noteq> (y < 0))"
| "f32_div (Fin x) (Inf s) = Fin 0"
| "f32_div _ _ = NaN"

text \<open>\<^verbatim>\<open>clamp\<close> with finite bounds, \<^verbatim>\<open>round\<close> (ties away from zero) followed by a saturating
  cast to an integer range.\<close>

fun f32_clamp :: "rat \<Rightarrow> rat \<Rightarrow> f32 \<Rightarrow> f32" where
  "f32_clamp lo hi (Fin x) = Fin (if x < lo then lo else if x > hi then hi else x)"
| "f32_clamp lo hi (Inf s) = Fin (if s then lo else hi)"
| "f32_clamp lo hi NaN = NaN"

definition round_half_away :: "rat \<Rightarrow> int" where
  "round_half_away x = (if x < 0 then - \<lfloor>- x + 1 / 2\<rfloor> else \<lfloor>x + 1 / 2\<rfloor>)"

fun f32_round_cast :: "int \<Rightarrow> int \<Rightarrow> f32 \<Rightarrow> int" where
  "f32_round_cast lo hi (Fin x) = max lo (min hi (round_half_away x))"
| "f32_round_cast lo hi (Inf s) = (if s then lo else hi)"
| "f32_round_cast lo hi NaN = 0"

section \<open>Rounding is to nearest\<close>

lemma powi_pos [simp]: "0 < (2 :: rat) powi e"
  by simp

lemma powi_mono: "a \<le> b \<Longrightarrow> (2 :: rat) powi a \<le> 2 powi b"
  by (rule power_int_increasing) simp_all

lemma powi_split: "b \<le> a \<Longrightarrow> (2 :: rat) powi a = of_int (2 ^ nat (a - b)) * 2 powi b"
  using power_int_add [of "2 :: rat" "a - b" b] by (simp add: power_int_def)

lemma ilog2_bounds:
  assumes "0 < x"
  shows "2 powi ilog2 x \<le> x" "x < 2 powi (ilog2 x + 1)"
proof -
  obtain a b where ab: "quotient_of x = (a, b)" by (cases "quotient_of x")
  have b: "0 < b" using quotient_of_denom_pos [OF ab] .
  have x: "x = of_int a / of_int b" using quotient_of_div [OF ab] .
  then have a: "0 < a" using assms b by (simp add: zero_less_divide_iff)
  define la where "la = int (floorlog 2 (nat a))"
  define lb where "lb = int (floorlog 2 (nat b))"
  have fl: "(2 :: rat) powi (int (floorlog 2 (nat n)) - 1) \<le> of_int n \<and> of_int n < (2 :: rat) powi int (floorlog 2 (nat n))"
    if n: "0 < n" for n
  proof -
    have "2 ^ (floorlog 2 (nat n) - 1) \<le> nat n \<and> nat n < 2 ^ floorlog 2 (nat n)"
      using floorlog_bounds [of "nat n" 2] n by simp
    moreover have "1 \<le> floorlog 2 (nat n)" using n by (simp add: floorlog_def)
    ultimately have "(2 ^ (floorlog 2 (nat n) - 1) :: rat) \<le> of_nat (nat n)" "of_nat (nat n) < (2 ^ floorlog 2 (nat n) :: rat)"
      by (metis of_nat_le_iff of_nat_numeral of_nat_power, metis of_nat_less_iff of_nat_numeral of_nat_power)
    moreover have "(2 :: rat) powi (int (floorlog 2 (nat n)) - 1) = 2 ^ (floorlog 2 (nat n) - 1)"
      using \<open>1 \<le> floorlog 2 (nat n)\<close> by (simp add: power_int_def nat_diff_distrib)
    ultimately show ?thesis using n by (simp add: power_int_def)
  qed
  have A: "2 powi (la - 1) \<le> (of_int a :: rat)" "of_int a < (2 :: rat) powi la" using fl [OF a] by (simp_all add: la_def)
  have B: "2 powi (lb - 1) \<le> (of_int b :: rat)" "of_int b < (2 :: rat) powi lb" using fl [OF b] by (simp_all add: lb_def)
  have bp: "(0 :: rat) < of_int b" using b by simp
  have "x < 2 powi la / 2 powi (lb - 1)"
    unfolding x using A(2) B(1) bp a by (intro frac_less) auto
  then have up: "x < 2 powi (la - lb + 1)" by (simp add: power_int_diff power_int_add)
  have "2 powi (la - 1) / 2 powi lb \<le> x"
    unfolding x using A(1) B(2) bp a by (intro frac_le) auto
  then have lo: "2 powi (la - lb - 1) \<le> x" by (simp add: power_int_diff mult.commute)
  have e: "ilog2 x = (if 2 powi (la - lb) \<le> x then la - lb else la - lb - 1)"
    by (simp add: ilog2_def ab la_def lb_def)
  show "2 powi ilog2 x \<le> x" using lo by (simp add: e)
  show "x < 2 powi (ilog2 x + 1)" using up by (simp add: e)
qed

lemma round_half_even_nearest: "\<bar>of_int (round_half_even x) - x\<bar> \<le> \<bar>of_int k - x\<bar>"
proof -
  define q where "q = \<lfloor>x\<rfloor>"
  have q: "of_int q \<le> x" "x < of_int q + 1" using floor_correct [of x] by (simp_all add: q_def)
  consider "k \<le> q" | "q + 1 \<le> k" by linarith
  then show ?thesis
  proof cases
    case 1
    then have "(of_int k :: rat) \<le> of_int q" by simp
    then show ?thesis using q by (auto simp: round_half_even_def Let_def q_def [symmetric] abs_if)
  next
    case 2
    then have "(of_int q + 1 :: rat) \<le> of_int k" by (metis of_int_1 of_int_add of_int_le_iff)
    then show ?thesis using q by (auto simp: round_half_even_def Let_def q_def [symmetric] abs_if)
  qed
qed

definition representable :: "rat \<Rightarrow> bool" where
  "representable y \<longleftrightarrow> (\<exists>m e. y = of_int m * 2 powi e \<and> \<bar>m\<bar> \<le> 2 ^ 24 \<and> - 149 \<le> e)"

lemma representable_int: "\<bar>k\<bar> \<le> 2 ^ 24 \<Longrightarrow> representable (of_int k)"
  unfolding representable_def by (rule exI [of _ k], rule exI [of _ 0]) simp

lemma rnd_nearest:
  assumes "representable y"
  shows "\<bar>rnd x - x\<bar> \<le> \<bar>y - x\<bar>"
proof (cases "x = 0")
  case False
  define e where "e = ulp_exp x"
  let ?u = "(2 :: rat) powi e"
  have u: "0 < ?u" by simp
  have grid: "\<bar>rnd x - x\<bar> \<le> \<bar>of_int k * ?u - x\<bar>" for k
  proof -
    have s: "\<bar>of_int j * ?u - x\<bar> = \<bar>of_int j - x / ?u\<bar> * ?u" for j :: int
    proof -
      have "of_int j * ?u - x = (of_int j - x / ?u) * ?u" using u by (simp add: field_simps)
      then show ?thesis by (simp add: abs_mult)
    qed
    have "rnd x = of_int (round_half_even (x / ?u)) * ?u" using False by (simp add: rnd_def e_def)
    then show ?thesis
      using round_half_even_nearest [of "x / ?u" k] u by (simp only: s) (rule mult_right_mono, simp_all)
  qed
  obtain m f where y: "y = of_int m * 2 powi f" "\<bar>m\<bar> \<le> 2 ^ 24" "- 149 \<le> f"
    using assms unfolding representable_def by blast
  show ?thesis
  proof (cases "e \<le> f")
    case True
    then have "y = of_int (m * 2 ^ nat (f - e)) * ?u" using y(1) powi_split [OF True] by simp
    then show ?thesis using grid by metis
  next
    case False
    then have ee: "e = ilog2 \<bar>x\<bar> - 23" using y(3) by (auto simp: e_def ulp_exp_def max_def split: if_splits)
    have x: "2 powi (e + 23) \<le> \<bar>x\<bar>" using ilog2_bounds(1) [of "\<bar>x\<bar>"] \<open>x \<noteq> 0\<close> ee by simp
    have "\<bar>y\<bar> \<le> 2 ^ 24 * 2 powi f"
    proof -
      have "\<bar>of_int m\<bar> \<le> (2 ^ 24 :: rat)" using y(2) by (metis of_int_abs of_int_le_iff of_int_numeral of_int_power)
      then show ?thesis by (simp add: y(1) abs_mult)
    qed
    also have "\<dots> = 2 powi (f + 24)" by (simp add: power_int_add)
    also have "\<dots> \<le> 2 powi (e + 23)" using False by (intro powi_mono) simp
    finally have yx: "\<bar>y\<bar> \<le> 2 powi (e + 23)" .
    have g: "of_int (2 ^ 23) * ?u = 2 powi (e + 23)" by (simp add: power_int_add)
    show ?thesis
    proof (cases "0 < x")
      case True
      then have "\<bar>of_int (2 ^ 23) * ?u - x\<bar> \<le> \<bar>y - x\<bar>" unfolding g using x yx by linarith
      then show ?thesis using grid [of "2 ^ 23"] by linarith
    next
      case False
      then have "\<bar>of_int (- (2 ^ 23)) * ?u - x\<bar> \<le> \<bar>y - x\<bar>"
        using x yx g by (simp only: of_int_minus mult_minus_left)
      then show ?thesis using grid [of "- (2 ^ 23)"] by linarith
    qed
  qed
qed (simp add: rnd_def)

lemma rnd_representable: "representable y \<Longrightarrow> rnd y = y"
  using rnd_nearest [of y y] by simp

lemma f32_make_between:
  assumes "representable lo" "representable hi" "lo \<le> x" "x \<le> hi" "\<bar>lo\<bar> < 2 ^ 128" "\<bar>hi\<bar> < 2 ^ 128"
  shows "\<exists>z. f32_make x = Fin z \<and> lo \<le> z \<and> z \<le> hi"
proof -
  have "lo \<le> rnd x" "rnd x \<le> hi"
    using rnd_nearest [OF assms(1), of x] rnd_nearest [OF assms(2), of x] assms(3,4) by linarith+
  moreover from this have "\<bar>rnd x\<bar> < 2 ^ 128" using assms(5,6) by linarith
  ultimately show ?thesis by (simp add: f32_make_def)
qed

lemma f32_make_representable: "representable y \<Longrightarrow> \<bar>y\<bar> < 2 ^ 128 \<Longrightarrow> f32_make y = Fin y"
  by (simp add: f32_make_def rnd_representable)

lemma f32_of_int_exact:
  assumes "\<bar>k\<bar> \<le> 2 ^ 24"
  shows "f32_of_int k = Fin (of_int k)"
proof -
  have "\<bar>of_int k :: rat\<bar> \<le> 2 ^ 24" using assms by (metis of_int_abs of_int_le_iff of_int_numeral of_int_power)
  then have "\<bar>of_int k :: rat\<bar> < 2 ^ 128" by simp
  then show ?thesis unfolding f32_of_int_def by (intro f32_make_representable representable_int assms)
qed

section \<open>Casts\<close>

lemma round_half_away_bounds:
  assumes "of_int a \<le> x" "x \<le> of_int b"
  shows "a \<le> round_half_away x \<and> round_half_away x \<le> b"
proof (cases "x < 0")
  case True
  define f where "f = \<lfloor>- x + 1 / 2\<rfloor>"
  have "of_int f \<le> - x + 1 / 2" "- x + 1 / 2 < of_int f + 1" using floor_correct [of "- x + 1 / 2"] by (simp_all add: f_def)
  then have "rat_of_int (f + a) < 1" "rat_of_int (- b) < of_int (f + 1)" using assms by (simp_all add: of_int_add)
  then have "f + a < 1" "- b < f + 1" by (simp_all only: of_int_less_1_iff of_int_less_iff)
  then show ?thesis using True by (simp add: round_half_away_def f_def)
next
  case False
  define f where "f = \<lfloor>x + 1 / 2\<rfloor>"
  have "of_int f \<le> x + 1 / 2" "x + 1 / 2 < of_int f + 1" using floor_correct [of "x + 1 / 2"] by (simp_all add: f_def)
  then have "rat_of_int a < of_int (f + 1)" "rat_of_int (f - b) < 1" using assms by (simp_all add: of_int_add)
  then have "a < f + 1" "f - b < 1" by (simp_all only: of_int_less_1_iff of_int_less_iff)
  then show ?thesis using False by (simp add: round_half_away_def f_def)
qed

lemma round_half_away_int [simp]: "round_half_away (of_int k) = k"
  using round_half_away_bounds [of k "of_int k" k] by simp

lemma round_half_away_0 [simp]: "round_half_away 0 = 0"
  using round_half_away_int [of 0] by simp

lemma f32_clamp_cast_bounds:
  assumes "0 \<le> hi"
  shows "0 \<le> f32_round_cast 0 m (f32_clamp 0 (of_int hi) v) \<and> f32_round_cast 0 m (f32_clamp 0 (of_int hi) v) \<le> hi"
proof (cases v)
  case (Fin x)
  let ?c = "if x < 0 then 0 else if x > of_int hi then of_int hi else x"
  have "(of_int 0 :: rat) \<le> ?c" "?c \<le> of_int hi" using assms by auto
  from round_half_away_bounds [OF this] show ?thesis unfolding Fin f32_clamp.simps f32_round_cast.simps using assms by linarith
next
  case (Inf s)
  then show ?thesis using assms by (cases s) simp_all
qed (use assms in simp)

end
