(* ===== verification/Coords.thy ===== *)
theory Coords
  imports F32
begin

text \<open>
  \<^verbatim>\<open>AffineTransform\<close> of \<^verbatim>\<open>crates/penflow-core/src/inject/coords.rs\<close>: the map from
  normalized tablet coordinates to the pixels of a monitor and to the logical units of the VMulti
  digitizer, in \<open>f32\<close> arithmetic, operation by operation.
\<close>

section \<open>Model\<close>

record affine_transform =
  at_a :: f32
  at_b :: f32
  at_c :: f32
  at_d :: f32
  at_e :: f32
  at_f :: f32

definition affine_identity :: affine_transform where
  "affine_identity = \<lparr>at_a = Fin 1, at_b = Fin 0, at_c = Fin 0, at_d = Fin 1, at_e = Fin 0, at_f = Fin 0\<rparr>"

text \<open>The source's recursive call for other angles is the case of angle 0.\<close>

definition from_normalized_to_rect :: "i32 \<Rightarrow> i32 \<Rightarrow> u32 \<Rightarrow> u32 \<Rightarrow> u32 \<Rightarrow> affine_transform" where
  "from_normalized_to_rect output_left output_top output_w output_h rotation_deg =
     (let ow = f32_of_int (uint output_w); oh = f32_of_int (uint output_h);
          ol = f32_of_int (sint output_left); ot = f32_of_int (sint output_top) in
      if rotation_deg mod 360 = 90 then
        \<lparr>at_a = Fin 0, at_b = ow, at_c = f32_neg ow, at_d = Fin 0, at_e = f32_add ol ow, at_f = ot\<rparr>
      else if rotation_deg mod 360 = 180 then
        \<lparr>at_a = f32_neg ow, at_b = Fin 0, at_c = Fin 0, at_d = f32_neg oh, at_e = f32_add ol ow, at_f = f32_add ot oh\<rparr>
      else if rotation_deg mod 360 = 270 then
        \<lparr>at_a = Fin 0, at_b = f32_neg oh, at_c = ow, at_d = Fin 0, at_e = ol, at_f = f32_add ot oh\<rparr>
      else \<lparr>at_a = ow, at_b = Fin 0, at_c = Fin 0, at_d = oh, at_e = ol, at_f = ot\<rparr>)"

definition affine_map :: "affine_transform \<Rightarrow> f32 \<Rightarrow> f32 \<Rightarrow> f32 \<times> f32" where
  "affine_map t x y =
     (f32_add (f32_add (f32_mul (at_a t) x) (f32_mul (at_c t) y)) (at_e t),
      f32_add (f32_add (f32_mul (at_b t) x) (f32_mul (at_d t) y)) (at_f t))"

definition f32_to_i32 :: "f32 \<Rightarrow> i32" where
  "f32_to_i32 v = of_int (f32_round_cast (- (2 ^ 31)) (2 ^ 31 - 1) v)"

definition map_to_pixel :: "affine_transform \<Rightarrow> f32 \<Rightarrow> f32 \<Rightarrow> i32 \<times> i32" where
  "map_to_pixel t x y = (let (fx, fy) = affine_map t x y in (f32_to_i32 fx, f32_to_i32 fy))"

definition f32_to_logical :: "f32 \<Rightarrow> u16" where
  "f32_to_logical v = of_int (f32_round_cast 0 65535 (f32_clamp 0 32767 v))"

definition map_to_vmulti :: "affine_transform \<Rightarrow> f32 \<Rightarrow> f32 \<Rightarrow> u32 \<Rightarrow> u32 \<Rightarrow> u16 \<times> u16" where
  "map_to_vmulti t x y target_w_px target_h_px =
     (let (fx, fy) = affine_map t x y;
          tw = f32_of_int (uint (max target_w_px 1));
          th = f32_of_int (uint (max target_h_px 1)) in
      (f32_to_logical (f32_mul (f32_div fx tw) (Fin 32767)),
       f32_to_logical (f32_mul (f32_div fy th) (Fin 32767))))"

section \<open>Logical units\<close>

lemma f32_to_logical_le: "f32_to_logical v \<le> 32767"
proof -
  define k where "k = f32_round_cast 0 65535 (f32_clamp 0 32767 v)"
  have "0 \<le> k" "k \<le> 32767" using f32_clamp_cast_bounds [of 32767 65535 v] by (simp_all add: k_def)
  then have "unat (of_int k :: u16) = nat k" by (simp add: unsigned_of_int take_bit_int_eq_self)
  then show ?thesis using \<open>k \<le> 32767\<close> by (simp add: f32_to_logical_def k_def [symmetric] word_le_nat_alt)
qed

lemma map_to_vmulti_le: "fst (map_to_vmulti t x y w h) \<le> 32767 \<and> snd (map_to_vmulti t x y w h) \<le> 32767"
  by (simp add: map_to_vmulti_def Let_def split_def f32_to_logical_le)

section \<open>Pixels\<close>

text \<open>Coordinates whose sums stay below \<open>2 ^ 24\<close> are exact in \<open>f32\<close>.\<close>

definition rect_ok :: "i32 \<Rightarrow> i32 \<Rightarrow> u32 \<Rightarrow> u32 \<Rightarrow> bool" where
  "rect_ok l t w h \<longleftrightarrow> \<bar>sint l\<bar> \<le> 2 ^ 22 \<and> \<bar>sint t\<bar> \<le> 2 ^ 22 \<and> uint w \<le> 2 ^ 22 \<and> uint h \<le> 2 ^ 22"

lemma offset_bounds:
  fixes a c :: int
  assumes "\<bar>a\<bar> \<le> 2 ^ 22" "0 \<le> c" "c \<le> 2 ^ 22"
  shows "\<bar>a\<bar> \<le> 2 ^ 23" "\<bar>a\<bar> \<le> 2 ^ 24" "\<bar>c\<bar> \<le> 2 ^ 22" "\<bar>c\<bar> \<le> 2 ^ 24" "\<bar>- c\<bar> \<le> 2 ^ 22"
    "\<bar>a + c\<bar> \<le> 2 ^ 23" "\<bar>a + c\<bar> \<le> 2 ^ 24" "- (2 ^ 31) \<le> a" "- (2 ^ 31) \<le> a + c" "a + c < 2 ^ 31"
  using assms by auto

lemma rect_okD:
  assumes "rect_ok l t w h"
  shows "\<bar>sint l\<bar> \<le> 2 ^ 22" "\<bar>sint t\<bar> \<le> 2 ^ 22" "0 \<le> uint w" "uint w \<le> 2 ^ 22" "0 \<le> uint h" "uint h \<le> 2 ^ 22"
  using assms by (simp_all add: rect_ok_def)

text \<open>The numeric facts of the four pairs of an origin and an extent.\<close>

lemmas rect_bounds =
  offset_bounds [OF rect_okD(1) rect_okD(3,4)] offset_bounds [OF rect_okD(2) rect_okD(5,6)]
  offset_bounds [OF rect_okD(2) rect_okD(3,4)]

lemma small_int_lt: "\<bar>k\<bar> \<le> 2 ^ 24 \<Longrightarrow> \<bar>of_int k :: rat\<bar> < 2 ^ 128"
proof -
  assume "\<bar>k\<bar> \<le> 2 ^ 24"
  then have "\<bar>of_int k :: rat\<bar> \<le> 2 ^ 24" by (metis of_int_abs of_int_le_iff of_int_numeral of_int_power)
  then show ?thesis by simp
qed

lemma f32_make_int_between:
  assumes "of_int lo \<le> x" "x \<le> of_int hi" "\<bar>lo\<bar> \<le> 2 ^ 24" "\<bar>hi\<bar> \<le> 2 ^ 24"
  shows "\<exists>z. f32_make x = Fin z \<and> of_int lo \<le> z \<and> z \<le> of_int hi"
  by (rule f32_make_between) (use assms small_int_lt representable_int in auto)

lemma f32_make_0 [simp]: "f32_make 0 = Fin 0"
  by (simp add: f32_make_def rnd_def)

lemma f32_mul_0 [simp]: "f32_mul (Fin 0) (Fin y) = Fin 0"
  by simp

text \<open>One coordinate: \<open>k * u + o\<close> for \<open>u\<close> in \<open>[0, 1]\<close>, with the other product zero on either
  side.\<close>

lemma axis_between:
  assumes u: "0 \<le> u" "u \<le> 1" and k: "\<bar>k\<bar> \<le> 2 ^ 22" and o: "\<bar>p\<bar> \<le> 2 ^ 23"
  shows "\<exists>z. f32_add (f32_add (f32_mul (Fin (of_int k)) (Fin u)) (Fin 0)) (Fin (of_int p)) = Fin z \<and>
      of_int (min p (p + k)) \<le> z \<and> z \<le> of_int (max p (p + k))" (is ?A)
    and "\<exists>z. f32_add (f32_add (Fin 0) (f32_mul (Fin (of_int k)) (Fin u))) (Fin (of_int p)) = Fin z \<and>
      of_int (min p (p + k)) \<le> z \<and> z \<le> of_int (max p (p + k))" (is ?B)
proof -
  let ?lo = "min 0 k" and ?hi = "max 0 k"
  have ku: "of_int ?lo \<le> of_int k * u" "of_int k * u \<le> of_int ?hi"
  proof -
    show "of_int ?lo \<le> of_int k * u" "of_int k * u \<le> of_int ?hi"
    proof (atomize (full), cases "0 \<le> k")
      case pos: True
      then have "of_int k * u \<le> of_int k" using mult_left_le [of u "of_int k :: rat"] u by simp
      then show "of_int ?lo \<le> of_int k * u \<and> of_int k * u \<le> of_int ?hi" using pos u by simp
    next
      case neg: False
      then have "0 \<le> (- of_int k :: rat)" by simp
      from mult_left_le [OF u(2) this] show "of_int ?lo \<le> of_int k * u \<and> of_int k * u \<le> of_int ?hi"
        using neg u by (simp add: mult_le_0_iff)
    qed
  qed
  have b: "\<bar>?lo\<bar> \<le> 2 ^ 24" "\<bar>?hi\<bar> \<le> 2 ^ 24" using k by auto
  obtain a where a: "f32_make (of_int k * u) = Fin a" "of_int ?lo \<le> a" "a \<le> of_int ?hi"
    using f32_make_int_between [OF ku b] by blast
  obtain a' where a': "f32_make a = Fin a'" "of_int ?lo \<le> a'" "a' \<le> of_int ?hi"
    using f32_make_int_between [OF a(2,3) b] by blast
  have s: "of_int (min p (p + k)) \<le> a' + of_int p" "a' + of_int p \<le> of_int (max p (p + k))"
    using a'(2,3) by (auto simp: min_def max_def split: if_splits)
  have b2: "\<bar>min p (p + k)\<bar> \<le> 2 ^ 24" "\<bar>max p (p + k)\<bar> \<le> 2 ^ 24" using k o by auto
  obtain z where "f32_make (a' + of_int p) = Fin z" "of_int (min p (p + k)) \<le> z" "z \<le> of_int (max p (p + k))"
    using f32_make_int_between [OF s b2] by blast
  then show ?A ?B by (simp_all add: a a')
qed

lemma f32_to_i32_between:
  assumes "of_int lo \<le> z" "z \<le> of_int hi" "- (2 ^ 31) \<le> lo" "hi < 2 ^ 31"
  shows "lo \<le> sint (f32_to_i32 (Fin z)) \<and> sint (f32_to_i32 (Fin z)) \<le> hi"
proof -
  have r: "lo \<le> round_half_away z" "round_half_away z \<le> hi" using round_half_away_bounds [OF assms(1,2)] by blast+
  then have "f32_to_i32 (Fin z) = of_int (round_half_away z)" using assms(3,4) by (simp add: f32_to_i32_def)
  moreover have "sint (of_int (round_half_away z) :: i32) = round_half_away z"
    using r assms(3,4) by (subst sint_sbintrunc') (intro signed_take_bit_int_eq_self, auto)
  ultimately show ?thesis using r by simp
qed

text \<open>What the transform is on exact inputs, rotation by rotation: the coefficients are the
  integers they stand for.\<close>

lemma rect_coefficients:
  assumes "rect_ok l t w h"
  shows "f32_of_int (uint w) = Fin (of_int (uint w))" "f32_of_int (uint h) = Fin (of_int (uint h))"
    "f32_of_int (sint l) = Fin (of_int (sint l))" "f32_of_int (sint t) = Fin (of_int (sint t))"
    "f32_add (Fin (of_int (sint l))) (Fin (of_int (uint w))) = Fin (of_int (sint l + uint w))"
    "f32_add (Fin (of_int (sint t))) (Fin (of_int (uint h))) = Fin (of_int (sint t + uint h))"
proof -
  have b: "\<bar>uint w\<bar> \<le> 2 ^ 24" "\<bar>uint h\<bar> \<le> 2 ^ 24" "\<bar>sint l\<bar> \<le> 2 ^ 24" "\<bar>sint t\<bar> \<le> 2 ^ 24"
    "\<bar>sint l + uint w\<bar> \<le> 2 ^ 24" "\<bar>sint t + uint h\<bar> \<le> 2 ^ 24"
    using rect_bounds [OF assms assms assms] by blast+
  then show "f32_of_int (uint w) = Fin (of_int (uint w))" "f32_of_int (uint h) = Fin (of_int (uint h))"
    "f32_of_int (sint l) = Fin (of_int (sint l))" "f32_of_int (sint t) = Fin (of_int (sint t))"
    by (simp_all add: f32_of_int_exact)
  show "f32_add (Fin (of_int (sint l))) (Fin (of_int (uint w))) = Fin (of_int (sint l + uint w))"
    "f32_add (Fin (of_int (sint t))) (Fin (of_int (uint h))) = Fin (of_int (sint t + uint h))"
    using f32_of_int_exact [OF b(5)] f32_of_int_exact [OF b(6)] by (simp_all add: f32_of_int_def)
qed

definition in_rect :: "i32 \<Rightarrow> i32 \<Rightarrow> u32 \<Rightarrow> u32 \<Rightarrow> i32 \<times> i32 \<Rightarrow> bool" where
  "in_rect l t w h p \<longleftrightarrow> sint l \<le> sint (fst p) \<and> sint (fst p) \<le> sint l + uint w \<and>
     sint t \<le> sint (snd p) \<and> sint (snd p) \<le> sint t + uint h"

lemma pixel_between:
  assumes "fst (affine_map tr x y) = Fin a" "snd (affine_map tr x y) = Fin b" "rect_ok l t w h"
    "of_int (sint l) \<le> a" "a \<le> of_int (sint l + uint w)" "of_int (sint t) \<le> b" "b \<le> of_int (sint t + uint h)"
  shows "in_rect l t w h (map_to_pixel tr x y)"
proof -
  have "- (2 ^ 31) \<le> sint l" "- (2 ^ 31) \<le> sint t" "sint l + uint w < 2 ^ 31" "sint t + uint h < 2 ^ 31"
    using assms(3) unfolding rect_ok_def by auto
  then show ?thesis
    using f32_to_i32_between [OF assms(4,5)] f32_to_i32_between [OF assms(6,7)] assms(1,2)
    by (simp add: map_to_pixel_def split_def in_rect_def)
qed

text \<open>A pen anywhere on the tablet lands on the rectangle of the monitor, its right and bottom edge
  included. At 90 degrees both axes are scaled by the width, so there the rectangle must not be
  wider than high.\<close>

lemma map_to_pixel_in_rect:
  assumes r: "rect_ok l t w h" and x: "0 \<le> x" "x \<le> 1" and y: "0 \<le> y" "y \<le> 1"
    and rot: "rot mod 360 = 90 \<Longrightarrow> w \<le> h"
  shows "in_rect l t w h (map_to_pixel (from_normalized_to_rect l t w h rot) (Fin x) (Fin y))"
proof -
  note c = rect_coefficients [OF r]
  have b: "\<bar>uint w\<bar> \<le> 2 ^ 22" "\<bar>uint h\<bar> \<le> 2 ^ 22" "\<bar>- uint w\<bar> \<le> 2 ^ 22" "\<bar>- uint h\<bar> \<le> 2 ^ 22"
    "\<bar>sint l\<bar> \<le> 2 ^ 23" "\<bar>sint t\<bar> \<le> 2 ^ 23" "\<bar>sint l + uint w\<bar> \<le> 2 ^ 23" "\<bar>sint t + uint h\<bar> \<le> 2 ^ 23"
    using rect_bounds [OF r r r] by blast+
  consider (r90) "rot mod 360 = 90" | (r180) "rot mod 360 = 180" | (r270) "rot mod 360 = 270"
    | (r0) "rot mod 360 \<noteq> 90" "rot mod 360 \<noteq> 180" "rot mod 360 \<noteq> 270" by blast
  then show ?thesis
  proof cases
    case r90
    then have "uint w \<le> uint h" using rot by (simp add: word_le_def)
    then have wh: "(of_int (uint w) :: rat) \<le> of_int (uint h)" by (simp only: of_int_le_iff)
    from axis_between(2) [OF y b(3) b(7)] axis_between(1) [OF x b(1) b(6)] obtain a e where
      "fst (affine_map (from_normalized_to_rect l t w h rot) (Fin x) (Fin y)) = Fin a"
      "snd (affine_map (from_normalized_to_rect l t w h rot) (Fin x) (Fin y)) = Fin e"
      "of_int (sint l) \<le> a" "a \<le> of_int (sint l + uint w)"
      "of_int (sint t) \<le> e" "e \<le> of_int (sint t + uint w)"
      using r90 by (auto simp: affine_map_def from_normalized_to_rect_def Let_def c simp del: f32_add.simps f32_mul.simps of_int_sint of_int_uint)
    then show ?thesis using wh by (intro pixel_between [where a = a and b = e] r) simp_all
  next
    case r180
    then show ?thesis
      using axis_between(1) [OF x b(3) b(7)] axis_between(2) [OF y b(4) b(8)] r
      by (auto intro!: pixel_between simp: affine_map_def from_normalized_to_rect_def Let_def c simp del: f32_add.simps f32_mul.simps of_int_sint of_int_uint)
  next
    case r270
    then show ?thesis
      using axis_between(2) [OF y b(1) b(5)] axis_between(1) [OF x b(4) b(8)] r270 r
      by (auto intro!: pixel_between simp: affine_map_def from_normalized_to_rect_def Let_def c simp del: f32_add.simps f32_mul.simps of_int_sint of_int_uint)
  next
    case r0
    then show ?thesis
      using axis_between(1) [OF x b(1) b(5)] axis_between(2) [OF y b(2) b(6)] r
      by (auto intro!: pixel_between simp: affine_map_def from_normalized_to_rect_def Let_def c simp del: f32_add.simps f32_mul.simps of_int_sint of_int_uint)
  qed
qed


text \<open>At 90 degrees the far end of the tablet's x axis lands at \<open>top + width\<close>, whatever the height.\<close>

lemma map_to_pixel_90_far_end:
  assumes r: "rect_ok l t w h" and rot: "rot mod 360 = 90"
  shows "sint (snd (map_to_pixel (from_normalized_to_rect l t w h rot) (Fin 1) (Fin 0))) = sint t + uint w"
proof -
  note c = rect_coefficients [OF r]
  have b: "\<bar>uint w\<bar> \<le> 2 ^ 24" "\<bar>sint t + uint w\<bar> \<le> 2 ^ 24" "- (2 ^ 31) \<le> sint t + uint w" "sint t + uint w < 2 ^ 31"
    using rect_bounds [OF r r r] by blast+
  have "f32_make (of_int (uint w)) = Fin (of_int (uint w))"
    "f32_make (of_int (uint w) + of_int (sint t)) = Fin (of_int (uint w) + of_int (sint t))"
    using f32_of_int_exact [OF b(1)] f32_of_int_exact [OF b(2)] by (simp_all add: f32_of_int_def add.commute)
  then have "snd (affine_map (from_normalized_to_rect l t w h rot) (Fin 1) (Fin 0)) = Fin (of_int (sint t + uint w))"
    by (simp add: rot affine_map_def from_normalized_to_rect_def Let_def c add.commute)
  then show ?thesis
    using f32_to_i32_between [of "sint t + uint w" "of_int (sint t + uint w)" "sint t + uint w"] b
    by (simp add: map_to_pixel_def split_def)
qed

end
