(* ===== verification/Monitors.thy ===== *)
theory Monitors
  imports Nal
begin

text \<open>
  The engine's errors (\<^verbatim>\<open>crates/penflow-core/src/error.rs\<close>) and the enumeration of monitors of
  \<^verbatim>\<open>crates/penflow-core/src/monitors.rs\<close>. DXGI is a parameter: the adapters and outputs it lists,
  in order, with the result of each description query and the error that ends each listing.
\<close>

section \<open>Errors\<close>

text \<open>The result codes the engine tells apart; any other one is \<open>Hresult\<close>.\<close>

datatype hresult =
    E_INVALIDARG | NOT_FOUND | WAIT_TIMEOUT | ACCESS_LOST | ACCESS_DENIED | OCCLUDED |
    INVALIDMEDIATYPE | NO_EVENTS_AVAILABLE | Hresult i32

datatype engine_error =
    Win32 hresult
  | NoAdapter
  | AdapterHasNoOutputs string i64
  | AdapterMismatch i64 i64
  | AccessLostUnrecoverable
  | NoCompatibleEncoder
  | CaptureTimeout nat
  | NotInitialized

section \<open>Monitors\<close>

record monitor_info =
  mi_adapter_index :: u32
  mi_adapter_luid :: i64
  mi_adapter_name :: string
  mi_adapter_vendor_id :: u32
  mi_adapter_device_id :: u32
  mi_adapter_is_software :: bool
  mi_output_index :: u32
  mi_device_name :: string
  mi_width :: u32
  mi_height :: u32
  mi_desktop_coords :: "i32 \<times> i32 \<times> i32 \<times> i32"
  mi_rotation :: u32
  mi_attached :: bool
  mi_looks_virtual :: bool

text \<open>What DXGI describes: an adapter and an output. Names end at their first NUL.\<close>

record adapter_desc =
  ad_name :: string
  ad_luid_high :: i32
  ad_luid_low :: u32
  ad_vendor_id :: u32
  ad_device_id :: u32
  ad_flags :: u32

record output_desc =
  od_device_name :: string
  od_coords :: "i32 \<times> i32 \<times> i32 \<times> i32"
  od_rotation :: u32
  od_attached :: bool

definition luid :: "i32 \<Rightarrow> u32 \<Rightarrow> i64" where
  "luid high low = push_bit 32 (scast high) OR ucast low"

definition to_lower :: "char \<Rightarrow> char" where
  "to_lower c = (if 65 \<le> (of_char c :: nat) \<and> (of_char c :: nat) \<le> 90 then char_of (of_char c + 32 :: nat) else c)"

definition contains :: "string \<Rightarrow> string \<Rightarrow> bool" where
  "contains n needle = list_ex (\<lambda>k. starts_with (drop k n) needle) [0..<Suc (length n)]"

definition looks_virtual :: "string \<Rightarrow> bool" where
  "looks_virtual name = (let n = map to_lower name in
     list_ex (contains n) [''virtual display'', ''virtual monitor'', ''iddcx'', ''iddsample'',
       ''iddsampledriver'', ''vdd'', ''mttvdd'', ''amyuni'', ''spacedesk'', ''superdisplay''])"

definition extent :: "i32 \<Rightarrow> i32 \<Rightarrow> u32" where
  "extent a b = (if b - a <s 0 then 0 else b - a)"

definition make_monitor :: "nat \<Rightarrow> adapter_desc \<Rightarrow> nat \<Rightarrow> output_desc \<Rightarrow> monitor_info" where
  "make_monitor ai a oi od =
     (let (left, top, right, bottom) = od_coords od in \<lparr>
        mi_adapter_index = of_nat ai,
        mi_adapter_luid = luid (ad_luid_high a) (ad_luid_low a),
        mi_adapter_name = ad_name a,
        mi_adapter_vendor_id = ad_vendor_id a,
        mi_adapter_device_id = ad_device_id a,
        mi_adapter_is_software = (ad_flags a AND 2 \<noteq> 0),
        mi_output_index = of_nat oi,
        mi_device_name = od_device_name od,
        mi_width = extent left right,
        mi_height = extent top bottom,
        mi_desktop_coords = od_coords od,
        mi_rotation = od_rotation od,
        mi_attached = od_attached od,
        mi_looks_virtual = (looks_virtual (ad_name a) \<or> looks_virtual (od_device_name od))\<rparr>)"

text \<open>A listing is its items, each a query result, and the code that ends it.\<close>

type_synonym 'a listing = "(hresult + 'a) list \<times> hresult"

fun enumerate_outputs :: "nat \<Rightarrow> adapter_desc \<Rightarrow> nat \<Rightarrow> (hresult + output_desc) list \<Rightarrow> hresult \<Rightarrow>
    engine_error + monitor_info list" where
  "enumerate_outputs ai a oi [] e = (if e = NOT_FOUND then Inr [] else Inl (Win32 e))"
| "enumerate_outputs ai a oi (Inl h # os) e = Inl (Win32 h)"
| "enumerate_outputs ai a oi (Inr od # os) e =
     result_bind (enumerate_outputs ai a (Suc oi) os e) (\<lambda>ms. Inr (make_monitor ai a oi od # ms))"

fun enumerate_adapters :: "nat \<Rightarrow> (hresult + (adapter_desc \<times> output_desc listing)) list \<Rightarrow> hresult \<Rightarrow>
    engine_error + monitor_info list" where
  "enumerate_adapters ai [] e = (if e = NOT_FOUND then Inr [] else Inl (Win32 e))"
| "enumerate_adapters ai (Inl h # as) e = Inl (Win32 h)"
| "enumerate_adapters ai (Inr (a, os, oe) # as) e =
     result_bind (enumerate_outputs ai a 0 os oe) (\<lambda>ms.
     result_bind (enumerate_adapters (Suc ai) as e) (\<lambda>ns. Inr (ms @ ns)))"

definition enumerate_monitors :: "(adapter_desc \<times> output_desc listing) listing \<Rightarrow>
    engine_error + monitor_info list" where
  "enumerate_monitors dxgi = (let (as, e) = dxgi in enumerate_adapters 0 as e)"

text \<open>\<open>open_adapter\<close> checks that the adapter now found at the index is still the same one.\<close>

definition open_adapter :: "(nat \<Rightarrow> hresult + adapter_desc) \<Rightarrow> monitor_info \<Rightarrow> engine_error + adapter_desc" where
  "open_adapter enum_adapters m =
     (case enum_adapters (unat (mi_adapter_index m)) of
        Inl h \<Rightarrow> Inl (Win32 h)
      | Inr d \<Rightarrow>
          let l = luid (ad_luid_high d) (ad_luid_low d) in
          if l \<noteq> mi_adapter_luid m then Inl (AdapterMismatch (mi_adapter_luid m) l) else Inr d)"

section \<open>What is enumerated\<close>

text \<open>The monitor of output \<open>oi\<close> of adapter \<open>ai\<close>, for a listing without failed queries.\<close>

definition all_monitors :: "(adapter_desc \<times> output_desc list) list \<Rightarrow> monitor_info list" where
  "all_monitors as = concat (map (\<lambda>(ai, a, os). map (\<lambda>(oi, od). make_monitor ai a oi od) (enumerate 0 os)) (enumerate 0 as))"

lemma enumerate_outputs_all:
  "enumerate_outputs ai a oi (map Inr os) NOT_FOUND = Inr (map (\<lambda>(oi, od). make_monitor ai a oi od) (enumerate oi os))"
  by (induction os arbitrary: oi) simp_all

lemma enumerate_adapters_all:
  "enumerate_adapters ai (map (\<lambda>(a, os). Inr (a, map Inr os, NOT_FOUND)) as) NOT_FOUND =
     Inr (concat (map (\<lambda>(ai, a, os). map (\<lambda>(oi, od). make_monitor ai a oi od) (enumerate 0 os)) (enumerate ai as)))"
  by (induction as arbitrary: ai) (auto simp: enumerate_outputs_all)

lemma enumerate_monitors_all:
  "enumerate_monitors (map (\<lambda>(a, os). Inr (a, map Inr os, NOT_FOUND)) as, NOT_FOUND) = Inr (all_monitors as)"
  by (simp add: enumerate_monitors_def enumerate_adapters_all all_monitors_def)

lemma enumerate_outputs_Inr:
  "enumerate_outputs ai a oi os e = Inr ms \<Longrightarrow> e = NOT_FOUND \<and> (\<exists>ds. os = map Inr ds)"
proof (induction ai a oi os e arbitrary: ms rule: enumerate_outputs.induct)
  case (3 ai a oi od os e)
  then obtain ds where "os = map Inr ds" "e = NOT_FOUND" by (auto simp: result_bind_Inr_iff)
  then show ?case by (auto intro: exI [of _ "od # ds"])
qed (auto split: if_splits)

lemma enumerate_adapters_Inr:
  "enumerate_adapters ai as e = Inr ms \<Longrightarrow>
     e = NOT_FOUND \<and> (\<exists>ds. as = map (\<lambda>(a, os). Inr (a, map Inr os, NOT_FOUND)) ds)"
proof (induction ai as e arbitrary: ms rule: enumerate_adapters.induct)
  case (3 ai a os oe as e)
  from "3.prems" obtain ms1 ms2 where o: "enumerate_outputs ai a 0 os oe = Inr ms1"
    and r: "enumerate_adapters (Suc ai) as e = Inr ms2"
    by (auto simp: result_bind_Inr_iff)
  obtain ods where "oe = NOT_FOUND" "os = map Inr ods" using enumerate_outputs_Inr [OF o] by blast
  moreover obtain ds where "e = NOT_FOUND" "as = map (\<lambda>(a, os). Inr (a, map Inr os, NOT_FOUND)) ds"
    using "3.IH" [OF r] by blast
  ultimately show ?case by (auto intro: exI [of _ "(a, ods) # ds"])
qed (auto split: if_splits)

text \<open>Enumeration succeeds exactly when no query failed, and then it lists every output of every
  adapter, in order.\<close>

lemma enumerate_monitors_iff:
  "enumerate_monitors dxgi = Inr ms \<longleftrightarrow>
     (\<exists>as. dxgi = (map (\<lambda>(a, os). Inr (a, map Inr os, NOT_FOUND)) as, NOT_FOUND) \<and> ms = all_monitors as)"
proof
  assume e: "enumerate_monitors dxgi = Inr ms"
  obtain l h where d: "dxgi = (l, h)" by (cases dxgi)
  then obtain as where "h = NOT_FOUND" "l = map (\<lambda>(a, os). Inr (a, map Inr os, NOT_FOUND)) as"
    using e enumerate_adapters_Inr [of 0 l h ms] by (auto simp: enumerate_monitors_def)
  with d e enumerate_monitors_all [of as] show "\<exists>as. dxgi = (map (\<lambda>(a, os). Inr (a, map Inr os, NOT_FOUND)) as, NOT_FOUND) \<and> ms = all_monitors as"
    by auto
qed (auto simp: enumerate_monitors_all)

text \<open>The extent of a rectangle whose sides are in order and less than \<open>2 ^ 31\<close> apart is their
  distance.\<close>

lemma extent_eq: "sint a \<le> sint b \<Longrightarrow> sint b - sint a < 2 ^ 31 \<Longrightarrow> uint (extent a b) = sint b - sint a"
proof -
  assume a: "sint a \<le> sint b" "sint b - sint a < 2 ^ 31"
  define k where "k = sint b - sint a"
  have k: "0 \<le> k" "k < 2 ^ 31" using a by (simp_all add: k_def)
  have w: "b - a = of_int k" by (simp add: k_def)
  have "sint (of_int k :: i32) = k"
    using k by (subst sint_sbintrunc') (intro signed_take_bit_int_eq_self, auto)
  moreover have "uint (of_int k :: i32) = k"
    using k by (subst uint_word_of_int_eq) (intro take_bit_int_eq_self, auto)
  ultimately have "uint (extent a b) = k" using k by (simp add: extent_def w word_sless_alt)
  then show ?thesis by (simp only: k_def)
qed

end
