(* ===== verification/CursorShape.thy ===== *)
theory CursorShape
  imports Monitors
begin

unbundle bit_operations_syntax

text \<open>
  The decoder of cursor bitmaps of \<^verbatim>\<open>crates/penflow-core/src/capture/cursor_shape.rs\<close>. An
  index into the raw buffer that is out of range panics: a decoder returns \<open>None\<close> then. Offsets are
  products of two \<^verbatim>\<open>u32\<close> in a 64-bit \<^verbatim>\<open>usize\<close> and do not wrap; the capacity hint of the output
  vector is not modelled.
\<close>

section \<open>Model\<close>

datatype shape_kind = Monochrome | Color | MaskedColor

definition shape_kind_from_raw :: "u32 \<Rightarrow> shape_kind option" where
  "shape_kind_from_raw t =
     (if t = 1 then Some Monochrome else if t = 2 then Some Color else if t = 4 then Some MaskedColor else None)"

record cursor_shape =
  cs_kind :: shape_kind
  cs_width :: u32
  cs_height :: u32
  cs_hot_x :: i32
  cs_hot_y :: i32
  cs_pixels :: bytes

definition short_buffer_err :: engine_error where
  "short_buffer_err = Win32 E_INVALIDARG"

text \<open>The row loop of the two colour decoders; \<open>px\<close> is what is appended for one row.\<close>

fun color_rows :: "(bytes \<Rightarrow> bytes) \<Rightarrow> nat \<Rightarrow> nat \<Rightarrow> bytes \<Rightarrow> bytes \<Rightarrow> nat list \<Rightarrow> engine_error + bytes" where
  "color_rows px row_bytes pitch raw pixels [] = Inr pixels"
| "color_rows px row_bytes pitch raw pixels (y # ys) =
     (let off = y * pitch; e = off + row_bytes in
      if e \<le> length raw then color_rows px row_bytes pitch raw (pixels @ px (take row_bytes (drop off raw))) ys
      else Inl short_buffer_err)"

definition decode_color :: "u32 \<Rightarrow> u32 \<Rightarrow> u32 \<Rightarrow> i32 \<Rightarrow> i32 \<Rightarrow> bytes \<Rightarrow> engine_error + cursor_shape" where
  "decode_color width height pitch hot_x hot_y raw =
     result_bind (color_rows (\<lambda>row. row) (unat width * 4) (unat pitch) raw [] [0..<unat height]) (\<lambda>pixels.
       Inr \<lparr>cs_kind = Color, cs_width = width, cs_height = height, cs_hot_x = hot_x, cs_hot_y = hot_y,
         cs_pixels = pixels\<rparr>)"

fun masked_pixel :: "bytes \<Rightarrow> bytes" where
  "masked_pixel [b, g, r, a] = (if a = 0x00 then [b, g, r, 0xFF] else [0, 0, 0, 0])"
| "masked_pixel _ = []"

text \<open>\<^verbatim>\<open>chunks_exact(4)\<close>.\<close>

fun masked_row :: "bytes \<Rightarrow> bytes" where
  "masked_row (b # g # r # a # rest) = masked_pixel [b, g, r, a] @ masked_row rest"
| "masked_row _ = []"

definition decode_masked_color :: "u32 \<Rightarrow> u32 \<Rightarrow> u32 \<Rightarrow> i32 \<Rightarrow> i32 \<Rightarrow> bytes \<Rightarrow> engine_error + cursor_shape" where
  "decode_masked_color width height pitch hot_x hot_y raw =
     result_bind (color_rows masked_row (unat width * 4) (unat pitch) raw [] [0..<unat height]) (\<lambda>pixels.
       Inr \<lparr>cs_kind = MaskedColor, cs_width = width, cs_height = height, cs_hot_x = hot_x, cs_hot_y = hot_y,
         cs_pixels = pixels\<rparr>)"

definition mono_bgra :: "bool \<Rightarrow> bool \<Rightarrow> bytes" where
  "mono_bgra and_bit xor_bit =
     (case (and_bit, xor_bit) of
        (False, False) \<Rightarrow> [0, 0, 0, 0xFF]
      | (False, True) \<Rightarrow> [0xFF, 0xFF, 0xFF, 0xFF]
      | (True, False) \<Rightarrow> [0, 0, 0, 0]
      | (True, True) \<Rightarrow> [0, 0, 0, 0])"

definition mono_pixel :: "nat \<Rightarrow> nat \<Rightarrow> bytes \<Rightarrow> nat \<Rightarrow> nat \<Rightarrow> bytes option" where
  "mono_pixel pitch xor_off raw y x =
     (let byte_idx = x div 8; bit_idx = 7 - x mod 8; mask = push_bit bit_idx (1 :: u8) in
      if y * pitch + byte_idx < length raw \<and> xor_off + y * pitch + byte_idx < length raw then
        Some (mono_bgra (raw ! (y * pitch + byte_idx) AND mask \<noteq> 0)
          (raw ! (xor_off + y * pitch + byte_idx) AND mask \<noteq> 0))
      else None)"

fun mono_pixels :: "nat \<Rightarrow> nat \<Rightarrow> bytes \<Rightarrow> bytes \<Rightarrow> (nat \<times> nat) list \<Rightarrow> bytes option" where
  "mono_pixels pitch xor_off raw pixels [] = Some pixels"
| "mono_pixels pitch xor_off raw pixels ((y, x) # ps) =
     (case mono_pixel pitch xor_off raw y x of
        None \<Rightarrow> None
      | Some bgra \<Rightarrow> mono_pixels pitch xor_off raw (pixels @ bgra) ps)"

definition decode_monochrome :: "u32 \<Rightarrow> u32 \<Rightarrow> u32 \<Rightarrow> i32 \<Rightarrow> i32 \<Rightarrow> bytes \<Rightarrow> (engine_error + cursor_shape) option" where
  "decode_monochrome width height_raw pitch hot_x hot_y raw =
     (if height_raw mod 2 \<noteq> 0 then Some (Inl short_buffer_err)
      else let height = height_raw div 2; xor_off = unat height * unat pitch in
        if length raw < xor_off * 2 then Some (Inl short_buffer_err)
        else map_option (\<lambda>pixels. Inr \<lparr>cs_kind = Monochrome, cs_width = width, cs_height = height,
            cs_hot_x = hot_x, cs_hot_y = hot_y, cs_pixels = pixels\<rparr>)
          (mono_pixels (unat pitch) xor_off raw []
            (List.product [0..<unat height] [0..<unat width])))"

definition decode_shape :: "u32 \<Rightarrow> u32 \<Rightarrow> u32 \<Rightarrow> u32 \<Rightarrow> i32 \<Rightarrow> i32 \<Rightarrow> bytes \<Rightarrow> (engine_error + cursor_shape) option" where
  "decode_shape kind_raw width height_raw pitch hot_x hot_y raw =
     (case shape_kind_from_raw kind_raw of
        None \<Rightarrow> Some (Inl (Win32 E_INVALIDARG))
      | Some kind \<Rightarrow>
          if width = 0 \<or> height_raw = 0 then Some (Inl (Win32 E_INVALIDARG))
          else case kind of
              Color \<Rightarrow> Some (decode_color width height_raw pitch hot_x hot_y raw)
            | MaskedColor \<Rightarrow> Some (decode_masked_color width height_raw pitch hot_x hot_y raw)
            | Monochrome \<Rightarrow> decode_monochrome width height_raw pitch hot_x hot_y raw)"

section \<open>What each pixel is\<close>

text \<open>The pixel of the image at column \<open>x\<close> of row \<open>y\<close>, by kind.\<close>

definition color_px :: "nat \<Rightarrow> bytes \<Rightarrow> nat \<Rightarrow> nat \<Rightarrow> bytes" where
  "color_px pitch raw y x = take 4 (drop (y * pitch + 4 * x) raw)"

definition image :: "(nat \<Rightarrow> nat \<Rightarrow> bytes) \<Rightarrow> nat \<Rightarrow> nat \<Rightarrow> bytes" where
  "image px w h = concat (map (\<lambda>y. concat (map (px y) [0..<w])) [0..<h])"

lemma color_rows_eq:
  assumes "\<forall>y \<in> set ys. y * pitch + row_bytes \<le> length raw"
  shows "color_rows px row_bytes pitch raw acc ys =
    Inr (acc @ concat (map (\<lambda>y. px (take row_bytes (drop (y * pitch) raw))) ys))"
  using assms by (induction ys arbitrary: acc) (simp_all add: Let_def)

lemma color_rows_Inl:
  "\<not> (\<forall>y \<in> set ys. y * pitch + row_bytes \<le> length raw) \<Longrightarrow>
     color_rows px row_bytes pitch raw acc ys = Inl short_buffer_err"
  by (induction ys arbitrary: acc) (auto simp: Let_def)

lemma take_chunks: "4 * n \<le> length xs \<Longrightarrow> take (4 * n) xs = concat (map (\<lambda>x. take 4 (drop (4 * x) xs)) [0..<n])"
proof (induction n)
  case (Suc n)
  have "take (4 * Suc n) xs = take (4 * n) xs @ take 4 (drop (4 * n) xs)"
    by (metis add.commute mult_Suc_right take_add)
  then show ?case using Suc by simp
qed simp

lemma masked_row_append: "length xs = 4 \<Longrightarrow> masked_row (xs @ ys) = masked_pixel xs @ masked_row ys"
  by (auto simp: length_Suc_conv numeral_eq_Suc)

lemma masked_row_concat:
  "(\<forall>p \<in> set ps. length p = 4) \<Longrightarrow> masked_row (concat ps) = concat (map masked_pixel ps)"
  by (induction ps) (simp_all add: masked_row_append)

lemma last_row: "(\<forall>y \<in> set [0..<h]. y * pitch + r \<le> n) \<longleftrightarrow> h = 0 \<or> (h - 1) * pitch + r \<le> (n :: nat)"
proof (cases h)
  case (Suc k)
  have "y * pitch + r \<le> n" if "k * pitch + r \<le> n" "y \<le> k" for y
    using mult_le_mono1 [of y k pitch] that by linarith
  then show ?thesis using Suc by (auto simp: less_Suc_eq_le)
qed simp

text \<open>The buffer is long enough when the last row ends inside it.\<close>

definition rows_fit :: "nat \<Rightarrow> nat \<Rightarrow> nat \<Rightarrow> bytes \<Rightarrow> bool" where
  "rows_fit w h pitch raw \<longleftrightarrow> (h - 1) * pitch + w * 4 \<le> length raw"

lemma rows_fit_px:
  assumes "rows_fit w h pitch raw" "y < h" "x < w"
  shows "length (color_px pitch raw y x) = 4"
proof -
  have "\<forall>y \<in> set [0..<h]. y * pitch + w * 4 \<le> length raw"
    using assms(1) unfolding last_row rows_fit_def by simp
  then have "y * pitch + w * 4 \<le> length raw" using assms(2) by simp
  then show ?thesis using assms(3) by (simp add: color_px_def)
qed

lemma color_row_eq:
  assumes "y * pitch + w * 4 \<le> length raw"
  shows "take (w * 4) (drop (y * pitch) raw) = concat (map (color_px pitch raw y) [0..<w])"
  using take_chunks [of w "drop (y * pitch) raw"] assms
  by (simp add: mult.commute color_px_def [abs_def] add.commute)

lemma masked_row_eq:
  assumes "y * pitch + w * 4 \<le> length raw"
  shows "masked_row (take (w * 4) (drop (y * pitch) raw)) =
    concat (map (\<lambda>x. masked_pixel (color_px pitch raw y x)) [0..<w])"
proof -
  have "\<forall>p \<in> set (map (color_px pitch raw y) [0..<w]). length p = 4"
    using assms by (auto simp: color_px_def)
  from masked_row_concat [OF this] show ?thesis by (simp add: color_row_eq [OF assms] comp_def)
qed

lemma color_rows_image:
  assumes "0 < h" "\<And>y. y * pitch + w * 4 \<le> length raw \<Longrightarrow>
      f (take (w * 4) (drop (y * pitch) raw)) = concat (map (px y) [0..<w])"
  shows "color_rows f (w * 4) pitch raw [] [0..<h] =
    (if rows_fit w h pitch raw then Inr (image px w h) else Inl short_buffer_err)"
proof (cases "rows_fit w h pitch raw")
  case True
  then have a: "\<forall>y \<in> set [0..<h]. y * pitch + w * 4 \<le> length raw"
    using assms(1) unfolding last_row rows_fit_def by simp
  then have m: "map (\<lambda>y. f (take (w * 4) (drop (y * pitch) raw))) [0..<h] =
      map (\<lambda>y. concat (map (px y) [0..<w])) [0..<h]"
    using assms(2) by (intro map_cong) auto
  show ?thesis using True color_rows_eq [OF a, of f "[]"] unfolding m image_def by simp
next
  case False
  then have "\<not> (\<forall>y \<in> set [0..<h]. y * pitch + w * 4 \<le> length raw)"
    using assms(1) unfolding last_row rows_fit_def by simp
  from color_rows_Inl [OF this] show ?thesis using False by simp
qed

definition mono_px :: "nat \<Rightarrow> nat \<Rightarrow> bytes \<Rightarrow> nat \<Rightarrow> nat \<Rightarrow> bytes" where
  "mono_px h pitch raw y x =
     (let at = \<lambda>row. bit (raw ! (row * pitch + x div 8)) (7 - x mod 8) in
      if at y then [0, 0, 0, 0] else if at (h + y) then [0xFF, 0xFF, 0xFF, 0xFF] else [0, 0, 0, 0xFF])"

lemma color_rows_color:
  "0 < h \<Longrightarrow> color_rows (\<lambda>row. row) (w * 4) pitch raw [] [0..<h] =
     (if rows_fit w h pitch raw then Inr (image (color_px pitch raw) w h) else Inl short_buffer_err)"
  by (rule color_rows_image) (simp_all add: color_row_eq)

lemma color_rows_masked:
  "0 < h \<Longrightarrow> color_rows masked_row (w * 4) pitch raw [] [0..<h] =
     (if rows_fit w h pitch raw then Inr (image (\<lambda>y x. masked_pixel (color_px pitch raw y x)) w h)
      else Inl short_buffer_err)"
  by (rule color_rows_image) (simp_all add: masked_row_eq)

lemma and_mask_bit: "(w AND 2 ^ n \<noteq> 0) = bit (w :: u8) n"
  by (simp add: and_exp_eq_0_iff_not_bit)

lemma mono_pixel_eq:
  assumes "2 * (h * pitch) \<le> length raw" "y < h" "x div 8 < pitch"
  shows "mono_pixel pitch (h * pitch) raw y x = Some (mono_px h pitch raw y x)"
proof -
  have "Suc y * pitch \<le> h * pitch" using assms(2) by (intro mult_le_mono1) simp
  then have "y * pitch + x div 8 < h * pitch" using assms(3) by simp
  then show ?thesis using assms(1)
    by (auto simp: mono_pixel_def mono_px_def Let_def and_mask_bit mono_bgra_def add_mult_distrib)
qed

lemma mono_pixels_eq:
  assumes "\<forall>(y, x) \<in> set ps. mono_pixel pitch xo raw y x = Some (px y x)"
  shows "mono_pixels pitch xo raw acc ps = Some (acc @ concat (map (\<lambda>(y, x). px y x) ps))"
  using assms by (induction ps arbitrary: acc) auto

lemma concat_product: "concat (map (\<lambda>(y, x). px y x) (List.product [0..<h] [0..<w])) = image px w h"
proof -
  have "concat (map (\<lambda>(y, x). px y x) (List.product ys [0..<w])) = concat (map (\<lambda>y. concat (map (px y) [0..<w])) ys)" for ys
    by (induction ys) (simp_all add: comp_def)
  then show ?thesis by (simp add: image_def)
qed

text \<open>The specification of the decoder: what it accepts and the picture it makes of it.\<close>

definition shape_picture :: "shape_kind \<Rightarrow> nat \<Rightarrow> nat \<Rightarrow> nat \<Rightarrow> bytes \<Rightarrow> bytes option" where
  "shape_picture k w h pitch raw =
     (if w = 0 \<or> h = 0 then None
      else case k of
          Color \<Rightarrow> if rows_fit w h pitch raw then Some (image (color_px pitch raw) w h) else None
        | MaskedColor \<Rightarrow> if rows_fit w h pitch raw
            then Some (image (\<lambda>y x. masked_pixel (color_px pitch raw y x)) w h) else None
        | Monochrome \<Rightarrow> if even h \<and> h * pitch \<le> length raw
            then Some (image (mono_px (h div 2) pitch raw) w (h div 2)) else None)"

lemma unat_half: "unat (h div 2 :: u32) = unat h div 2"
  by (simp add: unat_div)

lemma even_word: "(h mod 2 \<noteq> (0 :: u32)) = odd (unat h)"
proof -
  have "unat (h mod 2) = unat h mod 2" by (simp add: unat_mod)
  then show ?thesis by (metis even_iff_mod_2_eq_zero unat_0 word_unat_eq_iff)
qed

lemma decode_monochrome_eq:
  assumes "unat w \<le> 8 * unat pitch"
  shows "decode_monochrome w h pitch hx hy raw = Some (
    if even (unat h) \<and> unat h * unat pitch \<le> length raw then
      Inr \<lparr>cs_kind = Monochrome, cs_width = w, cs_height = h div 2, cs_hot_x = hx, cs_hot_y = hy,
        cs_pixels = image (mono_px (unat h div 2) (unat pitch) raw) (unat w) (unat h div 2)\<rparr>
    else Inl short_buffer_err)"
proof (cases "even (unat h) \<and> unat h * unat pitch \<le> length raw")
  case True
  let ?h = "unat h div 2"
  have hh: "2 * (?h * unat pitch) = unat h * unat pitch" using True by auto
  have fit: "2 * (?h * unat pitch) \<le> length raw" unfolding hh using True by blast
  have "\<forall>(y, x) \<in> set (List.product [0..<?h] [0..<unat w]).
      mono_pixel (unat pitch) (?h * unat pitch) raw y x = Some (mono_px ?h (unat pitch) raw y x)"
    using mono_pixel_eq [OF fit] assms by auto
  from mono_pixels_eq [OF this, of "[]"]
  have "mono_pixels (unat pitch) (?h * unat pitch) raw [] (List.product [0..<?h] [0..<unat w]) =
      Some (image (mono_px ?h (unat pitch) raw) (unat w) ?h)" by (simp add: concat_product)
  then show ?thesis using True fit
    unfolding decode_monochrome_def even_word unat_half Let_def by (simp add: mult.commute)
next
  case False
  then show ?thesis
    unfolding decode_monochrome_def even_word unat_half Let_def by (auto simp: ac_simps elim!: evenE)
qed

lemma decode_shape_spec:
  assumes "shape_kind_from_raw t = Some k" "k = Monochrome \<Longrightarrow> unat w \<le> 8 * unat pitch"
  shows "decode_shape t w h pitch hx hy raw = Some (case shape_picture k (unat w) (unat h) (unat pitch) raw of
      None \<Rightarrow> Inl (Win32 E_INVALIDARG)
    | Some px \<Rightarrow> Inr \<lparr>cs_kind = k, cs_width = w, cs_height = (if k = Monochrome then h div 2 else h),
        cs_hot_x = hx, cs_hot_y = hy, cs_pixels = px\<rparr>)"
proof (cases "w = 0 \<or> h = 0")
  case True
  then show ?thesis using assms(1) by (auto simp: decode_shape_def shape_picture_def)
next
  case False
  then have p: "unat w \<noteq> 0" "0 < unat h" "unat h \<noteq> 0" by (auto simp: unat_eq_zero unat_gt_0)
  show ?thesis
  proof (cases k)
    case Color
    then show ?thesis using False p assms(1) color_rows_color [OF p(2), of "unat w" "unat pitch" raw]
      by (simp add: decode_shape_def shape_picture_def decode_color_def short_buffer_err_def)
  next
    case MaskedColor
    then show ?thesis using False p assms(1) color_rows_masked [OF p(2), of "unat w" "unat pitch" raw]
      by (simp add: decode_shape_def shape_picture_def decode_masked_color_def short_buffer_err_def)
  next
    case Monochrome
    then show ?thesis using False p assms(1) decode_monochrome_eq [OF assms(2)]
      by (simp add: decode_shape_def shape_picture_def short_buffer_err_def)
  qed
qed

text \<open>The length of the picture; in a masked or monochrome one every pixel is opaque or fully
  transparent.\<close>

lemma length_image:
  "(\<And>y x. y < h \<Longrightarrow> x < w \<Longrightarrow> length (px y x) = 4) \<Longrightarrow> length (image px w h) = 4 * w * h"
proof -
  assume a: "\<And>y x. y < h \<Longrightarrow> x < w \<Longrightarrow> length (px y x) = 4"
  have row: "length (concat (map (px y) [0..<w])) = 4 * w" if "y < h" for y
  proof -
    have "map (\<lambda>x. length (px y x)) [0..<w] = map (\<lambda>_. 4) [0..<w]" using a [OF that] by (intro map_cong) auto
    then have "sum_list (map (\<lambda>x. length (px y x)) [0..<w]) = 4 * w" by (simp only: sum_list_triv) simp
    then show ?thesis by (simp add: length_concat comp_def)
  qed
  have "map (\<lambda>y. length (concat (map (px y) [0..<w]))) [0..<h] = map (\<lambda>_. 4 * w) [0..<h]"
    using row by (intro map_cong) auto
  then have "sum_list (map (\<lambda>y. length (concat (map (px y) [0..<w]))) [0..<h]) = 4 * w * h"
    by (simp only: sum_list_triv) simp
  then show ?thesis unfolding image_def by (subst length_concat) (simp only: map_map comp_def)
qed

lemma shape_picture_length:
  "shape_picture k w h pitch raw = Some px \<Longrightarrow>
     length px = 4 * w * (if k = Monochrome then h div 2 else h)"
proof (cases k)
  case Color
  assume a: "shape_picture k w h pitch raw = Some px"
  then have f: "0 < h" "rows_fit w h pitch raw" "px = image (color_px pitch raw) w h"
    using Color by (auto simp: shape_picture_def split: if_splits)
  have "length (color_px pitch raw y x) = 4" if "y < h" "x < w" for y x
    using that rows_fit_px [OF f(2)] by blast
  from length_image [OF this] f(3) Color show ?thesis by simp
next
  case MaskedColor
  assume a: "shape_picture k w h pitch raw = Some px"
  then have f: "0 < h" "rows_fit w h pitch raw" "px = image (\<lambda>y x. masked_pixel (color_px pitch raw y x)) w h"
    using MaskedColor by (auto simp: shape_picture_def split: if_splits)
  have c: "length (color_px pitch raw y x) = 4" if "y < h" "x < w" for y x
    using that rows_fit_px [OF f(2)] by blast
  have "length (masked_pixel p) = 4" if "length p = 4" for p
    using that by (auto simp: length_Suc_conv numeral_eq_Suc)
  from length_image [OF this [OF c]] f(3) MaskedColor show ?thesis by simp
next
  case Monochrome
  assume a: "shape_picture k w h pitch raw = Some px"
  have "length (mono_px n pitch raw y x) = 4" for n y x by (simp add: mono_px_def Let_def)
  from length_image [OF this] a Monochrome show ?thesis
    by (auto simp: shape_picture_def split: if_splits)
qed

text \<open>Without the bound on the width, the monochrome decoder reads past the buffer.\<close>

lemma decode_shape_panics: "decode_shape 1 16 2 1 0 0 [0xFF, 0] = None"
  by code_simp

end
