(* ===== verification/Capture.thy ===== *)
theory Capture
  imports CursorShape
begin

text \<open>
  \<^verbatim>\<open>DxgiCapturer\<close> of \<^verbatim>\<open>crates/penflow-core/src/capture/dxgi.rs\<close>: the desktop
  duplication and its recovery. DXGI is a parameter, \<open>dda_api\<close>: the outcome of a call given every
  call before it. The calls and whether they succeeded are the log of the state.

  The lemmas state the rule of \<^verbatim>\<open>IDXGIOutputDuplication\<close>: no second acquire while a frame is
  held, no release without one.
\<close>

section \<open>Model\<close>

datatype dda_call =
    AcquireNextFrame u32 | ReleaseFrame | EnumOutputs | DuplicateOutput1 | DuplicateOutput
  | SetThreadExecutionState bool

type_synonym dda_log = "(dda_call \<times> bool) list"

record frame_info =
  fi_last_present_time :: i64
  fi_last_mouse_update_time :: i64
  fi_pointer_x :: i32
  fi_pointer_y :: i32
  fi_pointer_visible :: bool
  fi_pointer_shape_buffer_size :: u32

record shape_info =
  si_type :: u32
  si_width :: u32
  si_height :: u32
  si_pitch :: u32
  si_hot_x :: i32
  si_hot_y :: i32

text \<open>A frame: an identity for its picture, the format of its texture, its metadata, and what
  \<^verbatim>\<open>GetFramePointerShape\<close> answers for it (the filled buffer and the length it reports).\<close>

record dda_frame =
  df_id :: nat
  df_format :: u32
  df_info :: frame_info
  df_shape :: "hresult + (shape_info \<times> u32 \<times> bytes)"

text \<open>\<open>Frame_Acquired (Inl h)\<close> is a call that succeeded without a usable texture.\<close>

datatype acquire_reply = Frame_Acquired "hresult + dda_frame" | Acquire_Failed hresult

record dda_api =
  dda_acquire :: "dda_log \<Rightarrow> u32 \<Rightarrow> acquire_reply"
  dda_release :: "dda_log \<Rightarrow> bool"
  dda_open_output :: "dda_log \<Rightarrow> hresult + unit"
  dda_has_output5 :: "dda_log \<Rightarrow> bool"
  dda_duplicate1 :: "dda_log \<Rightarrow> bool"
  dda_duplicate :: "dda_log \<Rightarrow> hresult + unit"
  dda_execution_state :: "dda_log \<Rightarrow> bool"

record capturer =
  cap_monitor :: monitor_info
  cap_width :: u32
  cap_height :: u32
  cap_frame_held :: bool
  cap_display_required :: bool
  cap_log :: dda_log

definition is_ok :: "'e + 'a \<Rightarrow> bool" where
  "is_ok r = (case r of Inl _ \<Rightarrow> False | Inr _ \<Rightarrow> True)"

definition win32_result :: "hresult + 'a \<Rightarrow> engine_error + 'a" where
  "win32_result r = (case r of Inl h \<Rightarrow> Inl (Win32 h) | Inr a \<Rightarrow> Inr a)"

definition create_duplication :: "dda_api \<Rightarrow> dda_log \<Rightarrow> (engine_error + unit) \<times> dda_log" where
  "create_duplication api log =
     (let simple = (\<lambda>log. let r = dda_duplicate api log in (win32_result r, log @ [(DuplicateOutput, is_ok r)])) in
      if dda_has_output5 api log then
        (if dda_duplicate1 api log then (Inr (), log @ [(DuplicateOutput1, True)])
         else simple (log @ [(DuplicateOutput1, False)]))
      else simple log)"

definition open_output :: "dda_api \<Rightarrow> dda_log \<Rightarrow> (engine_error + unit) \<times> dda_log" where
  "open_output api log =
     (let r = dda_open_output api log in (win32_result r, log @ [(EnumOutputs, is_ok r)]))"

definition duplicate_monitor :: "dda_api \<Rightarrow> dda_log \<Rightarrow> (engine_error + unit) \<times> dda_log" where
  "duplicate_monitor api log =
     (case open_output api log of
        (Inl e, log) \<Rightarrow> (Inl e, log)
      | (Inr _, log) \<Rightarrow> create_duplication api log)"

definition capturer_new :: "dda_api \<Rightarrow> i64 \<Rightarrow> monitor_info \<Rightarrow> engine_error + capturer" where
  "capturer_new api ctx_luid monitor =
     (if ctx_luid \<noteq> mi_adapter_luid monitor then Inl (AdapterMismatch (mi_adapter_luid monitor) ctx_luid)
      else case duplicate_monitor api [] of
          (Inl e, _) \<Rightarrow> Inl e
        | (Inr _, log) \<Rightarrow>
            let display_required = dda_execution_state api log in
            Inr \<lparr>cap_monitor = monitor, cap_width = mi_width monitor, cap_height = mi_height monitor,
              cap_frame_held = False, cap_display_required = display_required,
              cap_log = log @ [(SetThreadExecutionState True, display_required)]\<rparr>)"

text \<open>The release that starts \<open>acquire_frame\<close> and \<open>reinit\<close> and that dropping a frame is.\<close>

definition release_held :: "dda_api \<Rightarrow> capturer \<Rightarrow> capturer" where
  "release_held api c =
     (if cap_frame_held c then
        c\<lparr>cap_log := cap_log c @ [(ReleaseFrame, dda_release api (cap_log c))], cap_frame_held := False\<rparr>
      else c)"

definition reinit :: "dda_api \<Rightarrow> capturer \<Rightarrow> (engine_error + unit) \<times> capturer" where
  "reinit api c =
     (let c = release_held api c; (r, log) = duplicate_monitor api (cap_log c) in (r, c\<lparr>cap_log := log\<rparr>))"

text \<open>The timeout in milliseconds.\<close>

definition clamp_timeout_ms :: "nat \<Rightarrow> u32" where
  "clamp_timeout_ms ms = (if ms = 0 then 0 else if ms > 4294967295 then 4294967295 else of_nat ms)"

text \<open>\<open>WAIT_TIMEOUT\<close> stands for both timeout codes.\<close>

definition acquire_frame :: "dda_api \<Rightarrow> nat \<Rightarrow> capturer \<Rightarrow> (engine_error + dda_frame option) \<times> capturer" where
  "acquire_frame api timeout c =
     (let c = release_held api c; timeout_ms = clamp_timeout_ms timeout in
      case dda_acquire api (cap_log c) timeout_ms of
        Frame_Acquired r \<Rightarrow>
          let c = c\<lparr>cap_frame_held := True, cap_log := cap_log c @ [(AcquireNextFrame timeout_ms, True)]\<rparr> in
          (case r of Inl h \<Rightarrow> (Inl (Win32 h), c) | Inr f \<Rightarrow> (Inr (Some f), c))
      | Acquire_Failed h \<Rightarrow>
          let c = c\<lparr>cap_log := cap_log c @ [(AcquireNextFrame timeout_ms, False)]\<rparr> in
          if h = WAIT_TIMEOUT then (Inr None, c)
          else if h = ACCESS_LOST \<or> h = ACCESS_DENIED \<or> h = OCCLUDED then
            (case reinit api c of (Inl e, c) \<Rightarrow> (Inl e, c) | (Inr _, c) \<Rightarrow> (Inr None, c))
          else (Inl (Win32 h), c))"

definition drop_capturer :: "dda_api \<Rightarrow> capturer \<Rightarrow> dda_log" where
  "drop_capturer api c =
     (let log = (if cap_frame_held c then cap_log c @ [(ReleaseFrame, dda_release api (cap_log c))] else cap_log c) in
      if cap_display_required c then log @ [(SetThreadExecutionState False, dda_execution_state api log)] else log)"

record pointer_pos =
  pp_x :: i32
  pp_y :: i32
  pp_visible :: bool

definition is_cursor_only :: "dda_frame \<Rightarrow> bool" where
  "is_cursor_only f \<longleftrightarrow> fi_last_present_time (df_info f) = 0"

definition pointer_position :: "dda_frame \<Rightarrow> pointer_pos option" where
  "pointer_position f =
     (if fi_last_mouse_update_time (df_info f) = 0 then None
      else Some \<lparr>pp_x = fi_pointer_x (df_info f), pp_y = fi_pointer_y (df_info f),
        pp_visible = fi_pointer_visible (df_info f)\<rparr>)"

text \<open>\<open>None\<close> is a panic of the decoder.\<close>

definition take_shape_update :: "dda_frame \<Rightarrow> (engine_error + cursor_shape option) option" where
  "take_shape_update f =
     (let needed = fi_pointer_shape_buffer_size (df_info f) in
      if needed = 0 then Some (Inr None)
      else case df_shape f of
          Inl h \<Rightarrow> Some (Inl (Win32 h))
        | Inr (info, required, buf) \<Rightarrow>
            let buf = (if unat required < length buf then take (unat required) buf else buf) in
            map_option (\<lambda>r. result_bind r (\<lambda>shape. Inr (Some shape)))
              (decode_shape (si_type info) (si_width info) (si_height info) (si_pitch info)
                 (si_hot_x info) (si_hot_y info) buf))"

section \<open>The rule of the duplication interface\<close>

text \<open>Whether a frame is held after a log; \<open>None\<close> for a log that breaks the rule.\<close>

fun dda_step :: "bool \<Rightarrow> dda_call \<times> bool \<Rightarrow> bool option" where
  "dda_step held (AcquireNextFrame _, ok) = (if held then None else Some ok)"
| "dda_step held (ReleaseFrame, _) = (if held then Some False else None)"
| "dda_step held (DuplicateOutput1, ok) = (if held then None else Some False)"
| "dda_step held (DuplicateOutput, ok) = (if held then None else Some False)"
| "dda_step held (_, _) = Some held"

fun dda_run :: "bool \<Rightarrow> dda_log \<Rightarrow> bool option" where
  "dda_run held [] = Some held"
| "dda_run held (c # cs) = Option.bind (dda_step held c) (\<lambda>held. dda_run held cs)"

lemma dda_run_append: "dda_run held (xs @ ys) = Option.bind (dda_run held xs) (\<lambda>held. dda_run held ys)"
  by (induction xs arbitrary: held) (simp_all add: bind_assoc split: Option.bind_split)

definition cap_ok :: "capturer \<Rightarrow> bool" where
  "cap_ok c \<longleftrightarrow> dda_run False (cap_log c) = Some (cap_frame_held c)"

lemma cap_ok_release: "cap_ok c \<Longrightarrow> cap_ok (release_held api c) \<and> \<not> cap_frame_held (release_held api c)"
  by (auto simp: cap_ok_def release_held_def dda_run_append)

lemma duplicate_monitor_run:
  "dda_run False log = Some False \<Longrightarrow> dda_run False (snd (duplicate_monitor api log)) = Some False"
  by (auto simp: duplicate_monitor_def open_output_def create_duplication_def Let_def dda_run_append split: sum.splits)

lemma cap_ok_reinit: "cap_ok c \<Longrightarrow> cap_ok (snd (reinit api c)) \<and> \<not> cap_frame_held (snd (reinit api c))"
  using cap_ok_release [of c api] duplicate_monitor_run [of "cap_log (release_held api c)" api]
  by (simp add: reinit_def Let_def cap_ok_def split_def)

lemma cap_ok_acquire: "cap_ok c \<Longrightarrow> cap_ok (snd (acquire_frame api t c))"
proof -
  assume "cap_ok c"
  then have r: "cap_ok (release_held api c)" "\<not> cap_frame_held (release_held api c)"
    using cap_ok_release by blast+
  define c0 where "c0 = release_held api c"
  have step: "cap_ok (c0\<lparr>cap_frame_held := ok, cap_log := cap_log c0 @ [(AcquireNextFrame n, ok)]\<rparr>)" for n ok
    using r by (simp add: cap_ok_def c0_def dda_run_append)
  from step [where ok = False] have fail: "cap_ok (c0\<lparr>cap_log := cap_log c0 @ [(AcquireNextFrame n, False)]\<rparr>)" for n
    using r(2) by (simp add: cap_ok_def c0_def)
  from cap_ok_reinit [OF fail] have re: "cap_ok (snd (reinit api (c0\<lparr>cap_log := cap_log c0 @ [(AcquireNextFrame n, False)]\<rparr>)))" for n
    by blast
  show ?thesis using step [where ok = True] fail re
    unfolding acquire_frame_def Let_def c0_def [symmetric]
    by (auto split: acquire_reply.split sum.split prod.split)
      (metis snd_conv)+
qed

text \<open>A frame handed to the caller is held by the capturer until it is dropped; without a frame
  and without an error nothing is held.\<close>

lemma acquire_frame_held:
  "cap_ok c \<Longrightarrow> fst (acquire_frame api t c) = Inr r \<Longrightarrow> cap_frame_held (snd (acquire_frame api t c)) = (r \<noteq> None)"
proof -
  assume "cap_ok c"
  then have r: "cap_ok (release_held api c)" "\<not> cap_frame_held (release_held api c)"
    using cap_ok_release by blast+
  define c0 where "c0 = release_held api c"
  have fail: "cap_ok (c0\<lparr>cap_log := cap_log c0 @ [(AcquireNextFrame n, False)]\<rparr>)" for n
    using r by (simp add: cap_ok_def c0_def dda_run_append)
  from cap_ok_reinit [OF fail] have re: "\<not> cap_frame_held (snd (reinit api (c0\<lparr>cap_log := cap_log c0 @ [(AcquireNextFrame n, False)]\<rparr>)))" for n
    by blast
  assume "fst (acquire_frame api t c) = Inr r"
  then show ?thesis using r(2) re
    unfolding acquire_frame_def Let_def c0_def [symmetric]
    by (auto split: acquire_reply.splits sum.splits prod.splits if_splits) (metis snd_conv)+
qed

text \<open>The uses of a capturer, in any order.\<close>

datatype cap_op = Acquire nat | Drop_Frame | Reinit

definition cap_command :: "dda_api \<Rightarrow> cap_op \<Rightarrow> capturer \<Rightarrow> capturer" where
  "cap_command api cmd c = (case cmd of
     Acquire t \<Rightarrow> snd (acquire_frame api t c)
   | Drop_Frame \<Rightarrow> release_held api c
   | Reinit \<Rightarrow> snd (reinit api c))"

lemma cap_ok_new: "capturer_new api l m = Inr c \<Longrightarrow> cap_ok c"
  using duplicate_monitor_run [of "[]" api]
  by (auto simp: capturer_new_def cap_ok_def dda_run_append Let_def split: if_splits prod.splits sum.splits)

lemma cap_ok_command: "cap_ok c \<Longrightarrow> cap_ok (cap_command api cmd c)"
  by (cases cmd) (simp_all add: cap_command_def cap_ok_acquire cap_ok_release cap_ok_reinit)

lemma cap_ok_commands: "cap_ok c \<Longrightarrow> cap_ok (fold (cap_command api) cmds c)"
  by (induction cmds arbitrary: c) (simp_all add: cap_ok_command)

lemma capture_legal:
  assumes "capturer_new api l m = Inr c"
  shows "dda_run False (drop_capturer api (fold (cap_command api) cmds c)) = Some False"
  using cap_ok_commands [OF cap_ok_new [OF assms]]
  by (auto simp: cap_ok_def drop_capturer_def Let_def dda_run_append)

end
