(* ===== verification/Pipeline.thy ===== *)
theory Pipeline
  imports Capture PacketQueue F32
begin

text \<open>
  The capture and encode loop of \<^verbatim>\<open>crates/penflow-core/src/pipeline.rs\<close>. The capturer and the
  packet queue are the models of their own theories; the GPU passes, the encoder and the clock are
  a parameter, \<open>pipe_api\<close>, whose answers depend on the calls made so far. The keepalive texture is
  described by what it shows: a desktop picture and the cursors drawn over it.
\<close>

section \<open>State\<close>

record encoded_packet =
  ep_bytes :: bytes
  ep_pts_ns :: i64
  ep_is_keyframe :: bool
  ep_encode_us :: "u32 option"

record picture =
  pic_desktop :: "nat option"
  pic_cursors :: "(i32 \<times> i32) list"

datatype pipe_call =
    Tonemap_Convert u32 bool
  | Copy_Resource
  | Update_Shape bool
  | Composite i32 i32 bool
  | Convert picture bool
  | Submit_Frame picture i64 bool bool
  | Try_Packets "encoded_packet list"

type_synonym pipe_log = "pipe_call list"

text \<open>\<open>pa_packets\<close> is what \<^verbatim>\<open>try_packet\<close> answers until it answers \<^verbatim>\<open>None\<close> or fails.\<close>

record pipe_api =
  pa_dda :: dda_api
  pa_now :: "pipe_log \<Rightarrow> nat"
  pa_tonemap :: "pipe_log \<Rightarrow> bool"
  pa_update_shape :: "pipe_log \<Rightarrow> bool"
  pa_composite :: "pipe_log \<Rightarrow> bool"
  pa_convert :: "pipe_log \<Rightarrow> engine_error + unit"
  pa_submit :: "pipe_log \<Rightarrow> i64 \<Rightarrow> bool \<Rightarrow> engine_error + unit"
  pa_packets :: "pipe_log \<Rightarrow> encoded_packet list \<times> engine_error option"

record pipeline_config =
  pc_width :: u32
  pc_height :: u32
  pc_fps :: u32
  pc_acquire_timeout :: nat
  pc_packet_queue_capacity :: nat
  pc_pts_epoch :: nat
  pc_scrgb_sdr_scale :: f32

definition pipeline_config_default :: "nat \<Rightarrow> pipeline_config" where
  "pipeline_config_default now = \<lparr>pc_width = 2560, pc_height = 1440, pc_fps = 60, pc_acquire_timeout = 16,
     pc_packet_queue_capacity = 2, pc_pts_epoch = now, pc_scrgb_sdr_scale = Fin 1\<rparr>"

text \<open>\<open>pl_cursor_blitter\<close> and \<open>pl_tonemap_blitter\<close> say whether the blitter could be built.\<close>

record pipeline =
  pl_queue :: "encoded_packet packet_queue"
  pl_stop :: bool
  pl_idr_request :: bool
  pl_keepalive_uses :: u64
  pl_capturer :: capturer
  pl_keepalive :: picture
  pl_cursor_blitter :: bool
  pl_tonemap_blitter :: bool
  pl_last_pointer :: "pointer_pos option"
  pl_cfg :: pipeline_config
  pl_has_real_frame :: bool
  pl_start_instant :: nat
  pl_last_dda_format :: "u32 option"
  pl_log :: pipe_log

definition pipeline_start :: "pipeline_config \<Rightarrow> capturer \<Rightarrow> bool \<Rightarrow> bool \<Rightarrow> pipeline" where
  "pipeline_start cfg cap cursor_ok tonemap_ok = \<lparr>
     pl_queue = packet_queue_new (pc_packet_queue_capacity cfg), pl_stop = False, pl_idr_request = False,
     pl_keepalive_uses = 0, pl_capturer = cap, pl_keepalive = \<lparr>pic_desktop = None, pic_cursors = []\<rparr>,
     pl_cursor_blitter = cursor_ok, pl_tonemap_blitter = tonemap_ok, pl_last_pointer = None, pl_cfg = cfg,
     pl_has_real_frame = False, pl_start_instant = pc_pts_epoch cfg, pl_last_dda_format = None, pl_log = []\<rparr>"

definition request_idr :: "pipeline \<Rightarrow> pipeline" where
  "request_idr p = p\<lparr>pl_idr_request := True\<rparr>"

definition pipeline_stop :: "pipeline \<Rightarrow> pipeline" where
  "pipeline_stop p = p\<lparr>pl_stop := True, pl_queue := close (pl_queue p)\<rparr>"

section \<open>One turn of the loop\<close>

definition DXGI_FORMAT_B8G8R8A8_UNORM :: u32 where "DXGI_FORMAT_B8G8R8A8_UNORM = 87"

definition is_bgra8 :: "u32 \<Rightarrow> bool" where
  "is_bgra8 fmt \<longleftrightarrow> fmt = DXGI_FORMAT_B8G8R8A8_UNORM"

definition log_format_change_once :: "u32 option \<Rightarrow> u32 \<Rightarrow> u32 option" where
  "log_format_change_once last_format current = (if last_format = Some current then last_format else Some current)"

text \<open>\<^verbatim>\<open>CopyResource\<close> copies between equal formats and does nothing otherwise.\<close>

definition copy_resource :: "dda_frame \<Rightarrow> pipeline \<Rightarrow> pipeline" where
  "copy_resource f p = p\<lparr>pl_log := pl_log p @ [Copy_Resource],
     pl_keepalive := (if is_bgra8 (df_format f) then \<lparr>pic_desktop = Some (df_id f), pic_cursors = []\<rparr>
                      else pl_keepalive p)\<rparr>"

definition tonemap_convert :: "pipe_api \<Rightarrow> dda_frame \<Rightarrow> pipeline \<Rightarrow> bool \<times> pipeline" where
  "tonemap_convert api f p =
     (let ok = pa_tonemap api (pl_log p); p = p\<lparr>pl_log := pl_log p @ [Tonemap_Convert (df_format f) ok]\<rparr> in
      (ok, if ok then p\<lparr>pl_keepalive := \<lparr>pic_desktop = Some (df_id f), pic_cursors = []\<rparr>\<rparr> else p))"

definition move_pixels :: "pipe_api \<Rightarrow> dda_frame \<Rightarrow> pipeline \<Rightarrow> pipeline" where
  "move_pixels api f p =
     (let needs_tonemap = \<not> is_bgra8 (df_format f);
          p = p\<lparr>pl_last_dda_format := log_format_change_once (pl_last_dda_format p) (df_format f)\<rparr> in
      if needs_tonemap then
        (if pl_tonemap_blitter p then
           (case tonemap_convert api f p of (True, p) \<Rightarrow> p | (False, p) \<Rightarrow> copy_resource f p)
         else copy_resource f p)
      else copy_resource f p)"

text \<open>\<open>None\<close> is a panic in the cursor decoder.\<close>

definition update_cursor :: "pipe_api \<Rightarrow> dda_frame \<Rightarrow> pipeline \<Rightarrow> pipeline option" where
  "update_cursor api f p =
     (if pl_cursor_blitter p then
        (case take_shape_update f of
           None \<Rightarrow> None
         | Some (Inr (Some shape)) \<Rightarrow> Some (p\<lparr>pl_log := pl_log p @ [Update_Shape (pa_update_shape api (pl_log p))]\<rparr>)
         | Some _ \<Rightarrow> Some p)
      else Some p)"

definition update_pointer :: "dda_frame \<Rightarrow> pipeline \<Rightarrow> pipeline" where
  "update_pointer f p =
     (case pointer_position f of Some pos \<Rightarrow> p\<lparr>pl_last_pointer := Some pos\<rparr> | None \<Rightarrow> p)"

definition drop_frame :: "pipe_api \<Rightarrow> pipeline \<Rightarrow> pipeline" where
  "drop_frame api p = p\<lparr>pl_capturer := release_held (pa_dda api) (pl_capturer p)\<rparr>"

definition composite_cursor :: "pipe_api \<Rightarrow> pipeline \<Rightarrow> pipeline" where
  "composite_cursor api p =
     (case pl_last_pointer p of
        Some pos \<Rightarrow>
          if pl_cursor_blitter p \<and> pp_visible pos then
            let ok = pa_composite api (pl_log p) in
            p\<lparr>pl_log := pl_log p @ [Composite (pp_x pos) (pp_y pos) ok],
              pl_keepalive := (if ok then (pl_keepalive p)\<lparr>pic_cursors := pic_cursors (pl_keepalive p) @ [(pp_x pos, pp_y pos)]\<rparr>
                               else pl_keepalive p)\<rparr>
          else p
      | None \<Rightarrow> p)"

definition use_frame :: "pipe_api \<Rightarrow> dda_frame \<Rightarrow> pipeline \<Rightarrow> pipeline option" where
  "use_frame api f p =
     map_option (\<lambda>p. composite_cursor api (drop_frame api (update_pointer f p)))
       (update_cursor api f ((move_pixels api f p)\<lparr>pl_has_real_frame := True\<rparr>))"

text \<open>The two fallible calls on the keepalive picture and the packets that come out.\<close>

definition convert_keepalive :: "pipe_api \<Rightarrow> pipeline \<Rightarrow> (engine_error + unit) \<times> pipeline" where
  "convert_keepalive api p =
     (let r = pa_convert api (pl_log p) in (r, p\<lparr>pl_log := pl_log p @ [Convert (pl_keepalive p) (is_ok r)]\<rparr>))"

definition submit_frame :: "pipe_api \<Rightarrow> i64 \<Rightarrow> bool \<Rightarrow> pipeline \<Rightarrow> (engine_error + unit) \<times> pipeline" where
  "submit_frame api pts_ns force_idr p =
     (let r = pa_submit api (pl_log p) pts_ns force_idr in
      (r, p\<lparr>pl_log := pl_log p @ [Submit_Frame (pl_keepalive p) pts_ns force_idr (is_ok r)]\<rparr>))"

definition push_packets :: "pipe_api \<Rightarrow> pipeline \<Rightarrow> (engine_error + unit) \<times> pipeline" where
  "push_packets api p =
     (let (pkts, e) = pa_packets api (pl_log p);
          p = p\<lparr>pl_queue := fold (\<lambda>pkt q. snd (push pkt q)) pkts (pl_queue p),
            pl_log := pl_log p @ [Try_Packets pkts]\<rparr> in
      (case e of None \<Rightarrow> (Inr (), p) | Some e \<Rightarrow> (Inl e, p)))"

text \<open>\<^verbatim>\<open>Instant::duration_since\<close> saturates at zero. The result \<open>None\<close> is a panic.\<close>

definition encode_keepalive :: "pipe_api \<Rightarrow> nat \<Rightarrow> bool \<Rightarrow> pipeline \<Rightarrow> (engine_error + unit) \<times> pipeline" where
  "encode_keepalive api now force_idr p =
     (case convert_keepalive api p of
        (Inl e, p) \<Rightarrow> (Inl e, p)
      | (Inr _, p) \<Rightarrow>
          (case submit_frame api (of_nat (now - pl_start_instant p)) force_idr p of
             (Inl e, p) \<Rightarrow> (Inl e, p)
           | (Inr _, p) \<Rightarrow> push_packets api p))"

definition tick :: "pipe_api \<Rightarrow> pipeline \<Rightarrow> ((engine_error + unit) \<times> pipeline) option" where
  "tick api p =
     (let force_idr = pl_idr_request p; p = p\<lparr>pl_idr_request := False\<rparr> in
      case acquire_frame (pa_dda api) (pc_acquire_timeout (pl_cfg p)) (pl_capturer p) of
        (Inl e, cap) \<Rightarrow> Some (Inl e, p\<lparr>pl_capturer := cap\<rparr>)
      | (Inr acquired, cap) \<Rightarrow>
          let p = p\<lparr>pl_capturer := cap\<rparr>; now = pa_now api (pl_log p) in
          map_option (encode_keepalive api now force_idr)
            (case acquired of
               Some f \<Rightarrow> use_frame api f p
             | None \<Rightarrow> Some (p\<lparr>pl_keepalive_uses := pl_keepalive_uses p + 1\<rparr>)))"

section \<open>The loop and its users\<close>

text \<open>What happens to a running pipeline, in order: a turn of its thread, or one of the calls of
  the session. The thread ends at an error, at a panic, and at the first turn after a stop.\<close>

datatype pipe_op = Turn | Request | Stop | Take

record pipe_run =
  pr_pipe :: pipeline
  pr_exit :: "(engine_error + unit) option"
  pr_panicked :: bool

definition pipe_event :: "pipe_api \<Rightarrow> pipe_op \<Rightarrow> pipe_run \<Rightarrow> pipe_run" where
  "pipe_event api ev r =
     (let p = pr_pipe r in
      case ev of
        Turn \<Rightarrow>
          if pr_exit r \<noteq> None \<or> pr_panicked r then r
          else if pl_stop p then r\<lparr>pr_exit := Some (Inr ())\<rparr>
          else (case tick api p of
              None \<Rightarrow> r\<lparr>pr_panicked := True\<rparr>
            | Some (Inl e, p') \<Rightarrow> r\<lparr>pr_pipe := p', pr_exit := Some (Inl e)\<rparr>
            | Some (Inr _, p') \<Rightarrow> r\<lparr>pr_pipe := p'\<rparr>)
      | Request \<Rightarrow> r\<lparr>pr_pipe := request_idr p\<rparr>
      | Stop \<Rightarrow> r\<lparr>pr_pipe := pipeline_stop p\<rparr>
      | Take \<Rightarrow> r\<lparr>pr_pipe := p\<lparr>pl_queue := snd (try_pop (pl_queue p))\<rparr>\<rparr>)"

definition pipe_started :: "pipeline \<Rightarrow> pipe_run" where
  "pipe_started p = \<lparr>pr_pipe = p, pr_exit = None, pr_panicked = False\<rparr>"

definition pipe_events :: "pipe_api \<Rightarrow> pipe_op list \<Rightarrow> pipe_run \<Rightarrow> pipe_run" where
  "pipe_events api evs r = fold (pipe_event api) evs r"

end
