(* ===== verification/PipelineProps.thy ===== *)
theory PipelineProps
  imports Pipeline "HOL-Library.Sublist"
begin

text \<open>
  What the capture loop owes the session: a forced IDR for every request, once; the packets of the
  encoder in order; a picture that is the last captured desktop with the cursor where it was last
  seen; and a duplication interface used by its rule.
\<close>

section \<open>One turn\<close>

text \<open>The frames that were submitted.\<close>

definition submits :: "pipe_log \<Rightarrow> (picture \<times> i64 \<times> bool) list" where
  "submits calls = concat (map (\<lambda>c. case c of Submit_Frame pic pts f True \<Rightarrow> [(pic, pts, f)] | _ \<Rightarrow> []) calls)"

lemma submits_simps [simp]:
  "submits [] = []" "submits (xs @ ys) = submits xs @ submits ys"
  "submits (Tonemap_Convert u b # calls) = submits calls" "submits (Copy_Resource # calls) = submits calls"
  "submits (Update_Shape b # calls) = submits calls" "submits (Composite x y b # calls) = submits calls"
  "submits (Convert pic b # calls) = submits calls" "submits (Try_Packets pkts # calls) = submits calls"
  "submits (Submit_Frame pic pts f b # calls) = (if b then (pic, pts, f) # submits calls else submits calls)"
  by (simp_all add: submits_def split: bool.split)

text \<open>The packets that the encoder has put out.\<close>

definition encoded :: "pipe_log \<Rightarrow> encoded_packet list" where
  "encoded calls = concat (map (\<lambda>c. case c of Try_Packets pkts \<Rightarrow> pkts | _ \<Rightarrow> []) calls)"

lemma encoded_simps [simp]:
  "encoded [] = []" "encoded (xs @ ys) = encoded xs @ encoded ys"
  "encoded (Tonemap_Convert u b # calls) = encoded calls" "encoded (Copy_Resource # calls) = encoded calls"
  "encoded (Update_Shape b # calls) = encoded calls" "encoded (Composite x y b # calls) = encoded calls"
  "encoded (Convert pic b # calls) = encoded calls" "encoded (Submit_Frame pic pts f b # calls) = encoded calls"
  "encoded (Try_Packets pkts # calls) = pkts @ encoded calls"
  by (simp_all add: encoded_def)

text \<open>The calls of the encoder.\<close>

definition enc_calls :: "pipe_log \<Rightarrow> pipe_log" where
  "enc_calls calls = filter (\<lambda>c. case c of Submit_Frame _ _ _ _ \<Rightarrow> True | Try_Packets _ \<Rightarrow> True | _ \<Rightarrow> False) calls"

lemma enc_calls_simps [simp]:
  "enc_calls [] = []" "enc_calls (xs @ ys) = enc_calls xs @ enc_calls ys"
  "enc_calls (Tonemap_Convert u b # calls) = enc_calls calls" "enc_calls (Copy_Resource # calls) = enc_calls calls"
  "enc_calls (Update_Shape b # calls) = enc_calls calls" "enc_calls (Composite x y b # calls) = enc_calls calls"
  "enc_calls (Convert pic b # calls) = enc_calls calls"
  "enc_calls (Submit_Frame pic pts f b # calls) = Submit_Frame pic pts f b # enc_calls calls"
  "enc_calls (Try_Packets pkts # calls) = Try_Packets pkts # enc_calls calls"
  by (simp_all add: enc_calls_def)

text \<open>What using a frame leaves alone.\<close>

definition same_rest :: "pipeline \<Rightarrow> pipeline \<Rightarrow> bool" where
  "same_rest p p' \<longleftrightarrow> submits (pl_log p') = submits (pl_log p) \<and> encoded (pl_log p') = encoded (pl_log p) \<and>
     enc_calls (pl_log p') = enc_calls (pl_log p) \<and> pl_idr_request p' = pl_idr_request p \<and>
     pl_stop p' = pl_stop p \<and> pl_queue p' = pl_queue p \<and> pl_start_instant p' = pl_start_instant p \<and>
     pl_cfg p' = pl_cfg p \<and> pl_keepalive_uses p' = pl_keepalive_uses p"

lemma same_rest_trans: "same_rest p q \<Longrightarrow> same_rest q r \<Longrightarrow> same_rest p r"
  by (simp add: same_rest_def)

lemma same_rest_steps:
  "same_rest p (move_pixels api f p)" "update_cursor api f p = Some p1 \<Longrightarrow> same_rest p p1"
  "same_rest p (update_pointer f p)" "same_rest p (drop_frame api p)" "same_rest p (composite_cursor api p)"
  "same_rest p (p\<lparr>pl_has_real_frame := b\<rparr>)"
  by (auto simp: same_rest_def move_pixels_def copy_resource_def tonemap_convert_def update_cursor_def
      update_pointer_def drop_frame_def composite_cursor_def Let_def split: bool.splits option.splits if_splits sum.splits)

lemma same_rest_use_frame: "use_frame api f p = Some p1 \<Longrightarrow> same_rest p p1"
proof -
  assume "use_frame api f p = Some p1"
  then obtain q where q: "update_cursor api f ((move_pixels api f p)\<lparr>pl_has_real_frame := True\<rparr>) = Some q"
      and p1: "p1 = composite_cursor api (drop_frame api (update_pointer f q))"
    by (auto simp: use_frame_def)
  note steps = same_rest_steps(1) same_rest_steps(6) same_rest_steps(2) [OF q] same_rest_steps(3) same_rest_steps(4) same_rest_steps(5)
  have "same_rest p q" by (rule same_rest_trans [OF same_rest_trans [OF steps(1) steps(2)] steps(3)])
  then show ?thesis unfolding p1
    by (rule same_rest_trans [OF same_rest_trans [OF same_rest_trans [OF _ steps(4)] steps(5)] steps(6)])
qed

lemma capturer_steps:
  "pl_capturer (move_pixels api f p) = pl_capturer p" "update_cursor api f p = Some p1 \<Longrightarrow> pl_capturer p1 = pl_capturer p"
  "pl_capturer (update_pointer f p) = pl_capturer p" "pl_capturer (composite_cursor api p) = pl_capturer p"
  by (auto simp: move_pixels_def copy_resource_def tonemap_convert_def update_cursor_def
      update_pointer_def composite_cursor_def Let_def split: bool.splits option.splits if_splits sum.splits)

lemma capturer_use_frame:
  "use_frame api f p = Some p1 \<Longrightarrow> pl_capturer p1 = release_held (pa_dda api) (pl_capturer p)"
  by (auto simp: use_frame_def capturer_steps drop_frame_def)

lemma encode_keepalive_Inr:
  assumes "encode_keepalive api now force p = (Inr u, p')"
  shows "submits (pl_log p') = submits (pl_log p) @ [(pl_keepalive p, of_nat (now - pl_start_instant p), force)] \<and>
    pl_keepalive p' = pl_keepalive p \<and> pl_idr_request p' = pl_idr_request p \<and> pl_stop p' = pl_stop p \<and>
    pl_capturer p' = pl_capturer p \<and> (\<exists>calls. pl_queue p' = fold (\<lambda>pkt q. snd (push pkt q)) (fst (pa_packets api calls)) (pl_queue p))"
  using assms
  by (auto simp: encode_keepalive_def convert_keepalive_def submit_frame_def push_packets_def is_ok_def Let_def split_def
      split: sum.splits option.splits)

definition pushes :: "encoded_packet list \<Rightarrow> pipeline \<Rightarrow> pipeline \<Rightarrow> bool" where
  "pushes pkts p p' \<longleftrightarrow> pl_queue p' = fold (\<lambda>pkt q. snd (push pkt q)) pkts (pl_queue p) \<and>
     encoded (pl_log p') = encoded (pl_log p) @ pkts"

definition puts_out :: "pipe_api \<Rightarrow> encoded_packet list \<Rightarrow> bool" where
  "puts_out api pkts \<longleftrightarrow> pkts = [] \<or> (\<exists>calls. pkts = fst (pa_packets api calls))"

lemma encode_keepalive_queue: "\<exists>pkts. puts_out api pkts \<and> pushes pkts p (snd (encode_keepalive api now force p))"
proof -
  have "pushes [] p (snd (encode_keepalive api now force p)) \<or>
    (\<exists>calls. pushes (fst (pa_packets api calls)) p (snd (encode_keepalive api now force p)))"
    unfolding pushes_def
    by (auto simp: encode_keepalive_def convert_keepalive_def submit_frame_def push_packets_def Let_def split_def
        split: sum.splits option.splits)
  then show ?thesis unfolding puts_out_def by blast
qed

lemma encode_keepalive_capturer: "pl_capturer (snd (encode_keepalive api now force p)) = pl_capturer p"
  by (simp add: encode_keepalive_def convert_keepalive_def submit_frame_def push_packets_def Let_def split_def
      split: sum.splits option.splits)

text \<open>The two ways through a turn.\<close>

definition take_acquired :: "pipe_api \<Rightarrow> dda_frame option \<Rightarrow> pipeline \<Rightarrow> pipeline option" where
  "take_acquired api acq p = (case acq of
     Some f \<Rightarrow> use_frame api f p
   | None \<Rightarrow> Some (p\<lparr>pl_keepalive_uses := pl_keepalive_uses p + 1\<rparr>))"

lemma tick_cases:
  assumes "tick api p = Some (res, p')"
  obtains (failed) e cap where
      "acquire_frame (pa_dda api) (pc_acquire_timeout (pl_cfg p)) (pl_capturer p) = (Inl e, cap)"
      "res = Inl e" "p' = p\<lparr>pl_idr_request := False, pl_capturer := cap\<rparr>"
    | (acquired) acq cap p2 where
      "acquire_frame (pa_dda api) (pc_acquire_timeout (pl_cfg p)) (pl_capturer p) = (Inr acq, cap)"
      "take_acquired api acq (p\<lparr>pl_idr_request := False, pl_capturer := cap\<rparr>) = Some p2"
      "encode_keepalive api (pa_now api (pl_log p)) (pl_idr_request p) p2 = (res, p')"
  using assms unfolding tick_def take_acquired_def [symmetric] Let_def
  by (auto split: prod.splits sum.splits)

text \<open>A turn that succeeds submits one frame: the keepalive picture, forced when an IDR was
  requested before it; the request is used up.\<close>

lemma tick_Inr:
  assumes "tick api p = Some (Inr u, p')"
  shows "\<exists>now. submits (pl_log p') = submits (pl_log p) @ [(pl_keepalive p', of_nat (now - pl_start_instant p), pl_idr_request p)]"
    and "\<not> pl_idr_request p'" "pl_stop p' = pl_stop p"
proof -
  from assms obtain acq cap p2 where
      t: "take_acquired api acq (p\<lparr>pl_idr_request := False, pl_capturer := cap\<rparr>) = Some p2"
        "encode_keepalive api (pa_now api (pl_log p)) (pl_idr_request p) p2 = (Inr u, p')"
    by (rule tick_cases) auto
  have "submits (pl_log p2) = submits (pl_log p) \<and> \<not> pl_idr_request p2 \<and> pl_stop p2 = pl_stop p \<and> pl_start_instant p2 = pl_start_instant p"
    using t(1) by (cases acq) (auto dest!: same_rest_use_frame simp: same_rest_def take_acquired_def)
  with encode_keepalive_Inr [OF t(2)]
  show "\<exists>now. submits (pl_log p') = submits (pl_log p) @ [(pl_keepalive p', of_nat (now - pl_start_instant p), pl_idr_request p)]"
    "\<not> pl_idr_request p'" "pl_stop p' = pl_stop p" by auto
qed

section \<open>The picture\<close>

text \<open>What the encoder should be shown: the frame, and the cursor at the position DDA gave with
  this frame or with the last one that gave a position.\<close>

definition pointer_after :: "dda_frame \<Rightarrow> pointer_pos option \<Rightarrow> pointer_pos option" where
  "pointer_after f last_pos = (case pointer_position f of Some pos \<Rightarrow> Some pos | None \<Rightarrow> last_pos)"

definition visible_at :: "pointer_pos option \<Rightarrow> (i32 \<times> i32) list" where
  "visible_at pos = (case pos of Some pos \<Rightarrow> if pp_visible pos then [(pp_x pos, pp_y pos)] else [] | None \<Rightarrow> [])"

definition gpu_works :: "pipe_api \<Rightarrow> bool" where
  "gpu_works api \<longleftrightarrow> (\<forall>calls. pa_tonemap api calls \<and> pa_composite api calls)"

lemma move_pixels_picture:
  assumes "is_bgra8 (df_format f) \<or> pl_tonemap_blitter p \<and> (\<forall>calls. pa_tonemap api calls)"
  shows "pl_keepalive (move_pixels api f p) = \<lparr>pic_desktop = Some (df_id f), pic_cursors = []\<rparr>"
  using assms by (auto simp: move_pixels_def copy_resource_def tonemap_convert_def Let_def)

lemma picture_rest:
  "pl_last_pointer (move_pixels api f p) = pl_last_pointer p" "pl_cursor_blitter (move_pixels api f p) = pl_cursor_blitter p"
  "pl_tonemap_blitter (move_pixels api f p) = pl_tonemap_blitter p"
  "update_cursor api f p = Some p1 \<Longrightarrow> pl_last_pointer p1 = pl_last_pointer p \<and> pl_keepalive p1 = pl_keepalive p \<and>
     pl_cursor_blitter p1 = pl_cursor_blitter p \<and> pl_tonemap_blitter p1 = pl_tonemap_blitter p"
  "pl_last_pointer (update_pointer f p) = pointer_after f (pl_last_pointer p)" "pl_keepalive (update_pointer f p) = pl_keepalive p"
  "pl_cursor_blitter (update_pointer f p) = pl_cursor_blitter p" "pl_tonemap_blitter (update_pointer f p) = pl_tonemap_blitter p"
  by (auto simp: move_pixels_def copy_resource_def tonemap_convert_def update_cursor_def
      update_pointer_def pointer_after_def Let_def split: bool.splits option.splits if_splits sum.splits)

lemma use_frame_picture:
  assumes "use_frame api f p = Some p'" "gpu_works api" "pl_cursor_blitter p" "pl_tonemap_blitter p"
  shows "pl_keepalive p' = \<lparr>pic_desktop = Some (df_id f), pic_cursors = visible_at (pointer_after f (pl_last_pointer p))\<rparr> \<and>
    pl_last_pointer p' = pointer_after f (pl_last_pointer p) \<and> pl_cursor_blitter p' \<and> pl_tonemap_blitter p'"
proof -
  from assms(1) obtain p1 where p1: "update_cursor api f ((move_pixels api f p)\<lparr>pl_has_real_frame := True\<rparr>) = Some p1"
      and p': "p' = composite_cursor api (drop_frame api (update_pointer f p1))"
    by (auto simp: use_frame_def)
  have m: "pl_keepalive (move_pixels api f p) = \<lparr>pic_desktop = Some (df_id f), pic_cursors = []\<rparr>"
    by (rule move_pixels_picture) (use assms in \<open>auto simp: gpu_works_def\<close>)
  show ?thesis using picture_rest(4) [OF p1] m assms(2-4)
    by (auto simp: p' picture_rest composite_cursor_def drop_frame_def visible_at_def gpu_works_def Let_def split: option.splits)
qed

text \<open>The desktop and pointer after a turn, from those before it.\<close>

lemma tick_picture:
  assumes t: "tick api p = Some (Inr u, p')" and g: "gpu_works api" "pl_cursor_blitter p" "pl_tonemap_blitter p"
    and a: "fst (acquire_frame (pa_dda api) (pc_acquire_timeout (pl_cfg p)) (pl_capturer p)) = Inr acq"
  shows "pl_keepalive p' = (case acq of None \<Rightarrow> pl_keepalive p
    | Some f \<Rightarrow> \<lparr>pic_desktop = Some (df_id f), pic_cursors = visible_at (pointer_after f (pl_last_pointer p))\<rparr>)"
proof -
  from t a obtain cap p2 where
      p2: "take_acquired api acq (p\<lparr>pl_idr_request := False, pl_capturer := cap\<rparr>) = Some p2"
        "encode_keepalive api (pa_now api (pl_log p)) (pl_idr_request p) p2 = (Inr u, p')"
    by (auto elim: tick_cases)
  have "pl_keepalive p' = pl_keepalive p2" using encode_keepalive_Inr [OF p2(2)] by blast
  then show ?thesis using p2(1) g use_frame_picture [OF _ g(1)]
    by (cases acq) (auto simp: take_acquired_def)
qed

section \<open>Runs\<close>

text \<open>The flags the encoder should see: a turn is forced when a request came since the turn
  before it.\<close>

fun idr_flags :: "bool \<Rightarrow> pipe_op list \<Rightarrow> bool list" where
  "idr_flags asked [] = []"
| "idr_flags asked (Turn # evs) = asked # idr_flags False evs"
| "idr_flags asked (Request # evs) = idr_flags True evs"
| "idr_flags asked (_ # evs) = idr_flags asked evs"

definition running :: "pipe_run \<Rightarrow> bool" where
  "running r \<longleftrightarrow> pr_exit r = None \<and> \<not> pr_panicked r"

lemma not_running_event: "\<not> running r \<Longrightarrow> \<not> running (pipe_event api ev r)"
  by (cases ev) (auto simp: pipe_event_def running_def Let_def)

lemma not_running_events: "\<not> running r \<Longrightarrow> \<not> running (pipe_events api evs r)"
  unfolding pipe_events_def by (induction evs arbitrary: r) (simp_all add: not_running_event)

lemma idr_flags_run:
  assumes "running (pipe_events api evs r)"
  shows "map (snd \<circ> snd) (submits (pl_log (pr_pipe (pipe_events api evs r)))) =
    map (snd \<circ> snd) (submits (pl_log (pr_pipe r))) @ idr_flags (pl_idr_request (pr_pipe r)) evs"
  using assms
proof (induction evs arbitrary: r)
  case Nil
  then show ?case by (simp add: pipe_events_def)
next
  case (Cons ev evs)
  let ?r = "pipe_event api ev r"
  have e: "pipe_events api (ev # evs) r = pipe_events api evs ?r" by (simp add: pipe_events_def)
  have run: "running ?r" using Cons.prems not_running_events [of ?r api evs] unfolding e by blast
  note IH = Cons.IH [OF Cons.prems [unfolded e]]
  show ?case
  proof (cases ev)
    case Turn
    have r: "running r" using run not_running_event by blast
    then obtain p' where p': "tick api (pr_pipe r) = Some (Inr (), p')" "pr_pipe ?r = p'"
      using run Turn by (auto simp: pipe_event_def running_def Let_def split: if_splits option.splits prod.splits sum.splits)
    from tick_Inr [OF p'(1)] p'(2) IH Turn show ?thesis unfolding e by (auto simp: comp_def)
  qed (use IH e in \<open>simp_all add: pipe_event_def request_idr_def pipeline_stop_def Let_def\<close>)
qed

text \<open>Requests coalesce: there are at most as many forced frames as requests.\<close>

lemma idr_flags_count: "length (filter id (idr_flags asked evs)) \<le> count_list evs Request + (if asked then 1 else 0)"
  by (induction asked evs rule: idr_flags.induct) auto

text \<open>The duplication interface is used by its rule, no frame stays held between turns, and the
  queue keeps its bound; also when a turn fails.\<close>

definition pipe_inv :: "pipe_run \<Rightarrow> bool" where
  "pipe_inv r \<longleftrightarrow> cap_ok (pl_capturer (pr_pipe r)) \<and> pq_ok (pl_queue (pr_pipe r)) \<and>
     (running r \<longrightarrow> \<not> cap_frame_held (pl_capturer (pr_pipe r)))"

lemma pq_ok_push: "pq_ok g \<Longrightarrow> pq_ok (snd (push x g))"
  by (auto simp: push_def Let_def pq_ok_def)

lemma pq_ok_pushes: "pq_ok g \<Longrightarrow> pq_ok (fold (\<lambda>x g. snd (push x g)) xs g)"
  by (induction xs arbitrary: g) (simp_all add: pq_ok_push)

lemma pq_ok_close: "pq_ok (close g) = pq_ok g"
  by (simp add: pq_ok_def close_def)

lemma pq_ok_try_pop: "pq_ok g \<Longrightarrow> pq_ok (snd (try_pop g))"
  by (auto simp: try_pop_def pop_turn_def pq_ok_def split: list.split)

lemma tick_inv:
  assumes "tick api p = Some (res, p')" "cap_ok (pl_capturer p)" "pq_ok (pl_queue p)"
  shows "cap_ok (pl_capturer p') \<and> pq_ok (pl_queue p') \<and> (is_ok res \<longrightarrow> \<not> cap_frame_held (pl_capturer p'))"
proof -
  define d where "d = pa_dda api"
  have c: "cap_ok (snd (acquire_frame d t (pl_capturer p)))" for t by (rule cap_ok_acquire [OF assms(2)])
  note h = acquire_frame_held [OF assms(2), of d]
  show ?thesis using assms(1)
  proof (cases rule: tick_cases)
    case (failed e cap)
    then show ?thesis using c assms(3) by (auto simp: is_ok_def d_def) (metis snd_conv)
  next
    case (acquired acq cap p2)
    have cap: "cap_ok cap" "cap_frame_held cap = (acq \<noteq> None)"
      using c h acquired(1) by (metis d_def snd_conv, metis d_def fst_conv snd_conv)
    have "cap_ok (pl_capturer p2) \<and> \<not> cap_frame_held (pl_capturer p2) \<and> pl_queue p2 = pl_queue p"
    proof (cases acq)
      case None
      then show ?thesis using acquired(2) cap by (auto simp: take_acquired_def)
    next
      case (Some f)
      then have u: "use_frame api f (p\<lparr>pl_idr_request := False, pl_capturer := cap\<rparr>) = Some p2"
        using acquired(2) by (simp add: take_acquired_def)
      from capturer_use_frame [OF u] same_rest_use_frame [OF u] cap_ok_release [OF cap(1), of "pa_dda api"]
      show ?thesis by (simp add: same_rest_def)
    qed
    moreover have "pl_capturer p' = pl_capturer p2"
      using encode_keepalive_capturer [of api "pa_now api (pl_log p)" "pl_idr_request p" p2] acquired(3) by simp
    moreover obtain pkts where "pl_queue p' = fold (\<lambda>pkt q. snd (push pkt q)) pkts (pl_queue p2)"
      using encode_keepalive_queue [of api p2 "pa_now api (pl_log p)" "pl_idr_request p"] acquired(3) by (auto simp: pushes_def)
    ultimately show ?thesis using assms(3) by (simp add: pq_ok_pushes)
  qed
qed

lemma pipe_inv_event: "pipe_inv r \<Longrightarrow> pipe_inv (pipe_event api ev r)"
proof (cases ev)
  case Turn
  assume i: "pipe_inv r"
  show ?thesis
  proof (cases "running r \<and> \<not> pl_stop (pr_pipe r)")
    case True
    then show ?thesis
    proof (cases "tick api (pr_pipe r)")
      case None
      then show ?thesis using i True Turn by (auto simp: pipe_event_def running_def pipe_inv_def Let_def)
    next
      case (Some t)
      obtain res p' where t: "t = (res, p')" by (cases t)
      from tick_inv [OF Some [unfolded t]] i
      have "cap_ok (pl_capturer p') \<and> pq_ok (pl_queue p') \<and> (is_ok res \<longrightarrow> \<not> cap_frame_held (pl_capturer p'))"
        by (simp add: pipe_inv_def)
      then show ?thesis using Some t True Turn
        by (auto simp: pipe_event_def running_def pipe_inv_def is_ok_def Let_def split: sum.splits)
    qed
  next
    case False
    then show ?thesis using i Turn by (auto simp: pipe_event_def running_def pipe_inv_def Let_def)
  qed
qed (auto simp: pipe_event_def pipe_inv_def running_def request_idr_def pipeline_stop_def pq_ok_close pq_ok_try_pop Let_def)

lemma pipe_inv_events: "pipe_inv r \<Longrightarrow> pipe_inv (pipe_events api evs r)"
  unfolding pipe_events_def by (induction evs arbitrary: r) (simp_all add: pipe_inv_event)

lemma pipe_inv_started:
  assumes "capturer_new api l m = Inr cap"
  shows "pipe_inv (pipe_started (pipeline_start cfg cap c t))"
proof -
  have "\<not> cap_frame_held cap"
    using assms by (auto simp: capturer_new_def Let_def split: if_splits prod.splits sum.splits)
  then show ?thesis using cap_ok_new [OF assms] by (simp add: pipe_inv_def pipe_started_def pipeline_start_def)
qed

lemma pipeline_legal:
  assumes "capturer_new (pa_dda api) l m = Inr cap"
  shows "pipe_inv (pipe_events api evs (pipe_started (pipeline_start cfg cap c t)))"
  by (rule pipe_inv_events) (rule pipe_inv_started [OF assms])

lemma subseq_Cons: "subseq xs (x # xs)"
  by (rule list_emb_Cons) simp

text \<open>Order: what was taken from the queue, followed by what is still in it, is a subsequence of what
  the encoder put out. Overflow may drop packets, nothing else happens to them.\<close>

definition in_order :: "encoded_packet list \<Rightarrow> pipeline \<Rightarrow> bool" where
  "in_order D p \<longleftrightarrow> subseq (D @ pq_deque (pl_queue p)) (encoded (pl_log p))"

lemma subseq_push:
  assumes "subseq (D @ pq_deque q) E"
  shows "subseq (D @ pq_deque (snd (push x q))) (E @ [x])"
proof -
  have "subseq (D @ tl (pq_deque q)) (D @ pq_deque q)"
    by (cases "pq_deque q") (simp_all add: subseq_append' subseq_Cons)
  then have tl: "subseq (D @ tl (pq_deque q)) E" using assms by (rule subseq_order.trans)
  have "subseq ys E \<Longrightarrow> subseq (ys @ [x]) (E @ [x])" for ys by (simp add: list_emb_append_mono)
  moreover have "subseq (D @ pq_deque q) (E @ [x])" using assms subseq_append' [of E "[]" "[x]"]
    by (auto intro: subseq_order.trans)
  ultimately show ?thesis using assms tl
    by (auto simp: push_def Let_def simp flip: append_assoc)
qed

lemma subseq_pushes:
  "subseq (D @ pq_deque q) E \<Longrightarrow> subseq (D @ pq_deque (fold (\<lambda>x q. snd (push x q)) xs q)) (E @ xs)"
proof (induction xs arbitrary: q E)
  case (Cons x xs)
  from Cons.IH [OF subseq_push [OF Cons.prems]] show ?case by simp
qed simp

lemma in_order_tick:
  assumes "tick api p = Some (res, p')" "in_order D p"
  shows "in_order D p'"
  using assms(1)
proof (cases rule: tick_cases)
  case (failed e cap)
  then show ?thesis using assms(2) by (simp add: in_order_def)
next
  case (acquired acq cap p2)
  have "pl_queue p2 = pl_queue p \<and> encoded (pl_log p2) = encoded (pl_log p)"
    using acquired(2) by (cases acq) (auto dest!: same_rest_use_frame simp: same_rest_def take_acquired_def)
  moreover obtain pkts where "pushes pkts p2 p'"
    using encode_keepalive_queue [of api p2 "pa_now api (pl_log p)" "pl_idr_request p"] acquired(3) by auto
  ultimately show ?thesis using assms(2) subseq_pushes by (simp add: in_order_def pushes_def)
qed

text \<open>What holds of all packets that the encoder can put out holds of those it did.\<close>

definition encoder_gives :: "pipe_api \<Rightarrow> (encoded_packet \<Rightarrow> bool) \<Rightarrow> bool" where
  "encoder_gives api P \<longleftrightarrow> (\<forall>calls. list_all P (fst (pa_packets api calls)))"

lemma encoded_tick:
  assumes "tick api p = Some (res, p')" "encoder_gives api P" "list_all P (encoded (pl_log p))"
  shows "list_all P (encoded (pl_log p'))"
  using assms(1)
proof (cases rule: tick_cases)
  case (failed e cap)
  then show ?thesis using assms(3) by simp
next
  case (acquired acq cap p2)
  have "encoded (pl_log p2) = encoded (pl_log p)"
    using acquired(2) by (cases acq) (auto dest!: same_rest_use_frame simp: same_rest_def take_acquired_def)
  moreover obtain pkts where "puts_out api pkts" "pushes pkts p2 p'"
    using encode_keepalive_queue [of api p2 "pa_now api (pl_log p)" "pl_idr_request p"] acquired(3) by auto
  ultimately show ?thesis using assms(2,3) by (auto simp: pushes_def puts_out_def encoder_gives_def)
qed

lemma encoded_event:
  "encoder_gives api P \<Longrightarrow> list_all P (encoded (pl_log (pr_pipe r))) \<Longrightarrow>
     list_all P (encoded (pl_log (pr_pipe (pipe_event api ev r))))"
  by (cases ev) (auto simp: pipe_event_def request_idr_def pipeline_stop_def Let_def
      split: option.splits sum.splits dest: encoded_tick)

lemma encoded_events:
  "encoder_gives api P \<Longrightarrow> list_all P (encoded (pl_log (pr_pipe r))) \<Longrightarrow>
     list_all P (encoded (pl_log (pr_pipe (pipe_events api evs r))))"
  unfolding pipe_events_def by (induction evs arbitrary: r) (auto simp: encoded_event)

lemma in_order_event: "ev \<noteq> Take \<Longrightarrow> in_order D (pr_pipe r) \<Longrightarrow> in_order D (pr_pipe (pipe_event api ev r))"
  by (cases ev) (auto simp: pipe_event_def in_order_def request_idr_def pipeline_stop_def close_def Let_def
      split: option.splits sum.splits dest: in_order_tick [unfolded in_order_def])

lemma in_order_events:
  "Take \<notin> set evs \<Longrightarrow> in_order D (pr_pipe r) \<Longrightarrow> in_order D (pr_pipe (pipe_events api evs r))"
  unfolding pipe_events_def by (induction evs arbitrary: r) (auto simp: in_order_event)

lemma try_pop_Some: "try_pop q = (Some p, q') \<Longrightarrow> pq_deque q = p # pq_deque q'"
  by (auto simp: try_pop_def pop_turn_def split: list.splits if_splits)

lemma try_pop_None: "try_pop q = (None, q') \<Longrightarrow> q' = q"
  by (auto simp: try_pop_def pop_turn_def split: list.splits if_splits)

lemma in_order_pop:
  assumes "try_pop (pl_queue p) = (Some x, q)" "in_order D p"
  shows "in_order (D @ [x]) (p\<lparr>pl_queue := q\<rparr>)" "in_order D (p\<lparr>pl_queue := q\<rparr>)"
proof -
  have s: "subseq (D @ x # pq_deque q) (encoded (pl_log p))"
    using assms try_pop_Some [OF assms(1)] by (simp add: in_order_def)
  then show "in_order (D @ [x]) (p\<lparr>pl_queue := q\<rparr>)" by (simp add: in_order_def)
  have "subseq (D @ pq_deque q) (D @ x # pq_deque q)" by (simp add: subseq_append' subseq_Cons)
  then show "in_order D (p\<lparr>pl_queue := q\<rparr>)" using s by (auto simp: in_order_def intro: subseq_order.trans)
qed

lemma in_order_start: "in_order [] (pipeline_start cfg cap c t)"
  by (simp add: in_order_def pipeline_start_def packet_queue_new_def)

text \<open>The thread ends at its next turn once it is stopped.\<close>

lemma stopped_ends: "\<not> running (pipe_event api Turn (pipe_event api Stop r))"
  by (auto simp: pipe_event_def running_def pipeline_stop_def Let_def)

lemma pipeline_stops: "Turn \<in> set evs \<Longrightarrow> \<not> running (pipe_events api evs (pipe_event api Stop r))"
proof (induction evs arbitrary: r)
  case (Cons ev evs)
  have "\<not> running (pipe_events api evs (pipe_event api Turn (pipe_event api Stop r)))"
    by (rule not_running_events) (rule stopped_ends)
  moreover have "pipe_event api ev (pipe_event api Stop r) =
      pipe_event api Stop (pipe_event api ev (pipe_event api Stop r))" if "ev \<noteq> Turn"
    using that by (cases ev)
      (simp_all add: pipe_event_def pipeline_stop_def request_idr_def close_def Let_def try_pop_def pop_turn_def split: list.split)
  ultimately show ?case using Cons by (cases "ev = Turn") (simp_all add: pipe_events_def, metis)
qed simp

end
