(* ===== verification/Engine.thy ===== *)
theory Engine
  imports PipelineProps SpsPacket
begin

text \<open>
  \<^verbatim>\<open>Engine\<close> and \<^verbatim>\<open>EngineBuilder\<close> of \<^verbatim>\<open>crates/penflow-core/src/lib.rs\<close>, the context of
  \<^verbatim>\<open>d3d11.rs\<close> as far as the engine uses it, and the SDR white level of \<^verbatim>\<open>sdr_white_level.rs\<close>.
  What DXGI, Direct3D and Media Foundation answer while the engine starts is a parameter,
  \<open>engine_api\<close>.

  The lemmas say what an engine that started is: a pipeline of the size of the monitor it was asked
  for, on the adapter of that monitor, that keeps the rules of the pipeline from then on.
\<close>

section \<open>The SDR white level\<close>

text \<open>A display path: the answer of the source-name query and, after it, that of the white-level
  query, in thousandths of 80 nits.\<close>

record display_path =
  dp_source_name :: "string option"
  dp_sdr_white_level :: "u32 option"

fun find_white_level :: "string \<Rightarrow> display_path list \<Rightarrow> f32 option" where
  "find_white_level dev_name [] = None"
| "find_white_level dev_name (path # paths) =
     (case dp_source_name path of
        None \<Rightarrow> find_white_level dev_name paths
      | Some gdi_name \<Rightarrow>
          if gdi_name \<noteq> dev_name then find_white_level dev_name paths
          else (case dp_sdr_white_level path of
              None \<Rightarrow> None
            | Some level \<Rightarrow>
                let scale = f32_div (f32_of_int (uint level)) (Fin 1000) in
                Some (f32_clamp (rnd (1 / 10)) 16 scale)))"

text \<open>\<open>None\<close> for the list of active paths when the query of Windows fails.\<close>

definition query_sdr_white_level_scale :: "display_path list option \<Rightarrow> string \<Rightarrow> f32 option" where
  "query_sdr_white_level_scale active_paths dev_name =
     (case active_paths of
        None \<Rightarrow> None
      | Some paths \<Rightarrow> if paths = [] then None else find_white_level dev_name paths)"

section \<open>The builder\<close>

record engine_builder =
  eb_monitor :: monitor_info
  eb_codec :: codec
  eb_bitrate_bps :: u32
  eb_fps :: u32
  eb_acquire_timeout :: nat
  eb_packet_queue_capacity :: nat
  eb_pts_epoch :: "nat option"

definition builder :: "monitor_info \<Rightarrow> engine_builder" where
  "builder monitor = \<lparr>eb_monitor = monitor, eb_codec = Hevc, eb_bitrate_bps = 50000000, eb_fps = 60,
     eb_acquire_timeout = 16, eb_packet_queue_capacity = 8, eb_pts_epoch = None\<rparr>"

definition with_codec :: "codec \<Rightarrow> engine_builder \<Rightarrow> engine_builder" where
  "with_codec c b = b\<lparr>eb_codec := c\<rparr>"

definition with_bitrate_bps :: "u32 \<Rightarrow> engine_builder \<Rightarrow> engine_builder" where
  "with_bitrate_bps x b = b\<lparr>eb_bitrate_bps := x\<rparr>"

definition with_fps :: "u32 \<Rightarrow> engine_builder \<Rightarrow> engine_builder" where
  "with_fps x b = b\<lparr>eb_fps := x\<rparr>"

definition with_acquire_timeout :: "nat \<Rightarrow> engine_builder \<Rightarrow> engine_builder" where
  "with_acquire_timeout d b = b\<lparr>eb_acquire_timeout := d\<rparr>"

definition with_packet_queue_capacity :: "nat \<Rightarrow> engine_builder \<Rightarrow> engine_builder" where
  "with_packet_queue_capacity n b = b\<lparr>eb_packet_queue_capacity := n\<rparr>"

definition with_pts_epoch :: "nat \<Rightarrow> engine_builder \<Rightarrow> engine_builder" where
  "with_pts_epoch e b = b\<lparr>eb_pts_epoch := Some e\<rparr>"

text \<open>The configuration handed to the encoder backend; its only input format is NV12.\<close>

record encoder_config =
  ec_width :: u32
  ec_height :: u32
  ec_fps :: u32
  ec_bitrate_bps :: u32
  ec_codec :: codec

record engine_api =
  ea_factory :: "hresult + unit"
  ea_listing :: "(adapter_desc \<times> output_desc listing) listing"
  ea_adapter :: "nat \<Rightarrow> hresult + adapter_desc"
  ea_create_device :: "engine_error + unit"
  ea_converter :: "u32 \<Rightarrow> u32 \<Rightarrow> u32 \<Rightarrow> engine_error + unit"
  ea_backend :: "engine_error + unit"
  ea_encoder :: "encoder_config \<Rightarrow> engine_error + unit"
  ea_display_paths :: "display_path list option"
  ea_keepalive :: "u32 \<Rightarrow> u32 \<Rightarrow> engine_error + unit"
  ea_cursor_blitter :: bool
  ea_tonemap_blitter :: bool
  ea_thread :: bool
  ea_now :: nat
  ea_dda :: dda_api

record engine =
  en_monitor :: monitor_info
  en_pipeline :: "pipeline option"

definition create_dxgi_factory :: "engine_api \<Rightarrow> engine_error + unit" where
  "create_dxgi_factory api = win32_result (ea_factory api)"

definition list_monitors :: "engine_api \<Rightarrow> engine_error + monitor_info list" where
  "list_monitors api = result_bind (create_dxgi_factory api) (\<lambda>_. enumerate_monitors (ea_listing api))"

text \<open>\<^verbatim>\<open>D3d11Context::create_on_adapter\<close>: of the context only the LUID of its adapter is used again.\<close>

definition create_on_adapter :: "engine_api \<Rightarrow> adapter_desc \<Rightarrow> engine_error + i64" where
  "create_on_adapter api adapter =
     result_bind (ea_create_device api) (\<lambda>_. Inr (luid (ad_luid_high adapter) (ad_luid_low adapter)))"

definition start_pipeline :: "engine_api \<Rightarrow> pipeline_config \<Rightarrow> capturer \<Rightarrow> engine_error + pipeline" where
  "start_pipeline api cfg cap =
     result_bind (ea_keepalive api (pc_width cfg) (pc_height cfg)) (\<lambda>_.
       if ea_thread api then Inr (pipeline_start cfg cap (ea_cursor_blitter api) (ea_tonemap_blitter api))
       else Inl NotInitialized)"

text \<open>The monitor as it is now: the one listed under the same adapter and name, or the one given.\<close>

definition same_monitor :: "monitor_info \<Rightarrow> monitor_info \<Rightarrow> bool" where
  "same_monitor m m' \<longleftrightarrow> mi_adapter_luid m = mi_adapter_luid m' \<and> mi_device_name m = mi_device_name m'"

definition current_monitor :: "monitor_info list \<Rightarrow> monitor_info \<Rightarrow> monitor_info" where
  "current_monitor ms cached = (case find (\<lambda>m. same_monitor m cached) ms of Some m \<Rightarrow> m | None \<Rightarrow> cached)"

definition engine_start :: "engine_api \<Rightarrow> engine_builder \<Rightarrow> engine_error + engine" where
  "engine_start api b =
     result_bind (list_monitors api) (\<lambda>ms.
     let monitor = current_monitor ms (eb_monitor b) in
     result_bind (open_adapter (ea_adapter api) monitor) (\<lambda>adapter.
     result_bind (create_on_adapter api adapter) (\<lambda>ctx_luid.
     let width = mi_width monitor; height = mi_height monitor in
     if width = 0 \<or> height = 0 then Inl (AdapterHasNoOutputs (mi_adapter_name monitor) (mi_adapter_luid monitor))
     else
       result_bind (capturer_new (ea_dda api) ctx_luid monitor) (\<lambda>capturer.
       result_bind (ea_converter api width height (eb_fps b)) (\<lambda>_.
       result_bind (ea_backend api) (\<lambda>_.
       result_bind (ea_encoder api \<lparr>ec_width = width, ec_height = height, ec_fps = eb_fps b,
           ec_bitrate_bps = eb_bitrate_bps b, ec_codec = eb_codec b\<rparr>) (\<lambda>_.
       let scrgb_sdr_scale = (case query_sdr_white_level_scale (ea_display_paths api) (mi_device_name monitor) of
               Some s \<Rightarrow> s | None \<Rightarrow> Fin 1) in
       result_bind (start_pipeline api
           \<lparr>pc_width = width, pc_height = height, pc_fps = eb_fps b, pc_acquire_timeout = eb_acquire_timeout b,
            pc_packet_queue_capacity = eb_packet_queue_capacity b,
            pc_pts_epoch = (case eb_pts_epoch b of Some e \<Rightarrow> e | None \<Rightarrow> ea_now api),
            pc_scrgb_sdr_scale = scrgb_sdr_scale\<rparr> capturer) (\<lambda>pipeline.
       Inr \<lparr>en_monitor = monitor, en_pipeline = Some pipeline\<rparr>))))))))"

definition engine_request_idr :: "engine \<Rightarrow> engine" where
  "engine_request_idr e = e\<lparr>en_pipeline := map_option request_idr (en_pipeline e)\<rparr>"

definition engine_stop :: "engine \<Rightarrow> engine" where
  "engine_stop e = e\<lparr>en_pipeline := map_option pipeline_stop (en_pipeline e)\<rparr>"

section \<open>Facts\<close>

lemma tenth_le: "rnd (1 / 10) \<le> 16"
  by code_simp

text \<open>The scale is a number between 0.1 and 16, whatever Windows reports.\<close>

lemma white_level_bounds:
  assumes "query_sdr_white_level_scale paths dev_name = Some s"
  shows "\<exists>x. s = Fin x \<and> rnd (1 / 10) \<le> x \<and> x \<le> 16"
proof -
  have "find_white_level dev_name ps = Some s \<Longrightarrow> \<exists>v. v \<noteq> NaN \<and> s = f32_clamp (rnd (1 / 10)) 16 v" for ps
    by (induction ps) (auto simp: Let_def f32_of_int_def f32_make_def split: option.splits if_splits)
  then obtain v where "v \<noteq> NaN" "s = f32_clamp (rnd (1 / 10)) 16 v"
    using assms by (auto simp: query_sdr_white_level_scale_def split: option.splits if_splits)
  then show ?thesis using tenth_le by (cases v) auto
qed

lemma open_adapter_Inr:
  "open_adapter f m = Inr a \<Longrightarrow> luid (ad_luid_high a) (ad_luid_low a) = mi_adapter_luid m"
  by (auto simp: open_adapter_def Let_def split: sum.splits if_splits)

lemma current_monitor_same: "same_monitor (current_monitor ms m) m"
  by (auto simp: current_monitor_def same_monitor_def find_Some_iff split: option.split)

lemma engine_start_Inr:
  assumes "engine_start api b = Inr e"
  obtains ms cap cfg where "list_monitors api = Inr ms" "en_monitor e = current_monitor ms (eb_monitor b)"
    "capturer_new (ea_dda api) (mi_adapter_luid (en_monitor e)) (en_monitor e) = Inr cap"
    "mi_width (en_monitor e) \<noteq> 0" "mi_height (en_monitor e) \<noteq> 0"
    "pc_width cfg = mi_width (en_monitor e)" "pc_height cfg = mi_height (en_monitor e)" "pc_fps cfg = eb_fps b"
    "pc_packet_queue_capacity cfg = eb_packet_queue_capacity b"
    "en_pipeline e = Some (pipeline_start cfg cap (ea_cursor_blitter api) (ea_tonemap_blitter api))"
    "\<exists>x. pc_scrgb_sdr_scale cfg = Fin x \<and> rnd (1 / 10) \<le> x \<and> x \<le> 16"
proof -
  obtain ms where ms: "list_monitors api = Inr ms" using assms by (auto simp: engine_start_def result_bind_Inr_iff)
  define m where "m = current_monitor ms (eb_monitor b)"
  obtain a where a: "open_adapter (ea_adapter api) m = Inr a"
    using assms ms by (auto simp: engine_start_def result_bind_Inr_iff m_def Let_def)
  define scale where "scale = (case query_sdr_white_level_scale (ea_display_paths api) (mi_device_name m) of
      Some s \<Rightarrow> s | None \<Rightarrow> Fin 1)"
  have one: "rnd (1 / 10) \<le> 1" by code_simp
  have sc: "\<exists>x. scale = Fin x \<and> rnd (1 / 10) \<le> x \<and> x \<le> 16"
    using white_level_bounds [of "ea_display_paths api" "mi_device_name m"] one
    by (auto simp: scale_def split: option.split)
  define cfg where "cfg = \<lparr>pc_width = mi_width m, pc_height = mi_height m, pc_fps = eb_fps b,
    pc_acquire_timeout = eb_acquire_timeout b, pc_packet_queue_capacity = eb_packet_queue_capacity b,
    pc_pts_epoch = (case eb_pts_epoch b of Some e \<Rightarrow> e | None \<Rightarrow> ea_now api), pc_scrgb_sdr_scale = scale\<rparr>"
  have "mi_width m \<noteq> 0 \<and> mi_height m \<noteq> 0 \<and> (\<exists>cap. capturer_new (ea_dda api) (mi_adapter_luid m) m = Inr cap \<and>
      e = \<lparr>en_monitor = m, en_pipeline = Some (pipeline_start cfg cap (ea_cursor_blitter api) (ea_tonemap_blitter api))\<rparr>)"
    using assms ms a open_adapter_Inr [OF a]
    by (auto simp: engine_start_def result_bind_Inr_iff Let_def m_def [symmetric] scale_def [symmetric] cfg_def
        create_on_adapter_def start_pipeline_def split: if_splits)
  then show ?thesis using that [of ms _ cfg] ms sc by (auto simp: cfg_def m_def)
qed

text \<open>An engine that starts captures the monitor it was asked for at the size that monitor has now,
  and its pipeline keeps the rules of the duplication interface and of the queue in every run.\<close>

lemma engine_start_sound:
  assumes "engine_start api b = Inr e" "pa_dda papi = ea_dda api"
  shows "same_monitor (en_monitor e) (eb_monitor b) \<and> mi_width (en_monitor e) \<noteq> 0 \<and> mi_height (en_monitor e) \<noteq> 0 \<and>
    (\<exists>p. en_pipeline e = Some p \<and> pc_width (pl_cfg p) = mi_width (en_monitor e) \<and>
       pc_height (pl_cfg p) = mi_height (en_monitor e) \<and> pipe_inv (pipe_events papi evs (pipe_started p)))"
proof -
  from assms(1) obtain ms cap cfg where f: "en_monitor e = current_monitor ms (eb_monitor b)"
      "capturer_new (ea_dda api) (mi_adapter_luid (en_monitor e)) (en_monitor e) = Inr cap"
      "mi_width (en_monitor e) \<noteq> 0" "mi_height (en_monitor e) \<noteq> 0"
      "pc_width cfg = mi_width (en_monitor e)" "pc_height cfg = mi_height (en_monitor e)"
      "en_pipeline e = Some (pipeline_start cfg cap (ea_cursor_blitter api) (ea_tonemap_blitter api))"
    by (rule engine_start_Inr)
  have "same_monitor (en_monitor e) (eb_monitor b)" unfolding f(1) by (rule current_monitor_same)
  moreover have "pipe_inv (pipe_events papi evs (pipe_started (pipeline_start cfg cap c t)))" for c t
    using pipeline_legal [of papi _ _ cap evs cfg c t] f(2) assms(2) by simp
  ultimately show ?thesis using f by (simp add: pipeline_start_def)
qed

end
