(* ===== verification/Vdd.thy ===== *)
theory Vdd
  imports Monitors
begin

unbundle bit_operations_syntax

text \<open>
  The life cycle of the virtual display driver of \<^verbatim>\<open>crates/penflow-server/src/vdd.rs\<close>: device
  selection, the \<^verbatim>\<open>devcon\<close> calls and their verification, the one-shot helper and the wait for the
  virtual monitor. The resident helper is in \<open>VddResident\<close>.

  Windows is a parameter, \<open>pnp_api\<close>: what a call answers given the calls before it. Time is the
  clock of the state in milliseconds; a sleep advances it by at least its length. Error messages are
  modelled by the reason they report.
\<close>

section \<open>Errors and devices\<close>

datatype shell_failure =
    No_Exe_Path | No_Devcon | Spawn_Failed | Devcon_Failed "int option" | Create_Event_Failed
  | Shell_Execute_Failed | No_Process_Handle | Enable_Not_Signalled u32

datatype timeline_entry =
    Topology_Requested nat
  | Topology_Failed nat
  | Status_At nat u32 u32
  | Status_Error nat

datatype vdd_error =
    Vdd_Win32 hresult
  | DisplayConfig
  | DevNodeNotFound string
  | AccessDenied
  | ConfigManager u32
  | DriverProblem u32 u32
  | HelperExitedNonZero "u32 option"
  | EnableHadNoEffect
  | DisableHadNoEffect u32 u32
  | ShellExecute shell_failure
  | EnumerationTimeout nat "string list" "timeline_entry list"
  | Vdd_Dxgi engine_error

record discovered_device =
  dd_instance_id :: string
  dd_friendly_name :: string
  dd_is_disabled :: bool

definition matches_vdd_heuristic :: "string \<Rightarrow> bool" where
  "matches_vdd_heuristic name = (let n = map to_lower name in
     list_ex (contains n) [''virtual display driver'', ''mttvdd'', ''iddsample'', ''amyuni usb mobile''])"

text \<open>The key of \<^verbatim>\<open>min_by_key\<close>, compared as pairs; the first of several least elements is taken.\<close>

definition device_key :: "discovered_device \<Rightarrow> nat \<times> nat" where
  "device_key c = (if dd_is_disabled c then 0 else 1,
     if contains (map to_lower (dd_friendly_name c)) ''virtual display driver'' then 0 else 1)"

definition key_less :: "nat \<times> nat \<Rightarrow> nat \<times> nat \<Rightarrow> bool" where
  "key_less a b \<longleftrightarrow> fst a < fst b \<or> fst a = fst b \<and> snd a < snd b"

fun min_by_key :: "('a \<Rightarrow> nat \<times> nat) \<Rightarrow> 'a list \<Rightarrow> 'a option" where
  "min_by_key key [] = None"
| "min_by_key key (x # xs) =
     (case min_by_key key xs of None \<Rightarrow> Some x | Some y \<Rightarrow> if key_less (key y) (key x) then Some y else Some x)"

definition choose_device :: "discovered_device list \<Rightarrow> discovered_device option" where
  "choose_device candidates =
     min_by_key device_key (filter (\<lambda>c. matches_vdd_heuristic (dd_friendly_name c)) candidates)"

text \<open>\<open>get_name\<close> of a device: its description, else its friendly name, else its instance id.\<close>

definition device_name :: "string option \<Rightarrow> string option \<Rightarrow> string \<Rightarrow> string" where
  "device_name devicedesc friendlyname instance_id =
     (case devicedesc of
        Some s \<Rightarrow> if s \<noteq> [] then s else (case friendlyname of Some t \<Rightarrow> if t \<noteq> [] then t else instance_id | None \<Rightarrow> instance_id)
      | None \<Rightarrow> (case friendlyname of Some t \<Rightarrow> if t \<noteq> [] then t else instance_id | None \<Rightarrow> instance_id))"

section \<open>The device manager\<close>

datatype device_action = Enable | Disable

datatype pnp_call =
    Devcon device_action string
  | Install_Driver bool string
  | Read_Status string
  | Sleep nat
  | Enumerate
  | Extend_Topology
  | Change_Mode string u32 u32 u32

type_synonym pnp_log = "pnp_call list"

datatype devcon_reply = Devcon_Missing | Devcon_Not_Spawned | Devcon_Exit "int option" string

text \<open>The answer of \<^verbatim>\<open>CM_Locate_DevNodeW\<close> followed by \<^verbatim>\<open>CM_Get_DevNode_Status\<close>.\<close>

datatype devnode_reply = Locate_Failed u32 | Status_Failed u32 | Node_Status u32 u32

record pnp_api =
  pnp_elevated :: bool
  pnp_devcon :: "pnp_log \<Rightarrow> device_action \<Rightarrow> string \<Rightarrow> devcon_reply"
  pnp_install :: "pnp_log \<Rightarrow> bool \<Rightarrow> string \<Rightarrow> devcon_reply"
  pnp_devnode :: "pnp_log \<Rightarrow> string \<Rightarrow> devnode_reply"
  pnp_monitors :: "pnp_log \<Rightarrow> engine_error + monitor_info list"
  pnp_extend :: "pnp_log \<Rightarrow> bool"
  pnp_change_mode :: "pnp_log \<Rightarrow> string \<Rightarrow> u32 \<Rightarrow> u32 \<Rightarrow> u32 \<Rightarrow> bool"
  pnp_delay :: "pnp_log \<Rightarrow> nat"
  pnp_runas :: "pnp_log \<Rightarrow> shell_failure option"

record pnp_world =
  pw_clock :: nat
  pw_log :: pnp_log

type_synonym 'a vdd_op = "pnp_world \<Rightarrow> (vdd_error + 'a) \<times> pnp_world"

definition vdd_bind :: "'a vdd_op \<Rightarrow> ('a \<Rightarrow> 'b vdd_op) \<Rightarrow> 'b vdd_op" where
  "vdd_bind f g w = (case f w of (Inl e, w') \<Rightarrow> (Inl e, w') | (Inr a, w') \<Rightarrow> g a w')"

text \<open>A call takes the time \<open>pnp_delay\<close> says, a sleep at least its length.\<close>

definition call :: "pnp_api \<Rightarrow> pnp_call \<Rightarrow> pnp_world \<Rightarrow> pnp_world" where
  "call api c w = w\<lparr>pw_log := pw_log w @ [c],
     pw_clock := pw_clock w + pnp_delay api (pw_log w) + (case c of Sleep ms \<Rightarrow> ms | _ \<Rightarrow> 0)\<rparr>"

definition sleep :: "pnp_api \<Rightarrow> nat \<Rightarrow> unit vdd_op" where
  "sleep api ms w = (Inr (), call api (Sleep ms) w)"

definition CR_NO_SUCH_DEVNODE :: u32 where "CR_NO_SUCH_DEVNODE = 0x0D"
definition DN_HAS_PROBLEM :: u32 where "DN_HAS_PROBLEM = 0x400"
definition CM_PROB_DISABLED :: u32 where "CM_PROB_DISABLED = 22"

definition snapshot_devnode_status :: "pnp_api \<Rightarrow> string \<Rightarrow> (u32 \<times> u32) vdd_op" where
  "snapshot_devnode_status api instance_id w =
     (case pnp_devnode api (pw_log w) instance_id of
        Locate_Failed r \<Rightarrow> Inl (if r = CR_NO_SUCH_DEVNODE then DevNodeNotFound instance_id else ConfigManager r)
      | Status_Failed r \<Rightarrow> Inl (ConfigManager r)
      | Node_Status s p \<Rightarrow> Inr (s, p), call api (Read_Status instance_id) w)"

definition is_disabled :: "u32 \<times> u32 \<Rightarrow> bool" where
  "is_disabled sp \<longleftrightarrow> fst sp AND DN_HAS_PROBLEM \<noteq> 0 \<and> snd sp = CM_PROB_DISABLED"

definition devnode_is_disabled :: "pnp_api \<Rightarrow> string \<Rightarrow> bool vdd_op" where
  "devnode_is_disabled api instance_id =
     vdd_bind (snapshot_devnode_status api instance_id) (\<lambda>sp w. (Inr (is_disabled sp), w))"

text \<open>The loop of \<open>verify_devnode_disabled\<close>.\<close>

function wait_disabled :: "pnp_api \<Rightarrow> string \<Rightarrow> nat \<Rightarrow> unit vdd_op" where
  "wait_disabled api instance_id deadline w =
     (case devnode_is_disabled api instance_id w of
        (Inl e, w) \<Rightarrow> (Inl e, w)
      | (Inr True, w) \<Rightarrow> (Inr (), w)
      | (Inr False, w) \<Rightarrow>
          if deadline \<le> pw_clock w then
            vdd_bind (snapshot_devnode_status api instance_id) (\<lambda>(s, p) w. (Inl (DisableHadNoEffect s p), w)) w
          else wait_disabled api instance_id deadline (call api (Sleep 150) w))"
  by pat_completeness auto
termination
proof (relation "measure (\<lambda>(api, i, deadline, w). deadline - pw_clock w)", goal_cases)
  case (2 api i deadline w r w1 b)
  have "pw_clock w \<le> pw_clock w1"
    using 2(1) by (auto simp: devnode_is_disabled_def vdd_bind_def snapshot_devnode_status_def call_def
        split: devnode_reply.splits prod.splits sum.splits if_splits)
  then show ?case using 2 by (auto simp: call_def)
qed simp

declare wait_disabled.simps [simp del]

definition verify_devnode_disabled :: "pnp_api \<Rightarrow> string \<Rightarrow> unit vdd_op" where
  "verify_devnode_disabled api instance_id w = wait_disabled api instance_id (pw_clock w + 3000) w"

definition verify_devnode_started :: "pnp_api \<Rightarrow> string \<Rightarrow> unit vdd_op" where
  "verify_devnode_started api instance_id =
     vdd_bind (sleep api 300) (\<lambda>_.
     vdd_bind (snapshot_devnode_status api instance_id) (\<lambda>(status, problem) w.
       (if status AND DN_HAS_PROBLEM \<noteq> 0 then
          if problem = CM_PROB_DISABLED then Inl EnableHadNoEffect else Inl (DriverProblem status problem)
        else Inr (), w)))"

definition devcon_action :: "pnp_api \<Rightarrow> device_action \<Rightarrow> string \<Rightarrow> unit vdd_op" where
  "devcon_action api action instance_id w =
     (case pnp_devcon api (pw_log w) action instance_id of
        Devcon_Missing \<Rightarrow> (Inl (ShellExecute No_Devcon), w)
      | Devcon_Not_Spawned \<Rightarrow> (Inl (ShellExecute Spawn_Failed), call api (Devcon action instance_id) w)
      | Devcon_Exit code transcript \<Rightarrow>
          let no_match = contains (map to_lower transcript) ''no matching devices found'' in
          (if code = Some 0 \<or> code = Some 1 \<and> \<not> no_match then Inr ()
           else Inl (ShellExecute (Devcon_Failed code)), call api (Devcon action instance_id) w))"

section \<open>The one-shot helper\<close>

datatype helper_action = Do_Install | Do_Uninstall | Do_Enable | Do_Disable | Do_Other string

text \<open>The exit code of \<^verbatim>\<open>helper_main\<close> for a complete command line that is not \<^verbatim>\<open>resident\<close>. It
  reads the status before and after the action for its log.\<close>

definition log_status :: "pnp_api \<Rightarrow> string \<Rightarrow> pnp_world \<Rightarrow> pnp_world" where
  "log_status api instance_id w = snd (snapshot_devnode_status api instance_id w)"

definition exit_of :: "(vdd_error + unit) \<times> pnp_world \<Rightarrow> u32 \<times> pnp_world" where
  "exit_of r = (case r of (Inr _, w) \<Rightarrow> (0, w) | (Inl _, w) \<Rightarrow> (1, w))"

definition install_exit :: "pnp_api \<Rightarrow> bool \<Rightarrow> string \<Rightarrow> pnp_world \<Rightarrow> u32 \<times> pnp_world" where
  "install_exit api install inf_path w =
     (case pnp_install api (pw_log w) install inf_path of
        Devcon_Exit code _ \<Rightarrow> if code = Some 0 \<or> code = Some 1 then 0 else 1
      | _ \<Rightarrow> 1, call api (Install_Driver install inf_path) w)"

definition helper_main :: "pnp_api \<Rightarrow> helper_action \<Rightarrow> string \<Rightarrow> pnp_world \<Rightarrow> u32 \<times> pnp_world" where
  "helper_main api action instance_id w =
     (let w = log_status api instance_id w;
          finish = (\<lambda>(c, w). (c, log_status api instance_id w)) in
      case action of
        Do_Install \<Rightarrow> install_exit api True instance_id w
      | Do_Uninstall \<Rightarrow> install_exit api False instance_id w
      | Do_Enable \<Rightarrow> finish (exit_of
          (vdd_bind (devcon_action api Enable instance_id) (\<lambda>_. verify_devnode_started api instance_id) w))
      | Do_Disable \<Rightarrow> finish (exit_of
          (vdd_bind (devcon_action api Disable instance_id) (\<lambda>_. verify_devnode_disabled api instance_id) w))
      | Do_Other _ \<Rightarrow> (2, w))"

text \<open>\<open>pnp_runas\<close> says why the helper could not be started, if it could not; the helper runs
  with the rights of an administrator.\<close>

definition run_helper_elevated :: "pnp_api \<Rightarrow> helper_action \<Rightarrow> string \<Rightarrow> unit vdd_op" where
  "run_helper_elevated api action instance_id w =
     (case pnp_runas api (pw_log w) of
        Some why \<Rightarrow> (Inl (ShellExecute why), w)
      | None \<Rightarrow>
          let (code, w) = helper_main api action instance_id w in
          (if code = 0 then Inr () else Inl (HelperExitedNonZero (Some code)), w))"

definition install_driver :: "pnp_api \<Rightarrow> string \<Rightarrow> unit vdd_op" where
  "install_driver api inf_path = run_helper_elevated api Do_Install inf_path"

definition uninstall_driver :: "pnp_api \<Rightarrow> string \<Rightarrow> unit vdd_op" where
  "uninstall_driver api inf_path = run_helper_elevated api Do_Uninstall inf_path"

text \<open>What \<open>enable\<close> and \<open>disable\<close> do when no resident helper is involved.\<close>

definition enable_direct :: "pnp_api \<Rightarrow> string \<Rightarrow> unit vdd_op" where
  "enable_direct api instance_id =
     vdd_bind (devcon_action api Enable instance_id) (\<lambda>_. verify_devnode_started api instance_id)"

definition disable_fallback :: "pnp_api \<Rightarrow> string \<Rightarrow> unit vdd_op" where
  "disable_fallback api instance_id =
     (if pnp_elevated api then
        vdd_bind (devcon_action api Disable instance_id) (\<lambda>_. verify_devnode_disabled api instance_id)
      else run_helper_elevated api Do_Disable instance_id)"

section \<open>Waiting for the monitor\<close>

fun decimal :: "nat \<Rightarrow> string" where
  "decimal n = (if n < 10 then [char_of (48 + n)] else decimal (n div 10) @ [char_of (48 + n mod 10)])"

declare decimal.simps [simp del]

definition decimal_int :: "int \<Rightarrow> string" where
  "decimal_int k = (if k < 0 then ''-'' @ decimal (nat (- k)) else decimal (nat k))"

definition monitor_key :: "monitor_info \<Rightarrow> string" where
  "monitor_key m = decimal_int (sint (mi_adapter_luid m)) @ '':'' @ mi_device_name m"

definition snapshot_attached_monitor_keys :: "pnp_api \<Rightarrow> string list vdd_op" where
  "snapshot_attached_monitor_keys api w =
     (case pnp_monitors api (pw_log w) of
        Inl e \<Rightarrow> Inl (Vdd_Dxgi e)
      | Inr ms \<Rightarrow> Inr (map monitor_key (filter (\<lambda>m. mi_attached m \<and> \<not> mi_adapter_is_software m) ms)), call api Enumerate w)"

definition extend_desktop :: "pnp_api \<Rightarrow> unit vdd_op" where
  "extend_desktop api w = (if pnp_extend api (pw_log w) then Inr () else Inl DisplayConfig, call api Extend_Topology w)"

definition monitor_label :: "monitor_info \<Rightarrow> string" where
  "monitor_label m = mi_device_name m @ '' on '' @ mi_adapter_name m @ '' ('' @ decimal (unat (mi_width m)) @ ''x'' @
     decimal (unat (mi_height m)) @ '', attached='' @ (if mi_attached m then ''true'' else ''false'') @ '')''"

text \<open>The closure of \<^verbatim>\<open>find\<close>: the monitor that the driver brought up.\<close>

definition is_virtual_monitor :: "string list option \<Rightarrow> monitor_info \<Rightarrow> bool" where
  "is_virtual_monitor baseline m =
     (if \<not> mi_attached m \<or> mi_adapter_is_software m then False
      else if mi_looks_virtual m then True
      else (case baseline of Some keys \<Rightarrow> \<not> list_ex (\<lambda>k. k = monitor_key m) keys | None \<Rightarrow> False))"

record wait_state =
  ws_all_seen :: "string list"
  ws_timeline :: "timeline_entry list"
  ws_last_dxgi_err :: "engine_error option"
  ws_last_status_t :: nat
  ws_last_topology_t :: "nat option"

definition wait_topology :: "pnp_api \<Rightarrow> nat \<Rightarrow> string list option \<Rightarrow> wait_state \<times> pnp_world \<Rightarrow> wait_state \<times> pnp_world" where
  "wait_topology api start baseline sw =
     (let (st, w) = sw in
      if baseline \<noteq> None \<and> (case ws_last_topology_t st of Some t \<Rightarrow> 1000 \<le> pw_clock w - t | None \<Rightarrow> True) then
        let elapsed_ms = pw_clock w - start; (r, w') = extend_desktop api w;
            entry = (case r of Inr _ \<Rightarrow> Topology_Requested elapsed_ms | Inl _ \<Rightarrow> Topology_Failed elapsed_ms) in
        (st\<lparr>ws_timeline := ws_timeline st @ [entry], ws_last_topology_t := Some (pw_clock w')\<rparr>, w')
      else (st, w))"

definition see_monitors :: "monitor_info list \<Rightarrow> string list \<Rightarrow> string list" where
  "see_monitors ms seen = fold (\<lambda>m seen. if monitor_label m \<in> set seen then seen else seen @ [monitor_label m]) ms seen"

definition wait_sample :: "pnp_api \<Rightarrow> string list option \<Rightarrow> wait_state \<times> pnp_world \<Rightarrow>
    monitor_info option \<times> wait_state \<times> pnp_world" where
  "wait_sample api baseline sw =
     (let (st, w) = sw; w' = call api Enumerate w in
      case pnp_monitors api (pw_log w) of
        Inl e \<Rightarrow> (None, st\<lparr>ws_last_dxgi_err := Some e\<rparr>, w')
      | Inr ms \<Rightarrow> (find (is_virtual_monitor baseline) ms, st\<lparr>ws_all_seen := see_monitors ms (ws_all_seen st)\<rparr>, w'))"

definition wait_status :: "pnp_api \<Rightarrow> nat \<Rightarrow> string option \<Rightarrow> wait_state \<times> pnp_world \<Rightarrow> wait_state \<times> pnp_world" where
  "wait_status api start instance_id sw =
     (let (st, w) = sw in
      case instance_id of
        None \<Rightarrow> (st, w)
      | Some i \<Rightarrow>
          if 1000 \<le> pw_clock w - ws_last_status_t st then
            let elapsed_ms = pw_clock w - start; (r, w') = snapshot_devnode_status api i w;
                entry = (case r of Inr (s, p) \<Rightarrow> Status_At elapsed_ms s p | Inl _ \<Rightarrow> Status_Error elapsed_ms) in
            (st\<lparr>ws_timeline := ws_timeline st @ [entry], ws_last_status_t := pw_clock w'\<rparr>, w')
          else (st, w))"

lemma call_clock: "pw_clock w \<le> pw_clock (call api c w)" "pw_clock w + ms \<le> pw_clock (call api (Sleep ms) w)"
  by (simp_all add: call_def)

lemma wait_steps_clock:
  "pw_clock (snd sw) \<le> pw_clock (snd (wait_topology api start baseline sw))"
  "pw_clock (snd sw) \<le> pw_clock (snd (snd (wait_sample api baseline sw)))"
  "pw_clock (snd sw) \<le> pw_clock (snd (wait_status api start i sw))"
  by (simp_all add: wait_topology_def wait_sample_def wait_status_def extend_desktop_def snapshot_devnode_status_def
      call_clock split_def Let_def split: option.split sum.split devnode_reply.split)

text \<open>One iteration that does not find the monitor ends with a sleep.\<close>

definition wait_turn :: "pnp_api \<Rightarrow> nat \<Rightarrow> string option \<Rightarrow> string list option \<Rightarrow> wait_state \<times> pnp_world \<Rightarrow>
    monitor_info option \<times> wait_state \<times> pnp_world" where
  "wait_turn api start instance_id baseline sw =
     (case wait_sample api baseline (wait_topology api start baseline sw) of
        (Some m, sw) \<Rightarrow> (Some m, sw)
      | (None, sw) \<Rightarrow> let (st, w) = wait_status api start instance_id sw in (None, st, call api (Sleep 150) w))"

lemma wait_turn_clock:
  assumes "wait_turn api start i b sw = (None, sw')"
  shows "pw_clock (snd sw) < pw_clock (snd sw')"
proof -
  obtain r sw1 where r: "wait_sample api b (wait_topology api start b sw) = (r, sw1)" by (metis surj_pair)
  have "pw_clock (snd sw) \<le> pw_clock (snd sw1)"
    using wait_steps_clock(1) [of sw api start b] wait_steps_clock(2) [of "wait_topology api start b sw" api b] r
    by simp
  then show ?thesis using assms r wait_steps_clock(3) [of sw1 api start i]
    by (auto simp: wait_turn_def call_def split_def Let_def split: option.splits)
qed

function wait_monitor :: "pnp_api \<Rightarrow> nat \<Rightarrow> nat \<Rightarrow> string option \<Rightarrow> string list option \<Rightarrow> wait_state \<times> pnp_world \<Rightarrow>
    (vdd_error + monitor_info) \<times> pnp_world" where
  "wait_monitor api timeout start instance_id baseline sw =
     (if pw_clock (snd sw) - start < timeout then
        (case wait_turn api start instance_id baseline sw of
           (Some m, sw) \<Rightarrow> (Inr m, snd sw)
         | (None, sw) \<Rightarrow> wait_monitor api timeout start instance_id baseline sw)
      else (case ws_last_dxgi_err (fst sw) of
          Some e \<Rightarrow> (Inl (Vdd_Dxgi e), snd sw)
        | None \<Rightarrow> (Inl (EnumerationTimeout timeout (ws_all_seen (fst sw)) (ws_timeline (fst sw))), snd sw)))"
  by pat_completeness auto
termination
proof (relation "measure (\<lambda>(api, timeout, start, i, b, sw). timeout + start - pw_clock (snd sw))", goal_cases)
  case (2 api timeout start i b sw r sw')
  then show ?case using wait_turn_clock [of api start i b sw sw'] by simp
qed simp

declare wait_monitor.simps [simp del]

definition wait_for_virtual_monitor :: "pnp_api \<Rightarrow> nat \<Rightarrow> string option \<Rightarrow> string list option \<Rightarrow> monitor_info vdd_op" where
  "wait_for_virtual_monitor api timeout instance_id baseline w =
     wait_monitor api timeout (pw_clock w) instance_id baseline
       (\<lparr>ws_all_seen = [], ws_timeline = [], ws_last_dxgi_err = None, ws_last_status_t = pw_clock w,
         ws_last_topology_t = None\<rparr>, w)"

text \<open>The resolution the session wants is forced on the monitor.\<close>

definition force_monitor_mode :: "pnp_api \<Rightarrow> string \<Rightarrow> u32 \<Rightarrow> u32 \<Rightarrow> u32 \<Rightarrow> unit vdd_op" where
  "force_monitor_mode api dev_name width height refresh_hz w =
     (if pnp_change_mode api (pw_log w) dev_name width height refresh_hz then Inr () else Inl DisplayConfig,
      call api (Change_Mode dev_name width height refresh_hz) w)"

section \<open>The controller\<close>

text \<open>The controller holds the device and whether a resident helper serves it. What the helper does is
  in \<open>VddResident\<close>; here \<open>spawn\<close> is the outcome of \<^verbatim>\<open>spawn_resident_helper\<close> and \<open>shutdown\<close>
  that of \<^verbatim>\<open>ResidentHelper::shutdown\<close>.\<close>

record vdd_controller =
  vc_instance_id :: string
  vc_friendly_name :: string
  vc_enabled :: bool
  vc_resident :: bool

datatype shutdown_outcome = Clean | Timeout | NonZero u32

definition for_instance :: "string \<Rightarrow> vdd_controller" where
  "for_instance instance_id =
     \<lparr>vc_instance_id = instance_id, vc_friendly_name = instance_id, vc_enabled = False, vc_resident = False\<rparr>"

definition detect :: "vdd_error + discovered_device list \<Rightarrow> vdd_error + vdd_controller option" where
  "detect devices = result_bind devices (\<lambda>candidates.
     Inr (map_option (\<lambda>c. \<lparr>vc_instance_id = dd_instance_id c, vc_friendly_name = dd_friendly_name c,
       vc_enabled = False, vc_resident = False\<rparr>) (choose_device candidates)))"

definition vdd_enable :: "unit vdd_op \<Rightarrow> pnp_api \<Rightarrow> vdd_controller \<Rightarrow> vdd_controller vdd_op" where
  "vdd_enable spawn api c =
     (if pnp_elevated api then
        vdd_bind (enable_direct api (vc_instance_id c)) (\<lambda>_ w. (Inr (c\<lparr>vc_enabled := True\<rparr>), w))
      else if \<not> vc_resident c then
        vdd_bind spawn (\<lambda>_ w. (Inr (c\<lparr>vc_resident := True, vc_enabled := True\<rparr>), w))
      else vdd_bind (run_helper_elevated api Do_Enable (vc_instance_id c)) (\<lambda>_ w. (Inr (c\<lparr>vc_enabled := True\<rparr>), w)))"

text \<open>The resident helper is given up whatever comes of its shutdown, also when the fallback fails.\<close>

definition vdd_disable :: "(pnp_world \<Rightarrow> shutdown_outcome \<times> pnp_world) \<Rightarrow> pnp_api \<Rightarrow> vdd_controller \<Rightarrow> pnp_world \<Rightarrow>
    (vdd_error + unit) \<times> vdd_controller \<times> pnp_world" where
  "vdd_disable shutdown api c w =
     (let (needs_fallback, w) = (if vc_resident c then let (o', w) = shutdown w in (o' \<noteq> Clean, w) else (True, w));
          c = c\<lparr>vc_resident := False\<rparr>;
          (r, w) = (if needs_fallback then disable_fallback api (vc_instance_id c) w else (Inr (), w)) in
      (r, case r of Inr _ \<Rightarrow> c\<lparr>vc_enabled := False\<rparr> | Inl _ \<Rightarrow> c, w))"

definition drop_controller :: "(pnp_world \<Rightarrow> shutdown_outcome \<times> pnp_world) \<Rightarrow> pnp_api \<Rightarrow> vdd_controller \<Rightarrow> pnp_world \<Rightarrow> pnp_world" where
  "drop_controller shutdown api c w =
     (if vc_enabled c then snd (snd (vdd_disable shutdown api c w)) else w)"

section \<open>Facts\<close>

text \<open>Device selection.\<close>

lemma key_less_trans: "key_less a b \<Longrightarrow> \<not> key_less c b \<Longrightarrow> key_less a c"
  by (auto simp: key_less_def)

lemma key_less_irrefl: "\<not> key_less a a"
  by (simp add: key_less_def)

lemma key_less_asym: "key_less a b \<Longrightarrow> \<not> key_less b a"
  by (auto simp: key_less_def)

lemma min_by_key_None [simp]: "min_by_key key xs = None \<longleftrightarrow> xs = []"
  by (cases xs) (auto split: option.splits)

lemma min_by_key_Some:
  "min_by_key key xs = Some x \<Longrightarrow>
     \<exists>ys zs. xs = ys @ x # zs \<and> (\<forall>y \<in> set ys. key_less (key x) (key y)) \<and> (\<forall>z \<in> set zs. \<not> key_less (key z) (key x))"
proof (induction xs arbitrary: x)
  case (Cons a xs)
  show ?case
  proof (cases "min_by_key key xs")
    case None
    then have "xs = []" "x = a" using Cons.prems by auto
    then show ?thesis by (intro exI [of _ "[]"]) simp
  next
    case (Some b)
    from Cons.IH [OF Some] obtain ys zs where b: "xs = ys @ b # zs" "\<forall>y \<in> set ys. key_less (key b) (key y)"
        "\<forall>z \<in> set zs. \<not> key_less (key z) (key b)" by blast
    show ?thesis
    proof (cases "key_less (key b) (key a)")
      case True
      then have "x = b" using Cons.prems Some by simp
      then show ?thesis using b True by (intro exI [of _ "a # ys"] exI [of _ zs]) auto
    next
      case False
      then have x: "x = a" using Cons.prems Some by simp
      have "\<forall>z \<in> set xs. \<not> key_less (key z) (key a)"
        using b False by (auto simp: key_less_def)
      then show ?thesis using x by (intro exI [of _ "[]"] exI [of _ xs]) simp
    qed
  qed
qed simp

text \<open>The device is a match and no match has a better key.\<close>

lemma choose_device_Some:
  assumes "choose_device ds = Some d"
  shows "d \<in> set ds \<and> matches_vdd_heuristic (dd_friendly_name d) \<and>
    (\<forall>e \<in> set ds. matches_vdd_heuristic (dd_friendly_name e) \<longrightarrow> \<not> key_less (device_key e) (device_key d))"
proof -
  obtain ys zs where f: "filter (\<lambda>c. matches_vdd_heuristic (dd_friendly_name c)) ds = ys @ d # zs"
      "\<forall>y \<in> set ys. key_less (device_key d) (device_key y)" "\<forall>z \<in> set zs. \<not> key_less (device_key z) (device_key d)"
    using min_by_key_Some [OF assms [unfolded choose_device_def]] by blast
  have s: "{c \<in> set ds. matches_vdd_heuristic (dd_friendly_name c)} = set ys \<union> {d} \<union> set zs"
    using arg_cong [OF f(1), of set] by auto
  then have "d \<in> set ds \<and> matches_vdd_heuristic (dd_friendly_name d)" by blast
  moreover have "\<not> key_less (device_key e) (device_key d)" if "e \<in> set ds" "matches_vdd_heuristic (dd_friendly_name e)" for e
  proof -
    have "e \<in> set ys \<or> e = d \<or> e \<in> set zs" using s that by blast
    then show ?thesis using f(2,3) key_less_asym key_less_irrefl by blast
  qed
  ultimately show ?thesis by blast
qed

lemma choose_device_None:
  "choose_device ds = None \<longleftrightarrow> (\<forall>d \<in> set ds. \<not> matches_vdd_heuristic (dd_friendly_name d))"
  by (simp add: choose_device_def filter_empty_conv)

text \<open>What success of a change means: the node was asked last and says so.\<close>

definition last_status :: "pnp_api \<Rightarrow> string \<Rightarrow> pnp_world \<Rightarrow> (u32 \<times> u32 \<Rightarrow> bool) \<Rightarrow> bool" where
  "last_status api i w P \<longleftrightarrow>
     (\<exists>log s p. pw_log w = log @ [Read_Status i] \<and> pnp_devnode api log i = Node_Status s p \<and> P (s, p))"

lemma snapshot_Inr:
  "snapshot_devnode_status api i w = (Inr sp, w') \<Longrightarrow> pw_log w' = pw_log w @ [Read_Status i] \<and> last_status api i w' (\<lambda>x. x = sp)"
  by (auto simp: snapshot_devnode_status_def last_status_def call_def split: devnode_reply.splits if_splits)

lemma last_status_mono: "last_status api i w P \<Longrightarrow> (\<And>x. P x \<Longrightarrow> Q x) \<Longrightarrow> last_status api i w Q"
  unfolding last_status_def by blast

lemma vdd_bind_Inr: "vdd_bind f g w = (Inr b, w') \<longleftrightarrow> (\<exists>a w1. f w = (Inr a, w1) \<and> g a w1 = (Inr b, w'))"
  by (auto simp: vdd_bind_def split: prod.splits sum.splits)

lemma wait_disabled_Inr:
  "wait_disabled api i d w = (Inr u, w') \<Longrightarrow> last_status api i w' is_disabled \<and> (\<exists>log. pw_log w' = pw_log w @ log \<and> (\<forall>a j. Devcon a j \<notin> set log))"
proof (induction api i d w rule: wait_disabled.induct)
  case (1 api i d w)
  obtain r w1 where r: "devnode_is_disabled api i w = (r, w1)" by fastforce
  show ?case
  proof (cases r)
    case (Inl e)
    then show ?thesis using "1.prems" r by (simp add: wait_disabled.simps)
  next
    case (Inr b)
    then obtain sp where sp: "snapshot_devnode_status api i w = (Inr sp, w1)" "b = is_disabled sp"
      using r by (auto simp: devnode_is_disabled_def vdd_bind_Inr)
    note s = snapshot_Inr [OF sp(1)]
    show ?thesis
    proof (cases b)
      case True
      then have "w' = w1" using "1.prems" r Inr by (simp add: wait_disabled.simps [of api i d w])
      moreover have "last_status api i w1 is_disabled" using s sp(2) True by (auto elim: last_status_mono)
      ultimately show ?thesis using s by simp
    next
      case False
      then have nd: "\<not> d \<le> pw_clock w1" and n: "wait_disabled api i d (call api (Sleep 150) w1) = (Inr u, w')"
        using "1.prems" r Inr
        by (auto simp: wait_disabled.simps [of api i d w] vdd_bind_Inr split: if_splits)
      from "1.IH" [OF r [symmetric] Inr _ nd n] False s show ?thesis by (auto simp: call_def)
    qed
  qed
qed

lemma verify_started_Inr:
  "verify_devnode_started api i w = (Inr u, w') \<Longrightarrow>
     last_status api i w' (\<lambda>(s, p). s AND DN_HAS_PROBLEM = 0) \<and> (\<exists>log. pw_log w' = pw_log w @ log \<and> (\<forall>a j. Devcon a j \<notin> set log))"
  by (auto simp: verify_devnode_started_def vdd_bind_Inr sleep_def call_def split: if_splits
      dest!: snapshot_Inr elim: last_status_mono)

lemma verify_started_log:
  "\<exists>log. pw_log (snd (verify_devnode_started api i w)) = pw_log w @ log \<and> (\<forall>a j. Devcon a j \<notin> set log)"
  by (auto simp: verify_devnode_started_def vdd_bind_def sleep_def call_def snapshot_devnode_status_def
      split: devnode_reply.split)

lemma devcon_action_Inr:
  "devcon_action api a i w = (Inr u, w') \<Longrightarrow> pw_log w' = pw_log w @ [Devcon a i]"
  by (auto simp: devcon_action_def call_def Let_def split: devcon_reply.splits if_splits)

text \<open>The last \<^verbatim>\<open>devcon\<close> action of a log.\<close>

fun last_devcon :: "pnp_log \<Rightarrow> (device_action \<times> string) option" where
  "last_devcon [] = None"
| "last_devcon (c # cs) = (case last_devcon cs of Some x \<Rightarrow> Some x | None \<Rightarrow> (case c of Devcon a i \<Rightarrow> Some (a, i) | _ \<Rightarrow> None))"

lemma last_devcon_append:
  "last_devcon (xs @ ys) = (case last_devcon ys of Some x \<Rightarrow> Some x | None \<Rightarrow> last_devcon xs)"
  by (induction xs) (auto split: option.split)

lemma last_devcon_None: "last_devcon xs = None \<longleftrightarrow> (\<forall>a i. Devcon a i \<notin> set xs)"
proof (induction xs)
  case (Cons x xs)
  then show ?case by (cases x) (auto split: option.split)
qed simp

lemma last_devcon_none: "\<forall>a i. Devcon a i \<notin> set xs \<Longrightarrow> last_devcon xs = None"
  by (simp add: last_devcon_None)

lemma enable_direct_Inr:
  assumes "enable_direct api i w = (Inr u, w')"
  shows "last_status api i w' (\<lambda>(s, p). s AND DN_HAS_PROBLEM = 0) \<and> last_devcon (pw_log w') = Some (Enable, i)"
  using assms
  by (auto simp: enable_direct_def vdd_bind_Inr last_devcon_append last_devcon_none
      dest!: verify_started_Inr devcon_action_Inr)

lemma disable_direct_Inr:
  assumes "vdd_bind (devcon_action api Disable i) (\<lambda>_. verify_devnode_disabled api i) w = (Inr u, w')"
  shows "last_status api i w' is_disabled \<and> last_devcon (pw_log w') = Some (Disable, i)"
  using assms
  by (auto simp: vdd_bind_Inr verify_devnode_disabled_def last_devcon_append last_devcon_none
      dest!: wait_disabled_Inr devcon_action_Inr)

text \<open>What a \<open>disable\<close> that returned \<^verbatim>\<open>Ok\<close> has seen, also one in the one-shot helper: the last
  change was a disable of the device, and a status read since then says that it is disabled.\<close>

definition seen_disabled :: "pnp_api \<Rightarrow> string \<Rightarrow> pnp_world \<Rightarrow> bool" where
  "seen_disabled api i w \<longleftrightarrow> last_devcon (pw_log w) = Some (Disable, i) \<and>
     (\<exists>log log' s p. pw_log w = log @ Read_Status i # log' \<and> last_devcon log = Some (Disable, i) \<and>
        pnp_devnode api log i = Node_Status s p \<and> is_disabled (s, p))"

lemma seen_disabledI:
  assumes "last_status api i w is_disabled" "last_devcon (pw_log w) = Some (Disable, i)"
  shows "seen_disabled api i w"
proof -
  obtain log s p where l: "pw_log w = log @ [Read_Status i]" "pnp_devnode api log i = Node_Status s p" "is_disabled (s, p)"
    using assms(1) unfolding last_status_def by blast
  then have "last_devcon log = Some (Disable, i)" using assms(2) by (simp add: last_devcon_append)
  then show ?thesis using l assms(2) unfolding seen_disabled_def by blast
qed

lemma seen_disabled_log_status: "seen_disabled api i w \<Longrightarrow> seen_disabled api i (log_status api i w)"
  unfolding seen_disabled_def log_status_def snapshot_devnode_status_def
  by (auto simp: call_def last_devcon_append) (metis append_Cons append_assoc)

lemma disable_fallback_Inr:
  assumes "disable_fallback api i w = (Inr u, w')"
  shows "seen_disabled api i w'"
proof (cases "pnp_elevated api")
  case True
  then show ?thesis using assms disable_direct_Inr [of api i w u w']
    by (auto simp: disable_fallback_def intro: seen_disabledI)
next
  case False
  let ?r = "vdd_bind (devcon_action api Disable i) (\<lambda>_. verify_devnode_disabled api i) (log_status api i w)"
  obtain r w1 where r: "?r = (r, w1)" by (metis surj_pair)
  from assms False r obtain v where v: "r = Inr v" "w' = log_status api i w1"
    by (cases r) (auto simp: disable_fallback_def run_helper_elevated_def helper_main_def exit_of_def Let_def
        split: option.splits)
  from disable_direct_Inr [OF r [unfolded v(1)]] have "seen_disabled api i w1" by (blast intro: seen_disabledI)
  then show ?thesis unfolding v(2) by (rule seen_disabled_log_status)
qed

text \<open>A disable that returned \<^verbatim>\<open>Ok\<close> was confirmed by a resident helper or by a status that was read;
  after one that failed the controller still counts as enabled and its drop tries again.\<close>

lemma vdd_disable_cases:
  assumes "vdd_disable shutdown api c w = (r, c', w')"
  shows "\<not> vc_resident c' \<and> (case r of
      Inr _ \<Rightarrow> \<not> vc_enabled c' \<and> (vc_resident c \<and> shutdown w = (Clean, w') \<or> seen_disabled api (vc_instance_id c) w')
    | Inl _ \<Rightarrow> vc_enabled c' = vc_enabled c)"
  using assms disable_fallback_Inr [of api "vc_instance_id c"]
  by (auto simp: vdd_disable_def Let_def split: prod.splits sum.splits if_splits)

text \<open>The monitor that is waited for.\<close>

lemma wait_monitor_Inr:
  "wait_monitor api timeout start i b sw = (Inr m, w') \<Longrightarrow> is_virtual_monitor b m"
proof (induction api timeout start i b sw rule: wait_monitor.induct)
  case (1 api timeout start i b sw)
  obtain r sw1 where r: "wait_turn api start i b sw = (r, sw1)" by (metis surj_pair)
  show ?case
  proof (cases "pw_clock (snd sw) - start < timeout")
    case True
    show ?thesis
    proof (cases r)
      case None
      then have "wait_monitor api timeout start i b sw1 = (Inr m, w')"
        using "1.prems" True r by (simp add: wait_monitor.simps [of api timeout start i b sw])
      from "1.IH" [OF True r [symmetric] None this] show ?thesis .
    next
      case (Some m')
      then have "m = m'" using "1.prems" True r by (simp add: wait_monitor.simps [of api timeout start i b sw])
      then show ?thesis using r Some
        by (auto simp: wait_turn_def wait_sample_def Let_def split_def find_Some_iff split: sum.splits option.splits)
    qed
  next
    case False
    then show ?thesis using "1.prems" by (auto simp: wait_monitor.simps [of api timeout start i b sw] split: option.splits)
  qed
qed

lemma wait_for_virtual_monitor_Inr:
  "wait_for_virtual_monitor api timeout i b w = (Inr m, w') \<Longrightarrow>
     mi_attached m \<and> \<not> mi_adapter_is_software m \<and>
     (mi_looks_virtual m \<or> (\<exists>keys. b = Some keys \<and> monitor_key m \<notin> set keys))"
  unfolding wait_for_virtual_monitor_def
  by (drule wait_monitor_Inr) (auto simp: is_virtual_monitor_def list_ex_iff split: if_splits option.splits)

end
