(* ===== verification/VddResident.thy ===== *)
theory VddResident
  imports Vdd
begin

text \<open>
  The resident helper of \<^verbatim>\<open>crates/penflow-server/src/vdd.rs\<close>: an elevated process that enables
  the device, waits for a stop event or the death of its parent, and disables it again
  (\<^verbatim>\<open>resident_helper_main\<close>), and the controller that starts and stops it
  (\<^verbatim>\<open>spawn_resident_helper\<close>, \<^verbatim>\<open>enable\<close>, \<^verbatim>\<open>disable\<close>, \<^verbatim>\<open>shutdown\<close>) from a process without
  administrator rights. The two run in parallel and share the two named events, so the model is a
  step relation; a step is a stretch of code between two points where the other process, or the
  operating system, decides how to go on.
\<close>

section \<open>Model\<close>

datatype helper_pc =
    H_None | H_Opening | H_Enabling | H_Signalling | H_Watching | H_Waiting bool | H_Disabling | H_Exited u32

datatype parent_pc = P_Idle | P_Enabling | P_Resident | P_Stopping | P_Failed

text \<open>\<open>sy_events\<close>: the parent holds the handles that keep the events alive for a helper that has
  not opened them yet. \<open>sy_result\<close> is what the last \<open>enable\<close> or \<open>disable\<close> returned.\<close>

record sys =
  sy_world :: pnp_world
  sy_done :: bool
  sy_stop :: bool
  sy_events :: bool
  sy_parent :: parent_pc
  sy_alive :: bool
  sy_enabled :: bool
  sy_result :: "(vdd_error + unit) option"
  sy_helper :: helper_pc

definition sys_start :: "pnp_world \<Rightarrow> sys" where
  "sys_start w = \<lparr>sy_world = w, sy_done = False, sy_stop = False, sy_events = False, sy_parent = P_Idle,
     sy_alive = True, sy_enabled = False, sy_result = None, sy_helper = H_None\<rparr>"

definition disable_direct :: "pnp_api \<Rightarrow> string \<Rightarrow> unit vdd_op" where
  "disable_direct api i = vdd_bind (devcon_action api Disable i) (\<lambda>_. verify_devnode_disabled api i)"

text \<open>The helper. The result of the verification after the enable is only logged; a parent that has
  ended cannot be opened.\<close>

inductive helper_step :: "pnp_api \<Rightarrow> string \<Rightarrow> sys \<Rightarrow> sys \<Rightarrow> bool" for api i where
  opened: "sy_helper s = H_Opening \<Longrightarrow> sy_events s \<Longrightarrow> helper_step api i s (s\<lparr>sy_helper := H_Enabling\<rparr>)"
| not_opened: "sy_helper s = H_Opening \<Longrightarrow> \<not> sy_events s \<Longrightarrow> helper_step api i s (s\<lparr>sy_helper := H_Exited 2\<rparr>)"
| enable_failed: "sy_helper s = H_Enabling \<Longrightarrow> devcon_action api Enable i (sy_world s) = (Inl e, w) \<Longrightarrow>
    helper_step api i s (s\<lparr>sy_world := w, sy_done := True, sy_helper := H_Exited 1\<rparr>)"
| enabled: "sy_helper s = H_Enabling \<Longrightarrow> devcon_action api Enable i (sy_world s) = (Inr (), w) \<Longrightarrow>
    verify_devnode_started api i w = (r, w') \<Longrightarrow>
    helper_step api i s (s\<lparr>sy_world := w', sy_helper := H_Signalling\<rparr>)"
| signalled: "sy_helper s = H_Signalling \<Longrightarrow> helper_step api i s (s\<lparr>sy_done := True, sy_helper := H_Watching\<rparr>)"
| watching: "sy_helper s = H_Watching \<Longrightarrow> sy_alive s \<Longrightarrow> helper_step api i s (s\<lparr>sy_helper := H_Waiting True\<rparr>)"
| not_watching: "sy_helper s = H_Watching \<Longrightarrow> \<not> sy_alive s \<Longrightarrow> helper_step api i s (s\<lparr>sy_helper := H_Waiting False\<rparr>)"
| saw_stop: "sy_helper s = H_Waiting b \<Longrightarrow> sy_stop s \<Longrightarrow> helper_step api i s (s\<lparr>sy_helper := H_Disabling\<rparr>)"
| saw_exit: "sy_helper s = H_Waiting True \<Longrightarrow> \<not> sy_alive s \<Longrightarrow> helper_step api i s (s\<lparr>sy_helper := H_Disabling\<rparr>)"
| tear_down: "sy_helper s = H_Disabling \<Longrightarrow> disable_direct api i (sy_world s) = (r, w) \<Longrightarrow>
    helper_step api i s (s\<lparr>sy_world := w, sy_helper := H_Exited (case r of Inr _ \<Rightarrow> 0 | Inl _ \<Rightarrow> 1)\<rparr>)"

text \<open>The calls of the helper that Windows may refuse although they should work.\<close>

inductive helper_fault :: "sys \<Rightarrow> sys \<Rightarrow> bool" where
  no_events: "sy_helper s = H_Opening \<Longrightarrow> helper_fault s (s\<lparr>sy_helper := H_Exited 2\<rparr>)"
| no_parent: "sy_helper s = H_Watching \<Longrightarrow> helper_fault s (s\<lparr>sy_helper := H_Waiting False\<rparr>)"
| wait_failed: "sy_helper s = H_Waiting b \<Longrightarrow> helper_fault s (s\<lparr>sy_helper := H_Disabling\<rparr>)"

text \<open>The parent starts a new helper only when no earlier one is running. \<open>done_missed\<close> covers the
  timeout of 30 s and a helper that exits first, \<open>unclean\<close> the timeout of 5 s and a helper that exits
  with an error.\<close>

inductive parent_step :: "pnp_api \<Rightarrow> string \<Rightarrow> sys \<Rightarrow> sys \<Rightarrow> bool" for api i where
  refused: "sy_alive s \<Longrightarrow> sy_parent s = P_Idle \<Longrightarrow> pnp_runas api (pw_log (sy_world s)) = Some why \<Longrightarrow>
    parent_step api i s (s\<lparr>sy_result := Some (Inl (ShellExecute why))\<rparr>)"
| spawn: "sy_alive s \<Longrightarrow> sy_parent s = P_Idle \<Longrightarrow> sy_helper s = H_None \<or> sy_helper s = H_Exited c \<Longrightarrow>
    pnp_runas api (pw_log (sy_world s)) = None \<Longrightarrow>
    parent_step api i s (s\<lparr>sy_done := False, sy_stop := False, sy_events := True, sy_parent := P_Enabling, sy_helper := H_Opening\<rparr>)"
| done_seen: "sy_alive s \<Longrightarrow> sy_parent s = P_Enabling \<Longrightarrow> sy_done s \<Longrightarrow>
    parent_step api i s (s\<lparr>sy_parent := P_Resident, sy_enabled := True, sy_result := Some (Inr ())\<rparr>)"
| done_missed: "sy_alive s \<Longrightarrow> sy_parent s = P_Enabling \<Longrightarrow> \<not> sy_done s \<Longrightarrow>
    parent_step api i s (s\<lparr>sy_events := False, sy_parent := P_Failed,
      sy_result := Some (Inl (ShellExecute (Enable_Not_Signalled code)))\<rparr>)"
| stop: "sy_alive s \<Longrightarrow> sy_parent s = P_Resident \<Longrightarrow> parent_step api i s (s\<lparr>sy_stop := True, sy_parent := P_Stopping\<rparr>)"
| clean: "sy_alive s \<Longrightarrow> sy_parent s = P_Stopping \<Longrightarrow> sy_helper s = H_Exited 0 \<Longrightarrow>
    parent_step api i s (s\<lparr>sy_events := False, sy_parent := P_Idle, sy_enabled := False, sy_result := Some (Inr ())\<rparr>)"
| unclean: "sy_alive s \<Longrightarrow> sy_parent s = P_Stopping \<Longrightarrow> sy_helper s \<noteq> H_Exited 0 \<Longrightarrow>
    disable_fallback api i (sy_world s) = (r, w) \<Longrightarrow>
    parent_step api i s (s\<lparr>sy_world := w, sy_events := False, sy_parent := P_Idle,
      sy_enabled := (case r of Inr _ \<Rightarrow> False | Inl _ \<Rightarrow> sy_enabled s), sy_result := Some r\<rparr>)"
| die: "sy_alive s \<Longrightarrow> parent_step api i s (s\<lparr>sy_alive := False, sy_events := False\<rparr>)"

inductive_cases helper_stepE: "helper_step api i s s'"
inductive_cases parent_stepE: "parent_step api i s s'"
inductive_cases helper_faultE: "helper_fault s s'"

definition sys_step :: "pnp_api \<Rightarrow> string \<Rightarrow> sys \<Rightarrow> sys \<Rightarrow> bool" where
  "sys_step api i s s' \<longleftrightarrow> helper_step api i s s' \<or> helper_fault s s' \<or> parent_step api i s s'"

definition reachable :: "pnp_api \<Rightarrow> string \<Rightarrow> pnp_world \<Rightarrow> sys \<Rightarrow> bool" where
  "reachable api i w = (sys_step api i)\<^sup>*\<^sup>* (sys_start w)"

section \<open>Invariants\<close>

lemma reachable_invariant:
  assumes "reachable api i w s" "I (sys_start w)" "\<And>s s'. I s \<Longrightarrow> sys_step api i s s' \<Longrightarrow> I s'"
  shows "I s"
  using assms(1) unfolding reachable_def by (induction rule: rtranclp_induct) (use assms(2,3) in auto)

text \<open>A helper that exits with 0 has seen the device disabled, and nobody has enabled it since. An
  \<open>enable\<close> that returned \<^verbatim>\<open>Ok\<close> comes after the signal of the helper; the stop event is only set by
  \<open>disable\<close>.\<close>

definition sys_inv :: "string \<Rightarrow> sys \<Rightarrow> bool" where
  "sys_inv i s \<longleftrightarrow>
     (sy_helper s = H_Exited 0 \<longrightarrow> last_devcon (pw_log (sy_world s)) = Some (Disable, i)) \<and>
     (sy_parent s = P_Resident \<or> sy_parent s = P_Stopping \<longrightarrow> sy_done s \<and> sy_enabled s) \<and>
     (sy_done s \<longrightarrow> sy_helper s \<notin> {H_None, H_Opening, H_Enabling, H_Signalling})"

lemma disable_direct_Inr':
  "disable_direct api i w = (Inr u, w') \<Longrightarrow> last_status api i w' is_disabled \<and> last_devcon (pw_log w') = Some (Disable, i)"
  unfolding disable_direct_def by (rule disable_direct_Inr)

lemma sys_inv_helper:
  assumes "helper_step api i s s'" "sys_inv i s"
  shows "sys_inv i s'"
  using assms(1)
proof cases
  case (tear_down r w)
  then show ?thesis using assms(2) disable_direct_Inr' [of api i "sy_world s" _ w]
    by (cases r) (simp_all add: sys_inv_def)
qed (use assms(2) in \<open>auto simp: sys_inv_def\<close>)

lemma sys_inv_fault: "helper_fault s s' \<Longrightarrow> sys_inv i s \<Longrightarrow> sys_inv i s'"
  by (erule helper_fault.cases) (auto simp: sys_inv_def)

lemma sys_inv_parent: "parent_step api i s s' \<Longrightarrow> sys_inv i s \<Longrightarrow> sys_inv i s'"
  by (erule parent_step.cases) (simp_all add: sys_inv_def)

lemma sys_inv_step: "sys_inv i s \<Longrightarrow> sys_step api i s s' \<Longrightarrow> sys_inv i s'"
  unfolding sys_step_def using sys_inv_helper sys_inv_fault sys_inv_parent by blast

lemma sys_inv_reachable: "reachable api i w s \<Longrightarrow> sys_inv i s"
  by (erule reachable_invariant) (simp add: sys_inv_def sys_start_def, rule sys_inv_step)

section \<open>Tear-down\<close>

text \<open>Every step of the helper brings it closer to its end.\<close>

fun helper_rank :: "helper_pc \<Rightarrow> nat" where
  "helper_rank H_Opening = 6"
| "helper_rank H_Enabling = 5"
| "helper_rank H_Signalling = 4"
| "helper_rank H_Watching = 3"
| "helper_rank (H_Waiting b) = 2"
| "helper_rank H_Disabling = 1"
| "helper_rank _ = 0"

lemma helper_step_rank: "helper_step api i s s' \<Longrightarrow> helper_rank (sy_helper s') < helper_rank (sy_helper s)"
  by (erule helper_stepE) auto

text \<open>Once the parent has stopped it or has died, a helper is never blocked, unless it could not
  watch its parent.\<close>

definition told :: "sys \<Rightarrow> bool" where
  "told s \<longleftrightarrow> sy_stop s \<or> \<not> sy_alive s"

lemma helper_progress:
  assumes "told s" "0 < helper_rank (sy_helper s)" "sy_helper s = H_Waiting False \<Longrightarrow> sy_stop s"
  shows "\<exists>s'. helper_step api i s s'"
proof (cases "sy_helper s")
  case H_Opening
  then show ?thesis by (cases "sy_events s") (auto intro: opened not_opened)
next
  case H_Enabling
  obtain r w where d: "devcon_action api Enable i (sy_world s) = (r, w)" by (metis surj_pair)
  obtain v w' where v: "verify_devnode_started api i w = (v, w')" by (metis surj_pair)
  show ?thesis
  proof (cases r)
    case (Inl e)
    from enable_failed [OF H_Enabling d [unfolded Inl]] show ?thesis by blast
  next
    case (Inr u)
    then have "devcon_action api Enable i (sy_world s) = (Inr (), w)" using d by simp
    from enabled [OF H_Enabling this v] show ?thesis by blast
  qed
next
  case H_Signalling
  then show ?thesis by (blast intro: signalled)
next
  case H_Watching
  then show ?thesis by (cases "sy_alive s") (auto intro: watching not_watching)
next
  case (H_Waiting b)
  then show ?thesis using assms by (cases b) (auto simp: told_def intro: saw_stop saw_exit)
next
  case H_Disabling
  obtain r w where "disable_direct api i (sy_world s) = (r, w)" by (metis surj_pair)
  from tear_down [OF H_Disabling this] show ?thesis by blast
qed (use assms in simp_all)

text \<open>A waiting helper that is told to stop, or that watches a parent that dies, disables the device
  and exits by itself.\<close>

definition exit_code :: "pnp_api \<Rightarrow> string \<Rightarrow> pnp_world \<Rightarrow> u32" where
  "exit_code api i w = (case fst (disable_direct api i w) of Inr _ \<Rightarrow> 0 | Inl _ \<Rightarrow> 1)"

lemma helper_teardown:
  assumes "sy_helper s = H_Waiting b" "sy_stop s \<or> b \<and> \<not> sy_alive s"
  shows "(helper_step api i)\<^sup>*\<^sup>* s (s\<lparr>sy_world := snd (disable_direct api i (sy_world s)),
    sy_helper := H_Exited (exit_code api i (sy_world s))\<rparr>)"
proof -
  let ?m = "s\<lparr>sy_helper := H_Disabling\<rparr>"
  have "helper_step api i s ?m" using assms by (cases b) (auto intro: saw_stop saw_exit)
  moreover obtain r w where d: "disable_direct api i (sy_world s) = (r, w)" by (metis surj_pair)
  then have "helper_step api i ?m (?m\<lparr>sy_world := w, sy_helper := H_Exited (case r of Inr _ \<Rightarrow> 0 | Inl _ \<Rightarrow> 1)\<rparr>)"
    by (intro tear_down) simp_all
  then have "helper_step api i ?m (s\<lparr>sy_world := snd (disable_direct api i (sy_world s)),
      sy_helper := H_Exited (exit_code api i (sy_world s))\<rparr>)"
    by (simp add: exit_code_def d)
  ultimately show ?thesis by (blast intro: rtranclp.rtrancl_into_rtrancl)
qed

text \<open>What is left behind: the exit code says whether the device was seen disabled.\<close>

lemma helper_steps_reachable: "(helper_step api i)\<^sup>*\<^sup>* s s' \<Longrightarrow> reachable api i w s \<Longrightarrow> reachable api i w s'"
proof (induction rule: rtranclp_induct)
  case (step y z)
  then have "reachable api i w y" "sys_step api i y z" by (simp_all add: sys_step_def)
  then show ?case unfolding reachable_def by (rule rtranclp.rtrancl_into_rtrancl)
qed

lemma helper_ends:
  assumes "reachable api i w s" "sy_helper s = H_Waiting b" "sy_stop s \<or> b \<and> \<not> sy_alive s"
  shows "\<exists>s'. (helper_step api i)\<^sup>*\<^sup>* s s' \<and> reachable api i w s' \<and>
    (sy_helper s' = H_Exited 0 \<and> last_status api i (sy_world s') is_disabled \<and>
       last_devcon (pw_log (sy_world s')) = Some (Disable, i) \<or>
     sy_helper s' = H_Exited 1 \<and> (\<exists>e. fst (disable_direct api i (sy_world s)) = Inl e))"
proof -
  let ?s = "s\<lparr>sy_world := snd (disable_direct api i (sy_world s)), sy_helper := H_Exited (exit_code api i (sy_world s))\<rparr>"
  have t: "(helper_step api i)\<^sup>*\<^sup>* s ?s" by (rule helper_teardown [OF assms(2,3)])
  obtain r w1 where d: "disable_direct api i (sy_world s) = (r, w1)" by (metis surj_pair)
  have "sy_helper ?s = H_Exited 0 \<and> last_status api i (sy_world ?s) is_disabled \<and>
       last_devcon (pw_log (sy_world ?s)) = Some (Disable, i) \<or>
     sy_helper ?s = H_Exited 1 \<and> (\<exists>e. fst (disable_direct api i (sy_world s)) = Inl e)"
    using d disable_direct_Inr' [of api i "sy_world s" _ w1] by (cases r) (auto simp: exit_code_def)
  then show ?thesis using t helper_steps_reachable [OF t assms(1)] by blast
qed

section \<open>What can go wrong\<close>

lemma reachable_step: "reachable api i w s \<Longrightarrow> sys_step api i s s' \<Longrightarrow> reachable api i w s'"
  unfolding reachable_def by (rule rtranclp.rtrancl_into_rtrancl)

text \<open>When \<^verbatim>\<open>devcon enable\<close> fails, the helper signals its end of the enable all the same, and
  \<open>enable\<close> returns \<^verbatim>\<open>Ok\<close>.\<close>

lemma failed_enable_ok:
  assumes "pnp_runas api (pw_log w) = None" "devcon_action api Enable i w = (Inl e, w1)"
  shows "\<exists>s. reachable api i w s \<and> sy_parent s = P_Resident \<and> sy_result s = Some (Inr ()) \<and>
    sy_helper s = H_Exited 1 \<and> sy_world s = w1"
proof -
  define s0 where "s0 = sys_start w"
  define s1 where "s1 = s0\<lparr>sy_done := False, sy_stop := False, sy_events := True, sy_parent := P_Enabling, sy_helper := H_Opening\<rparr>"
  define s2 where "s2 = s1\<lparr>sy_helper := H_Enabling\<rparr>"
  define s3 where "s3 = s2\<lparr>sy_world := w1, sy_done := True, sy_helper := H_Exited 1\<rparr>"
  define s4 where "s4 = s3\<lparr>sy_parent := P_Resident, sy_enabled := True, sy_result := Some (Inr ())\<rparr>"
  have f: "sy_helper s0 = H_None" "sy_world s0 = w" "sy_alive s0" "sy_parent s0 = P_Idle"
    by (simp_all add: s0_def sys_start_def)
  have "reachable api i w s0" by (simp add: reachable_def s0_def)
  moreover have "parent_step api i s0 s1" unfolding s1_def by (rule spawn) (use f assms in auto)
  moreover have "helper_step api i s1 s2" unfolding s2_def by (rule opened) (simp_all add: s1_def)
  moreover have "helper_step api i s2 s3" unfolding s3_def by (rule enable_failed) (use f assms in \<open>simp_all add: s1_def s2_def\<close>)
  moreover have "parent_step api i s3 s4" unfolding s4_def by (rule done_seen) (use f in \<open>simp_all add: s1_def s2_def s3_def\<close>)
  ultimately have "reachable api i w s4" by (meson reachable_step sys_step_def)
  then show ?thesis by (auto simp: s4_def s3_def)
qed

text \<open>When the parent dies while the helper enables the device, the helper cannot watch it any more:
  the device is enabled, and without a fault of Windows nothing happens again.\<close>

lemma orphan_stranded:
  assumes "pnp_runas api (pw_log w) = None" "devcon_action api Enable i w = (Inr (), w1)"
  shows "\<exists>s. reachable api i w s \<and> \<not> sy_alive s \<and> sy_helper s = H_Waiting False \<and>
    last_devcon (pw_log (sy_world s)) = Some (Enable, i) \<and> (\<forall>s'. \<not> helper_step api i s s' \<and> \<not> parent_step api i s s')"
proof -
  obtain r w2 where v: "verify_devnode_started api i w1 = (r, w2)" by (metis surj_pair)
  define s0 where "s0 = sys_start w"
  define s1 where "s1 = s0\<lparr>sy_done := False, sy_stop := False, sy_events := True, sy_parent := P_Enabling, sy_helper := H_Opening\<rparr>"
  define s2 where "s2 = s1\<lparr>sy_helper := H_Enabling\<rparr>"
  define s3 where "s3 = s2\<lparr>sy_alive := False, sy_events := False\<rparr>"
  define s4 where "s4 = s3\<lparr>sy_world := w2, sy_helper := H_Signalling\<rparr>"
  define s5 where "s5 = s4\<lparr>sy_done := True, sy_helper := H_Watching\<rparr>"
  define s6 where "s6 = s5\<lparr>sy_helper := H_Waiting False\<rparr>"
  have f: "sy_helper s0 = H_None" "sy_world s0 = w" "sy_alive s0" "sy_parent s0 = P_Idle"
    by (simp_all add: s0_def sys_start_def)
  have "reachable api i w s0" by (simp add: reachable_def s0_def)
  moreover have "parent_step api i s0 s1" unfolding s1_def by (rule spawn) (use f assms in auto)
  moreover have "helper_step api i s1 s2" unfolding s2_def by (rule opened) (simp_all add: s1_def)
  moreover have "parent_step api i s2 s3" unfolding s3_def by (rule die) (use f in \<open>simp_all add: s1_def s2_def\<close>)
  moreover have "helper_step api i s3 s4" unfolding s4_def
    by (rule enabled [OF _ _ v]) (use f assms in \<open>simp_all add: s1_def s2_def s3_def\<close>)
  moreover have "helper_step api i s4 s5" unfolding s5_def by (rule signalled) (simp add: s4_def)
  moreover have "helper_step api i s5 s6" unfolding s6_def by (rule not_watching) (simp_all add: s3_def s4_def s5_def)
  ultimately have "reachable api i w s6" by (meson reachable_step sys_step_def)
  moreover have "last_devcon (pw_log w2) = Some (Enable, i)"
    using devcon_action_Inr [OF assms(2)] verify_started_log [of api i w1] v
    by (auto simp: last_devcon_append last_devcon_none)
  moreover have "\<not> helper_step api i s6 s'" "\<not> parent_step api i s6 s'" for s'
    by (auto elim!: helper_stepE parent_stepE simp: s6_def s5_def s4_def s3_def s2_def s1_def)
  ultimately show ?thesis by (intro exI [of _ s6]) (simp add: s6_def s5_def s4_def s3_def)
qed

text \<open>The normal course: the helper has enabled the device and its parent tells it to stop.\<close>

lemma stop_reached:
  assumes "pnp_runas api (pw_log w) = None" "devcon_action api Enable i w = (Inr (), w1)"
  shows "\<exists>s. reachable api i w s \<and> sy_helper s = H_Waiting True \<and> sy_stop s"
proof -
  obtain r w2 where v: "verify_devnode_started api i w1 = (r, w2)" by (metis surj_pair)
  define s0 where "s0 = sys_start w"
  define s1 where "s1 = s0\<lparr>sy_done := False, sy_stop := False, sy_events := True, sy_parent := P_Enabling, sy_helper := H_Opening\<rparr>"
  define s2 where "s2 = s1\<lparr>sy_helper := H_Enabling\<rparr>"
  define s3 where "s3 = s2\<lparr>sy_world := w2, sy_helper := H_Signalling\<rparr>"
  define s4 where "s4 = s3\<lparr>sy_done := True, sy_helper := H_Watching\<rparr>"
  define s5 where "s5 = s4\<lparr>sy_helper := H_Waiting True\<rparr>"
  define s6 where "s6 = s5\<lparr>sy_parent := P_Resident, sy_enabled := True, sy_result := Some (Inr ())\<rparr>"
  define s7 where "s7 = s6\<lparr>sy_stop := True, sy_parent := P_Stopping\<rparr>"
  note defs = s1_def s2_def s3_def s4_def s5_def s6_def s7_def
  have f: "sy_helper s0 = H_None" "sy_world s0 = w" "sy_alive s0" "sy_parent s0 = P_Idle"
    by (simp_all add: s0_def sys_start_def)
  have "reachable api i w s0" by (simp add: reachable_def s0_def)
  moreover have "parent_step api i s0 s1" unfolding s1_def by (rule spawn) (use f assms in auto)
  moreover have "helper_step api i s1 s2" unfolding s2_def by (rule opened) (simp_all add: defs)
  moreover have "helper_step api i s2 s3" unfolding s3_def by (rule enabled [OF _ _ v]) (use f assms in \<open>simp_all add: s1_def s2_def\<close>)
  moreover have "helper_step api i s3 s4" unfolding s4_def by (rule signalled) (simp add: s3_def)
  moreover have "helper_step api i s4 s5" unfolding s5_def by (rule watching) (use f in \<open>simp_all add: s1_def s2_def s3_def s4_def\<close>)
  moreover have "parent_step api i s5 s6" unfolding s6_def by (rule done_seen) (use f in \<open>simp_all add: s1_def s2_def s3_def s4_def s5_def\<close>)
  moreover have "parent_step api i s6 s7" unfolding s7_def by (rule stop) (use f in \<open>simp_all add: s1_def s2_def s3_def s4_def s5_def s6_def\<close>)
  ultimately have "reachable api i w s7" by (meson reachable_step sys_step_def)
  then show ?thesis by (auto simp: s7_def s6_def s5_def)
qed

end
