(* ===== verification/MfEncoder.thy ===== *)
theory MfEncoder
  imports Engine
begin

text \<open>
  The Media Foundation encoder of \<^verbatim>\<open>crates/penflow-core/src/encoder/mf.rs\<close>: the choice and
  set-up of the encoder transform, and \<^verbatim>\<open>MfSession\<close>, which feeds it frames and takes packets out
  of it through the transform's event queue.

  Media Foundation is a parameter, \<open>mf_api\<close>: what a call answers given what happened before it. A
  blocking \<^verbatim>\<open>GetEvent\<close> may wait for ever; the operations that wait are partial, with \<open>None\<close> for not
  returning. The debug print of the first SPS is not modelled.
\<close>

section \<open>Calls\<close>

datatype mf_subtype = MFVideoFormat_H264 | MFVideoFormat_HEVC | MFVideoFormat_NV12
datatype mf_profile = ConstrainedBase | Main_420_8

datatype media_attr =
    MT_MAJOR_TYPE_Video
  | MT_SUBTYPE mf_subtype
  | MT_AVG_BITRATE u32
  | MT_FRAME_SIZE u64
  | MT_FRAME_RATE u64
  | MT_PIXEL_ASPECT_RATIO u64
  | MT_INTERLACE_Progressive
  | MT_MPEG2_PROFILE mf_profile
  | MT_NOMINAL_RANGE_0_255
  | MT_PRIMARIES_BT709
  | MT_TRANSFER_709
  | MT_MATRIX_BT709

datatype codec_setting =
    RateControlMode_CBR
  | MeanBitRate u32
  | LowLatencyMode bool
  | RealTime bool
  | DefaultBPictureCount u32
  | MaxNumRefFrame u32
  | GOPSize u32
  | ForceKeyFrame u32

datatype mf_message =
    SET_D3D_MANAGER | COMMAND_FLUSH | NOTIFY_BEGIN_STREAMING | NOTIFY_START_OF_STREAM
  | NOTIFY_END_OF_STREAM | NOTIFY_END_STREAMING

datatype mf_call =
    MFStartup
  | MFTEnumEx codec
  | ActivateObject nat
  | GetAttributes
  | Set_ASYNC_UNLOCK
  | Set_LOW_LATENCY
  | MFCreateDXGIDeviceManager
  | ResetDevice
  | ProcessMessage mf_message
  | MFCreateMediaType
  | SetMediaAttr media_attr
  | SetOutputType
  | SetInputType
  | Cast_ICodecAPI
  | SetCodecValue codec_setting
  | Cast_IMFMediaEventGenerator
  | GetOutputStreamInfo
  | MFCreateSample
  | MFCreateMemoryBuffer u32
  | AddBuffer
  | ProcessOutput
  | ReadSample
  | MFCreateDXGISurfaceBuffer
  | SetSampleTime i64
  | SetSampleDuration i64
  | ProcessInput

datatype mf_event = METransformNeedInput | METransformHaveOutput | Other_Event

text \<open>What happened, in order: calls with the error they returned, events that were taken from the
  transform's queue, and the bytes of the samples it gave out.\<close>

datatype mf_entry = Called mf_call "hresult option" | Got_Event mf_event | Got_Sample bytes

type_synonym mf_log = "mf_entry list"

text \<open>An answer of \<^verbatim>\<open>GetEvent\<close> followed by \<^verbatim>\<open>GetType\<close> on the event.\<close>

datatype event_answer = Event mf_event | Get_Failed hresult | Type_Failed hresult

record mf_sample =
  sm_bytes :: "hresult + bytes"
  sm_time :: "hresult + i64"

text \<open>\<open>mf_next_event\<close> is the blocking \<^verbatim>\<open>GetEvent\<close>, \<open>None\<close> when no event ever comes, and
  \<open>mf_poll_event\<close> the one that does not wait. An output sample is the transform's own (\<open>mf_provided\<close>)
  or the one the caller gave it to fill (\<open>mf_filled\<close>).\<close>

record mf_api =
  mf_result :: "mf_log \<Rightarrow> mf_call \<Rightarrow> hresult option"
  mf_encoders :: "codec \<Rightarrow> string option option list"
  mf_device_manager :: bool
  mf_next_event :: "mf_log \<Rightarrow> event_answer option"
  mf_poll_event :: "mf_log \<Rightarrow> event_answer"
  mf_stream_info :: "mf_log \<Rightarrow> bool \<times> u32"
  mf_provided :: "mf_log \<Rightarrow> mf_sample option"
  mf_filled :: "mf_log \<Rightarrow> mf_sample"
  mf_now :: "mf_log \<Rightarrow> nat"

text \<open>\<open>me_initialized\<close> is the process-wide flag \<^verbatim>\<open>MF_INITIALIZED\<close>.\<close>

record mf_env =
  me_initialized :: bool
  me_log :: mf_log

type_synonym 'a mf_op = "mf_env \<Rightarrow> (engine_error + 'a) \<times> mf_env"

definition mf_ok :: "'a \<Rightarrow> 'a mf_op" where
  "mf_ok a env = (Inr a, env)"

definition mf_err :: "engine_error \<Rightarrow> 'a mf_op" where
  "mf_err e env = (Inl e, env)"

definition mf_get :: "(mf_log \<Rightarrow> 'a) \<Rightarrow> 'a mf_op" where
  "mf_get f env = (Inr (f (me_log env)), env)"

definition mf_bind :: "'a mf_op \<Rightarrow> ('a \<Rightarrow> 'b mf_op) \<Rightarrow> 'b mf_op" where
  "mf_bind m f env = (case m env of (Inl e, env) \<Rightarrow> (Inl e, env) | (Inr a, env) \<Rightarrow> f a env)"

text \<open>A call followed by the question-mark operator, one whose result is dropped (\<^verbatim>\<open>let _ =\<close>), and
  several in a row.\<close>

definition mf_call :: "mf_api \<Rightarrow> mf_call \<Rightarrow> unit mf_op" where
  "mf_call api c env =
     (let r = mf_result api (me_log env) c in
      ((case r of None \<Rightarrow> Inr () | Some hr \<Rightarrow> Inl (Win32 hr)), env\<lparr>me_log := me_log env @ [Called c r]\<rparr>))"

definition mf_attempt :: "mf_api \<Rightarrow> mf_call \<Rightarrow> unit mf_op" where
  "mf_attempt api c env = (Inr (), snd (mf_call api c env))"

primrec mf_seq :: "unit mf_op list \<Rightarrow> unit mf_op" where
  "mf_seq [] = mf_ok ()"
| "mf_seq (m # ms) = mf_bind m (\<lambda>_. mf_seq ms)"

section \<open>Set-up\<close>

definition ensure_mf_started :: "mf_api \<Rightarrow> unit mf_op" where
  "ensure_mf_started api env =
     (if me_initialized env then (Inr (), env) else mf_call api MFStartup (env\<lparr>me_initialized := True\<rparr>))"

definition pack_2u32 :: "u32 \<Rightarrow> u32 \<Rightarrow> u64" where
  "pack_2u32 hi lo = push_bit 32 (ucast hi) OR ucast lo"

text \<open>\<^verbatim>\<open>format!("VEN_{:04X}", id)\<close> and the comparison that ignores the case of ASCII letters.\<close>

definition hex_digit :: "nat \<Rightarrow> char" where
  "hex_digit d = char_of (if d < 10 then 48 + d else 55 + d)"

fun hex_digits :: "nat \<Rightarrow> string" where
  "hex_digits n = (if n < 16 then [hex_digit n] else hex_digits (n div 16) @ [hex_digit (n mod 16)])"

declare hex_digits.simps [simp del]

definition vendor_tag :: "u32 \<Rightarrow> string" where
  "vendor_tag vid = ''VEN_'' @ replicate (4 - length (hex_digits (unat vid))) CHR ''0'' @ hex_digits (unat vid)"

definition eq_ignore_ascii_case :: "string \<Rightarrow> string \<Rightarrow> bool" where
  "eq_ignore_ascii_case a b \<longleftrightarrow> map to_lower a = map to_lower b"

text \<open>The encoders that Windows lists are the slots of an array, each with the vendor id of the
  encoder in it; the result is an index into the encoders found.\<close>

definition pick_mft_for_adapter :: "mf_api \<Rightarrow> u32 \<Rightarrow> codec \<Rightarrow> nat mf_op" where
  "pick_mft_for_adapter api adapter_vendor_id codec =
     mf_bind (mf_call api (MFTEnumEx codec)) (\<lambda>_.
       let slots = mf_encoders api codec;
           activates = concat (map (\<lambda>slot. case slot of Some a \<Rightarrow> [a] | None \<Rightarrow> []) slots);
           target_tag = vendor_tag adapter_vendor_id in
       if slots = [] then mf_err NoCompatibleEncoder
       else (case filter (\<lambda>(k, v). pred_option (\<lambda>v. eq_ignore_ascii_case v target_tag) v \<and> v \<noteq> None) (enumerate 0 activates) of
           (k, _) # _ \<Rightarrow> mf_ok k
         | [] \<Rightarrow> if activates = [] then mf_err NoCompatibleEncoder else mf_ok 0))"

definition create_dev_mgr :: "mf_api \<Rightarrow> unit mf_op" where
  "create_dev_mgr api =
     mf_bind (mf_call api MFCreateDXGIDeviceManager) (\<lambda>_.
       if mf_device_manager api then mf_call api ResetDevice else mf_err NotInitialized)"

definition configure_video_output_type :: "mf_api \<Rightarrow> encoder_config \<Rightarrow> unit mf_op" where
  "configure_video_output_type api cfg =
     (let (subtype, profile) =
            (case ec_codec cfg of H264 \<Rightarrow> (MFVideoFormat_H264, ConstrainedBase) | Hevc \<Rightarrow> (MFVideoFormat_HEVC, Main_420_8)) in
      mf_seq (map (\<lambda>a. mf_call api (SetMediaAttr a))
        [MT_MAJOR_TYPE_Video, MT_SUBTYPE subtype, MT_AVG_BITRATE (ec_bitrate_bps cfg),
         MT_FRAME_SIZE (pack_2u32 (ec_width cfg) (ec_height cfg)), MT_FRAME_RATE (pack_2u32 (ec_fps cfg) 1),
         MT_PIXEL_ASPECT_RATIO (pack_2u32 1 1), MT_INTERLACE_Progressive, MT_MPEG2_PROFILE profile]))"

definition configure_nv12_input_type :: "mf_api \<Rightarrow> encoder_config \<Rightarrow> bool \<Rightarrow> unit mf_op" where
  "configure_nv12_input_type api cfg set_nominal_range =
     mf_seq (map (\<lambda>a. mf_call api (SetMediaAttr a))
         [MT_MAJOR_TYPE_Video, MT_SUBTYPE MFVideoFormat_NV12,
          MT_FRAME_SIZE (pack_2u32 (ec_width cfg) (ec_height cfg)), MT_FRAME_RATE (pack_2u32 (ec_fps cfg) 1),
          MT_PIXEL_ASPECT_RATIO (pack_2u32 1 1), MT_INTERLACE_Progressive] @
       (if set_nominal_range then [mf_attempt api (SetMediaAttr MT_NOMINAL_RANGE_0_255)] else []) @
       map (\<lambda>a. mf_attempt api (SetMediaAttr a)) [MT_PRIMARIES_BT709, MT_TRANSFER_709, MT_MATRIX_BT709])"

text \<open>The input type, with the retry for transforms that refuse the range tag.\<close>

definition set_input_type :: "mf_api \<Rightarrow> encoder_config \<Rightarrow> unit mf_op" where
  "set_input_type api cfg =
     mf_bind (mf_seq [mf_call api MFCreateMediaType, configure_nv12_input_type api cfg True]) (\<lambda>_ env.
       case mf_call api SetInputType env of
         (Inr _, env) \<Rightarrow> (Inr (), env)
       | (Inl e, env) \<Rightarrow>
           if e = Win32 INVALIDMEDIATYPE then
             mf_seq [mf_call api MFCreateMediaType, configure_nv12_input_type api cfg False, mf_call api SetInputType] env
           else (Inl e, env))"

record mf_session =
  ms_cfg :: encoder_config
  ms_sequence_header :: bytes
  ms_have_need_input_credit :: bool
  ms_output_queue :: "encoded_packet list"
  ms_pending_input_meta :: "(i64 \<times> nat) list"
  ms_env :: mf_env

text \<open>The steps of \<^verbatim>\<open>MfSession::new\<close> on the transform, in order.\<close>

definition set_up_transform :: "mf_api \<Rightarrow> encoder_config \<Rightarrow> nat \<Rightarrow> unit mf_op" where
  "set_up_transform api cfg activate = mf_seq
       [mf_call api (ActivateObject activate),
        mf_call api GetAttributes, mf_attempt api Set_ASYNC_UNLOCK, mf_attempt api Set_LOW_LATENCY,
        create_dev_mgr api, mf_call api (ProcessMessage SET_D3D_MANAGER),
        mf_call api MFCreateMediaType, configure_video_output_type api cfg, mf_call api SetOutputType,
        set_input_type api cfg,
        mf_call api Cast_ICodecAPI,
        mf_call api (SetCodecValue RateControlMode_CBR),
        mf_call api (SetCodecValue (MeanBitRate (ec_bitrate_bps cfg))),
        mf_attempt api (SetCodecValue (LowLatencyMode True)),
        mf_attempt api (SetCodecValue (RealTime True)),
        mf_attempt api (SetCodecValue (DefaultBPictureCount 0)),
        mf_attempt api (SetCodecValue (MaxNumRefFrame 1)),
        mf_attempt api (SetCodecValue (GOPSize 600)),
        mf_call api (ProcessMessage COMMAND_FLUSH),
        mf_call api (ProcessMessage NOTIFY_BEGIN_STREAMING),
        mf_call api (ProcessMessage NOTIFY_START_OF_STREAM),
        mf_call api Cast_IMFMediaEventGenerator]"

definition mf_session_new :: "mf_api \<Rightarrow> u32 \<Rightarrow> encoder_config \<Rightarrow> mf_env \<Rightarrow> (engine_error + mf_session) \<times> mf_env" where
  "mf_session_new api vendor_id cfg =
     mf_bind (mf_bind (ensure_mf_started api) (\<lambda>_. pick_mft_for_adapter api vendor_id (ec_codec cfg))) (\<lambda>activate.
     mf_bind (set_up_transform api cfg activate) (\<lambda>_ env.
     (Inr \<lparr>ms_cfg = cfg, ms_sequence_header = [], ms_have_need_input_credit = False, ms_output_queue = [],
         ms_pending_input_meta = [], ms_env = env\<rparr>, env)))"

section \<open>Keyframes\<close>

text \<open>The walk of \<^verbatim>\<open>first_nal_is_idr\<close> from offset \<open>i\<close>.\<close>

function idr_from :: "codec \<Rightarrow> bytes \<Rightarrow> nat \<Rightarrow> bool" where
  "idr_from codec bytes i =
     (if i + 3 < length bytes then
        case (if starts_with (drop i bytes) [0, 0, 0, 1] then Some (i + 4)
              else if starts_with (drop i bytes) [0, 0, 1] then Some (i + 3) else None) of
          None \<Rightarrow> idr_from codec bytes (i + 1)
        | Some off \<Rightarrow>
            if off \<ge> length bytes then False
            else (case codec of
                H264 \<Rightarrow>
                  let nal_type = bytes ! off AND 0x1F in
                  if 1 \<le> nal_type \<and> nal_type \<le> 5 then nal_type = 5 else idr_from codec bytes (off + 1)
              | Hevc \<Rightarrow>
                  let nal_type = drop_bit 1 (bytes ! off) AND 0x3F in
                  if nal_type < 32 then 19 \<le> nal_type \<and> nal_type \<le> 21 else idr_from codec bytes (off + 2))
      else False)"
  by pat_completeness auto
termination
  by (relation "measure (\<lambda>(codec, bytes, i). length bytes - i)") (auto split: if_splits)

declare idr_from.simps [simp del]

definition first_nal_is_idr :: "bytes \<Rightarrow> codec \<Rightarrow> bool" where
  "first_nal_is_idr bytes codec = idr_from codec bytes 0"

section \<open>Packets\<close>

abbreviation ms_log :: "mf_session \<Rightarrow> mf_log" where
  "ms_log s \<equiv> me_log (ms_env s)"

definition log_entry :: "mf_entry \<Rightarrow> mf_session \<Rightarrow> mf_session" where
  "log_entry x s = s\<lparr>ms_env := (ms_env s)\<lparr>me_log := ms_log s @ [x]\<rparr>\<rparr>"

definition in_env :: "'a mf_op \<Rightarrow> mf_session \<Rightarrow> (engine_error + 'a) \<times> mf_session" where
  "in_env m s = (case m (ms_env s) of (r, env) \<Rightarrow> (r, s\<lparr>ms_env := env\<rparr>))"

text \<open>The part of \<open>collect_output_packet\<close> up to the sample: whether the transform provides it, with
  the buffer it is given if it does not, and the call.\<close>

definition output_buffer :: "mf_api \<Rightarrow> encoder_config \<Rightarrow> bool mf_op" where
  "output_buffer api cfg =
     mf_bind (mf_call api GetOutputStreamInfo) (\<lambda>_.
     mf_bind (mf_get (mf_stream_info api)) (\<lambda>(provides, cb_size).
     mf_bind
       (if provides then mf_ok ()
        else let needed = max cb_size (ec_width cfg * ec_height cfg * 2) in
          mf_seq [mf_call api MFCreateSample, mf_call api (MFCreateMemoryBuffer needed), mf_call api AddBuffer])
       (\<lambda>_. mf_ok provides)))"

definition output_sample :: "mf_api \<Rightarrow> encoder_config \<Rightarrow> mf_sample option mf_op" where
  "output_sample api cfg =
     mf_bind (output_buffer api cfg) (\<lambda>provides.
     mf_bind (mf_call api ProcessOutput) (\<lambda>_.
       if provides then mf_get (mf_provided api) else mf_get (\<lambda>xs. Some (mf_filled api xs))))"

definition low_latency_bytes :: "codec \<Rightarrow> bytes \<Rightarrow> bytes" where
  "low_latency_bytes codec raw_bytes =
     (case patch_packet_for_low_latency_dpb codec raw_bytes of Some patched \<Rightarrow> patched | None \<Rightarrow> raw_bytes)"

text \<open>The stamp of a packet: the oldest frame that was submitted and has not come out, or the time
  of the sample.\<close>

definition encode_us_of :: "nat \<Rightarrow> nat \<Rightarrow> u32" where
  "encode_us_of finished_at submit_instant = of_nat (min ((finished_at - submit_instant) div 1000) (2 ^ 32 - 1))"

definition take_meta :: "nat \<Rightarrow> mf_sample \<Rightarrow> mf_session \<Rightarrow> (i64 \<times> u32 option) \<times> mf_session" where
  "take_meta finished_at sample s =
     (case ms_pending_input_meta s of
        (pts, submit_instant) # rest \<Rightarrow>
          ((pts, Some (encode_us_of finished_at submit_instant)), s\<lparr>ms_pending_input_meta := rest\<rparr>)
      | [] \<Rightarrow> ((case sm_time sample of Inr t \<Rightarrow> t * 100 | Inl _ \<Rightarrow> 0, None), s))"

definition collect_output_packet :: "mf_api \<Rightarrow> mf_session \<Rightarrow> (engine_error + encoded_packet option) \<times> mf_session" where
  "collect_output_packet api s =
     (case in_env (output_sample api (ms_cfg s)) s of
        (Inl e, s) \<Rightarrow> (Inl e, s)
      | (Inr None, s) \<Rightarrow> (Inr None, s)
      | (Inr (Some sample), s) \<Rightarrow>
          let finished_at = mf_now api (ms_log s) in
          (case sm_bytes sample of
             Inl hr \<Rightarrow> (Inl (Win32 hr), log_entry (Called ReadSample (Some hr)) s)
           | Inr raw_bytes \<Rightarrow>
               let s = log_entry (Got_Sample raw_bytes) s;
                   bytes = low_latency_bytes (ec_codec (ms_cfg s)) raw_bytes;
                   ((pts_ns, encode_us), s) = take_meta finished_at sample s;
                   is_keyframe = first_nal_is_idr bytes (ec_codec (ms_cfg s));
                   s = (if is_keyframe \<and> ms_sequence_header s = [] then s\<lparr>ms_sequence_header := bytes\<rparr> else s) in
               (Inr (Some \<lparr>ep_bytes = bytes, ep_pts_ns = pts_ns, ep_is_keyframe = is_keyframe, ep_encode_us = encode_us\<rparr>), s)))"

definition queue_output :: "mf_api \<Rightarrow> mf_session \<Rightarrow> (engine_error + unit) \<times> mf_session" where
  "queue_output api s =
     (case collect_output_packet api s of
        (Inl e, s) \<Rightarrow> (Inl e, s)
      | (Inr None, s) \<Rightarrow> (Inr (), s)
      | (Inr (Some pkt), s) \<Rightarrow> (Inr (), s\<lparr>ms_output_queue := ms_output_queue s @ [pkt]\<rparr>))"

section \<open>Events\<close>

partial_function (option) wait_for_need_input ::
  "mf_api \<Rightarrow> mf_session \<Rightarrow> ((engine_error + unit) \<times> mf_session) option" where
  "wait_for_need_input api s =
     (case mf_next_event api (ms_log s) of
        None \<Rightarrow> None
      | Some (Get_Failed hr) \<Rightarrow> Some (Inl (Win32 hr), s)
      | Some (Type_Failed hr) \<Rightarrow> Some (Inl (Win32 hr), s)
      | Some (Event METransformNeedInput) \<Rightarrow> Some (Inr (), log_entry (Got_Event METransformNeedInput) s)
      | Some (Event METransformHaveOutput) \<Rightarrow>
          (case queue_output api (log_entry (Got_Event METransformHaveOutput) s) of
             (Inl e, s) \<Rightarrow> Some (Inl e, s)
           | (Inr _, s) \<Rightarrow> wait_for_need_input api s)
      | Some (Event Other_Event) \<Rightarrow> wait_for_need_input api (log_entry (Got_Event Other_Event) s))"

partial_function (option) drain_events_nowait ::
  "mf_api \<Rightarrow> mf_session \<Rightarrow> ((engine_error + unit) \<times> mf_session) option" where
  "drain_events_nowait api s =
     (case mf_poll_event api (ms_log s) of
        Get_Failed hr \<Rightarrow> Some (if hr = NO_EVENTS_AVAILABLE then Inr () else Inl (Win32 hr), s)
      | Type_Failed hr \<Rightarrow> Some (Inl (Win32 hr), s)
      | Event ev \<Rightarrow>
          (case (if ev = METransformHaveOutput then queue_output api (log_entry (Got_Event ev) s)
                 else (Inr (), log_entry (Got_Event ev) s)) of
             (Inl e, s) \<Rightarrow> Some (Inl e, s)
           | (Inr _, s) \<Rightarrow> drain_events_nowait api s))"

section \<open>The session's operations\<close>

definition div_100 :: "i64 \<Rightarrow> i64" where
  "div_100 pts_ns = of_int (if 0 \<le> sint pts_ns then sint pts_ns div 100 else - (- sint pts_ns div 100))"

definition sample_duration :: "u32 \<Rightarrow> i64" where
  "sample_duration fps = (if fps > 0 then 10000000 div ucast fps else 166667)"

text \<open>The steps of \<open>submit_frame\<close> between the two waits.\<close>

definition feed_frame :: "mf_api \<Rightarrow> encoder_config \<Rightarrow> i64 \<Rightarrow> bool \<Rightarrow> unit mf_op" where
  "feed_frame api cfg pts_ns force_idr =
     mf_seq ((if force_idr then [mf_attempt api (SetCodecValue (ForceKeyFrame 1))] else []) @
       [mf_call api MFCreateDXGISurfaceBuffer, mf_call api MFCreateSample, mf_call api AddBuffer,
        mf_call api (SetSampleTime (div_100 pts_ns)), mf_call api (SetSampleDuration (sample_duration (ec_fps cfg))),
        mf_call api ProcessInput])"

definition mf_submit_frame :: "mf_api \<Rightarrow> i64 \<Rightarrow> bool \<Rightarrow> mf_session \<Rightarrow> ((engine_error + unit) \<times> mf_session) option" where
  "mf_submit_frame api pts_ns force_idr s =
     (case (if ms_have_need_input_credit s then Some (Inr (), s) else wait_for_need_input api s) of
        None \<Rightarrow> None
      | Some (Inl e, s) \<Rightarrow> Some (Inl e, s)
      | Some (Inr _, s) \<Rightarrow>
          (case in_env (feed_frame api (ms_cfg s) pts_ns force_idr) (s\<lparr>ms_have_need_input_credit := False\<rparr>) of
             (Inl e, s) \<Rightarrow> Some (Inl e, s)
           | (Inr _, s) \<Rightarrow>
               (case wait_for_need_input api (s\<lparr>ms_pending_input_meta :=
                    ms_pending_input_meta s @ [(pts_ns, mf_now api (ms_log s))]\<rparr>) of
                  None \<Rightarrow> None
                | Some (Inl e, s) \<Rightarrow> Some (Inl e, s)
                | Some (Inr _, s) \<Rightarrow> Some (Inr (), s\<lparr>ms_have_need_input_credit := True\<rparr>))))"

definition try_packet :: "mf_api \<Rightarrow> mf_session \<Rightarrow> ((engine_error + encoded_packet option) \<times> mf_session) option" where
  "try_packet api s =
     (case drain_events_nowait api s of
        None \<Rightarrow> None
      | Some (Inl e, s) \<Rightarrow> Some (Inl e, s)
      | Some (Inr _, s) \<Rightarrow>
          Some (case ms_output_queue s of
             [] \<Rightarrow> (Inr None, s)
           | pkt # rest \<Rightarrow> (Inr (Some pkt), s\<lparr>ms_output_queue := rest\<rparr>)))"

definition drop_session :: "mf_api \<Rightarrow> mf_session \<Rightarrow> mf_env" where
  "drop_session api s =
     snd (mf_seq [mf_attempt api (ProcessMessage NOTIFY_END_OF_STREAM),
       mf_attempt api (ProcessMessage NOTIFY_END_STREAMING)] (ms_env s))"

text \<open>The loop of the pipeline around \<open>try_packet\<close> (\<^verbatim>\<open>pipeline.rs\<close>): the packets until there is
  none, or until an error.\<close>

partial_function (option) take_packets ::
  "mf_api \<Rightarrow> mf_session \<Rightarrow> encoded_packet list \<Rightarrow> ((encoded_packet list \<times> engine_error option) \<times> mf_session) option" where
  "take_packets api s pkts =
     (case try_packet api s of
        None \<Rightarrow> None
      | Some (Inl e, s) \<Rightarrow> Some ((pkts, Some e), s)
      | Some (Inr None, s) \<Rightarrow> Some ((pkts, None), s)
      | Some (Inr (Some pkt), s) \<Rightarrow> take_packets api s (pkts @ [pkt]))"

end
