(* ===== verification/MfProps.thy ===== *)
theory MfProps
  imports MfEncoder
begin

text \<open>
  What the Media Foundation session owes the pipeline: the keyframe flag is that of the first slice of
  a packet; the packets come out patched, in the order of the frames, each with the time of its frame;
  and a frame can always be submitted, because no request for input is lost that the next frame needs.
\<close>

section \<open>The keyframe flag\<close>

text \<open>The type of a unit, which types are slices, and which slices begin a keyframe.\<close>

definition nal_type_of :: "codec \<Rightarrow> bytes \<Rightarrow> u8" where
  "nal_type_of codec bs = (case codec of H264 \<Rightarrow> hd bs AND 0x1F | Hevc \<Rightarrow> drop_bit 1 (hd bs) AND 0x3F)"

definition is_slice :: "codec \<Rightarrow> u8 \<Rightarrow> bool" where
  "is_slice codec t \<longleftrightarrow> (case codec of H264 \<Rightarrow> 1 \<le> t \<and> t \<le> 5 | Hevc \<Rightarrow> t < 32)"

definition is_idr_slice :: "codec \<Rightarrow> u8 \<Rightarrow> bool" where
  "is_idr_slice codec t \<longleftrightarrow> (case codec of H264 \<Rightarrow> t = 5 | Hevc \<Rightarrow> 19 \<le> t \<and> t \<le> 21)"

fun first_slice_idr :: "codec \<Rightarrow> nal list \<Rightarrow> bool" where
  "first_slice_idr codec [] = False"
| "first_slice_idr codec (n # ns) =
     (let t = nal_type_of codec (snd n) in if is_slice codec t then is_idr_slice codec t else first_slice_idr codec ns)"

lemma idr_from_short: "length bs \<le> i + 3 \<Longrightarrow> \<not> idr_from codec bs i"
  by (subst idr_from.simps) simp

lemma idr_from_skip:
  assumes "\<And>k. k < n \<Longrightarrow> \<not> sc_at bs (i + k)"
  shows "idr_from codec bs i = idr_from codec bs (i + n)"
  using assms
proof (induction n arbitrary: i)
  case 0
  then show ?case by simp
next
  case (Suc n)
  have "idr_from codec bs i = idr_from codec bs (i + 1)"
    using Suc.prems [of 0] idr_from_short [of bs "i + 1" codec]
    by (cases "i + 3 < length bs"; subst idr_from.simps) (simp_all add: sc_at_def)
  also have "\<dots> = idr_from codec bs (i + 1 + n)"
    using Suc.prems [of "Suc k" for k] by (intro Suc.IH) auto
  finally show ?case by simp
qed

lemma idr_from_hit:
  assumes "drop i bs = start_code four @ u @ rest" "header_len codec \<le> length u"
  shows "idr_from codec bs i = (let t = nal_type_of codec u in
     if is_slice codec t then is_idr_slice codec t
     else idr_from codec bs (i + length (start_code four) + header_len codec))"
proof -
  let ?n = "length (start_code four)"
  have u: "u \<noteq> []" using assms(2) by (auto simp: header_len_def split: codec.splits)
  have len: "i + ?n + length u \<le> length bs"
    using arg_cong [OF assms(1), of length] u by (cases "i \<le> length bs") (auto simp: length_start_code)
  have "drop (i + ?n) bs = u @ rest" using arg_cong [OF assms(1), of "drop ?n"] by (simp add: add.commute)
  then have hd: "bs ! (i + ?n) = hd u" using u len
    by (metis add_lessD1 append_is_Nil_conv hd_append2 hd_drop_conv_nth drop_eq_Nil not_le)
  have "(if starts_with (drop i bs) [0, 0, 0, 1] then Some (i + 4)
      else if starts_with (drop i bs) [0, 0, 1] then Some (i + 3) else None) = Some (i + ?n)"
    unfolding assms(1) by (simp add: start_code_def starts_with_def numeral_eq_Suc)
  moreover have "i + ?n < length bs" "i + 3 < length bs"
    using len u by (cases u; simp add: length_start_code split: if_splits)+
  ultimately show ?thesis
    by (subst idr_from.simps, cases codec)
      (simp_all add: hd nal_type_of_def is_slice_def is_idr_slice_def header_len_def Let_def)
qed

lemma idr_from_annex_b:
  assumes "\<forall>n \<in> set ns. clean (snd n) \<and> header_len codec \<le> length (snd n)"
  shows "idr_from codec (pre @ annex_b ns) (length pre) = first_slice_idr codec ns"
  using assms
proof (induction ns arbitrary: pre)
  case Nil
  then show ?case using idr_from_short [of pre "length pre" codec] by simp
next
  case (Cons n ns)
  let ?sc = "start_code (fst n)" and ?bs = "pre @ annex_b (n # ns)"
  let ?p = "length pre + length ?sc" and ?h = "header_len codec"
  have h: "?h \<le> length (snd n)" using Cons.prems by simp
  have "idr_from codec ?bs (?p + ?h) = idr_from codec ?bs (?p + ?h + (length (snd n) - ?h))"
  proof (rule idr_from_skip)
    fix k assume "k < length (snd n) - ?h"
    then have "\<not> sc_at (snd n @ annex_b ns) (?h + k)"
      using Cons.prems by (intro clean_no_sc_inside) auto
    then show "\<not> sc_at ?bs (?p + ?h + k)"
      using sc_at_drop [of "pre @ ?sc" "snd n @ annex_b ns" "?h + k"] by (simp add: nal_bytes_def add.assoc)
  qed
  also have "\<dots> = first_slice_idr codec ns"
    using Cons.IH [of "pre @ nal_bytes n"] Cons.prems h by (simp add: nal_bytes_def add.assoc)
  finally have rest: "idr_from codec ?bs (?p + ?h) = first_slice_idr codec ns" .
  have "drop (length pre) ?bs = ?sc @ snd n @ annex_b ns" by (simp add: nal_bytes_def)
  from idr_from_hit [OF this h] rest show ?case by simp
qed

lemma first_nal_is_idr_annex_b:
  "\<forall>n \<in> set ns. clean (snd n) \<and> header_len codec \<le> length (snd n) \<Longrightarrow>
   first_nal_is_idr (annex_b ns) codec = first_slice_idr codec ns"
  using idr_from_annex_b [of ns codec "[]"] by (simp add: first_nal_is_idr_def)

section \<open>What the log records\<close>

definition inputs :: "mf_log \<Rightarrow> nat" where
  "inputs xs = length (filter (\<lambda>x. x = Called ProcessInput None) xs)"

definition samples :: "mf_log \<Rightarrow> bytes list" where
  "samples xs = concat (map (\<lambda>x. case x of Got_Sample b \<Rightarrow> [b] | _ \<Rightarrow> []) xs)"

definition requests :: "mf_log \<Rightarrow> nat" where
  "requests xs = length (filter (\<lambda>x. x = Got_Event METransformNeedInput) xs)"

text \<open>The events since the last frame that went in.\<close>

definition streak :: "mf_log \<Rightarrow> nat" where
  "streak xs = length (filter (\<lambda>x. \<exists>e. x = Got_Event e) (takeWhile (\<lambda>x. x \<noteq> Called ProcessInput None) (rev xs)))"

lemma log_append [simp]:
  "inputs (xs @ ys) = inputs xs + inputs ys" "samples (xs @ ys) = samples xs @ samples ys"
  "requests (xs @ ys) = requests xs + requests ys"
  by (simp_all add: inputs_def samples_def requests_def)

text \<open>Calls other than an accepted input leave all of this alone.\<close>

definition quiet :: "mf_entry \<Rightarrow> bool" where
  "quiet x \<longleftrightarrow> (\<exists>c r. x = Called c r \<and> (c = ProcessInput \<longrightarrow> r \<noteq> None))"

definition quietly :: "'a mf_op \<Rightarrow> bool" where
  "quietly m \<longleftrightarrow> (\<forall>env. \<exists>xs. me_log (snd (m env)) = me_log env @ xs \<and> list_all quiet xs)"

lemma quiet_counts: "list_all quiet xs \<Longrightarrow> inputs xs = 0 \<and> samples xs = [] \<and> requests xs = 0"
  by (induction xs) (auto simp: inputs_def samples_def requests_def quiet_def)

lemma streak_quiet: "list_all quiet ys \<Longrightarrow> streak (xs @ ys) = streak xs"
  by (induction ys rule: rev_induct) (auto simp: streak_def quiet_def simp flip: append_assoc)

lemma streak_event [simp]: "streak (xs @ [Got_Event e]) = Suc (streak xs)"
  by (simp add: streak_def)

lemma quietly_ok [intro]: "quietly (mf_ok a)" "quietly (mf_err e)" "quietly (mf_get f)"
  by (simp_all add: quietly_def mf_ok_def mf_err_def mf_get_def)

lemma quietly_call [intro]: "c \<noteq> ProcessInput \<Longrightarrow> quietly (mf_call api c)" "c \<noteq> ProcessInput \<Longrightarrow> quietly (mf_attempt api c)"
  by (auto simp: quietly_def mf_call_def mf_attempt_def quiet_def Let_def)

lemma quietly_bind [intro]:
  assumes "quietly m" "\<And>a. quietly (f a)"
  shows "quietly (mf_bind m f)"
  unfolding quietly_def
proof
  fix env
  obtain r env1 where m: "m env = (r, env1)" by force
  with assms(1) obtain xs where xs: "me_log env1 = me_log env @ xs" "list_all quiet xs"
    unfolding quietly_def by (metis snd_conv)
  show "\<exists>xs. me_log (snd (mf_bind m f env)) = me_log env @ xs \<and> list_all quiet xs"
  proof (cases r)
    case (Inl e)
    then show ?thesis using m xs by (auto simp: mf_bind_def)
  next
    case (Inr a)
    obtain ys where "me_log (snd (f a env1)) = me_log env1 @ ys" "list_all quiet ys"
      using assms(2) [of a] unfolding quietly_def by blast
    then show ?thesis using m Inr xs by (auto simp: mf_bind_def intro!: exI [of _ "xs @ ys"])
  qed
qed

lemma quietly_seq [intro]: "\<forall>m \<in> set ms. quietly m \<Longrightarrow> quietly (mf_seq ms)"
  by (induction ms) auto

text \<open>Nothing but the log changes, and that by entries that leave the counts alone; a sample comes
  out of a call of \<^verbatim>\<open>ProcessOutput\<close> that succeeded.\<close>

lemma quietly_output_buffer: "quietly (output_buffer api cfg)"
  unfolding output_buffer_def Let_def split_def by (intro quietly_bind) (auto split: if_splits)

lemma quietly_output_sample: "quietly (output_sample api cfg)"
  unfolding output_sample_def by (intro quietly_bind quietly_output_buffer) (auto split: if_splits)

lemma mf_bind_Inr: "mf_bind m f env = (Inr b, env') \<longleftrightarrow> (\<exists>a env1. m env = (Inr a, env1) \<and> f a env1 = (Inr b, env'))"
  by (auto simp: mf_bind_def split: prod.splits sum.splits)

lemma output_sample_Inr:
  assumes "output_sample api cfg env = (Inr x, env')"
  shows "\<exists>xs. list_all quiet xs \<and> mf_result api (me_log env @ xs) ProcessOutput = None \<and>
    me_log env' = me_log env @ xs @ [Called ProcessOutput None]"
proof -
  obtain p env1 where first: "output_buffer api cfg env = (Inr p, env1)" and rest: "mf_call api ProcessOutput env1 = (Inr (), env')"
    using assms unfolding output_sample_def by (auto simp: mf_bind_Inr mf_get_def split: if_splits)
  from quietly_output_buffer [of api cfg] first obtain xs where "me_log env1 = me_log env @ xs" "list_all quiet xs"
    unfolding quietly_def by (metis snd_conv)
  moreover have "mf_result api (me_log env1) ProcessOutput = None" "me_log env' = me_log env1 @ [Called ProcessOutput None]"
    using rest by (auto simp: mf_call_def Let_def split: option.splits)
  ultimately show ?thesis by auto
qed

section \<open>Packets carry the time of their frame\<close>

text \<open>A transform that puts out at most one sample for a frame: \<^verbatim>\<open>ProcessOutput\<close> succeeds only while
  a frame is inside.\<close>

definition one_per_frame :: "mf_api \<Rightarrow> bool" where
  "one_per_frame api \<longleftrightarrow> (\<forall>xs. mf_result api xs ProcessOutput = None \<longrightarrow> length (samples xs) < inputs xs)"

definition packet_of :: "codec \<Rightarrow> bytes \<Rightarrow> encoded_packet \<Rightarrow> bool" where
  "packet_of codec raw pkt \<longleftrightarrow> ep_bytes pkt = low_latency_bytes codec raw \<and>
     ep_is_keyframe pkt = first_nal_is_idr (ep_bytes pkt) codec \<and> ep_encode_us pkt \<noteq> None"

text \<open>\<open>pts\<close> are the times of the frames that went in, \<open>out\<close> the packets that were handed out.\<close>

definition stamped :: "i64 list \<Rightarrow> encoded_packet list \<Rightarrow> mf_session \<Rightarrow> bool" where
  "stamped pts out s \<longleftrightarrow>
     inputs (ms_log s) = length pts \<and> length (samples (ms_log s)) \<le> length pts \<and>
     map fst (ms_pending_input_meta s) = drop (length (samples (ms_log s))) pts \<and>
     map ep_pts_ns (out @ ms_output_queue s) = take (length (samples (ms_log s))) pts \<and>
     list_all2 (packet_of (ec_codec (ms_cfg s))) (samples (ms_log s)) (out @ ms_output_queue s)"

lemma stamped_log:
  assumes "stamped pts out s" "inputs xs = 0" "samples xs = []"
  shows "stamped pts out (s\<lparr>ms_env := (ms_env s)\<lparr>me_log := ms_log s @ xs\<rparr>\<rparr>)"
  using assms by (simp add: stamped_def)

lemma stamped_env:
  assumes "stamped pts out s" "me_log env = ms_log s @ xs" "inputs xs = 0" "samples xs = []"
  shows "stamped pts out (s\<lparr>ms_env := env\<rparr>)"
  using assms by (simp add: stamped_def)

lemma collect_cases:
  assumes "collect_output_packet api s = (r, s')"
  obtains (none) xs env where "list_all quiet xs" "me_log env = ms_log s @ xs" "s' = s\<lparr>ms_env := env\<rparr>" "\<nexists>pkt. r = Inr (Some pkt)"
  | (packet) xs env raw sample now pts us s1 where "list_all quiet xs" "mf_result api (ms_log s @ xs) ProcessOutput = None"
      "me_log env = ms_log s @ xs @ [Called ProcessOutput None, Got_Sample raw]"
      "take_meta now sample (s\<lparr>ms_env := env\<rparr>) = ((pts, us), s1)"
      "\<exists>h. s' = s1\<lparr>ms_sequence_header := h\<rparr>"
      "r = Inr (Some \<lparr>ep_bytes = low_latency_bytes (ec_codec (ms_cfg s)) raw, ep_pts_ns = pts,
         ep_is_keyframe = first_nal_is_idr (low_latency_bytes (ec_codec (ms_cfg s)) raw) (ec_codec (ms_cfg s)), ep_encode_us = us\<rparr>)"
proof -
  obtain x env where o: "output_sample api (ms_cfg s) (ms_env s) = (x, env)" by force
  obtain xs where xs: "list_all quiet xs" "me_log env = ms_log s @ xs"
    using quietly_output_sample [of api "ms_cfg s"] o unfolding quietly_def by (metis snd_conv)
  consider e where "x = Inl e" | "x = Inr None" | sample where "x = Inr (Some sample)" by (metis sum.exhaust option.exhaust)
  then show ?thesis
  proof cases
    case 1
    then show ?thesis using assms o xs by (intro none [of xs env]) (auto simp: collect_output_packet_def in_env_def)
  next
    case 2
    then show ?thesis using assms o xs by (intro none [of xs env]) (auto simp: collect_output_packet_def in_env_def)
  next
    case (3 sample)
    show ?thesis
    proof (cases "sm_bytes sample")
      case (Inl hr)
      then show ?thesis using assms o xs 3
        by (intro none [of "xs @ [Called ReadSample (Some hr)]" "env\<lparr>me_log := me_log env @ [Called ReadSample (Some hr)]\<rparr>"])
          (auto simp: collect_output_packet_def in_env_def log_entry_def quiet_def)
    next
      case (Inr raw)
      let ?env = "env\<lparr>me_log := me_log env @ [Got_Sample raw]\<rparr>" and ?now = "mf_now api (me_log env)"
      obtain ys where ys: "list_all quiet ys" "mf_result api (ms_log s @ ys) ProcessOutput = None"
          "me_log env = ms_log s @ ys @ [Called ProcessOutput None]"
        using output_sample_Inr [of api "ms_cfg s" "ms_env s"] o 3 by blast
      obtain pts us s1 where m: "take_meta ?now sample (s\<lparr>ms_env := ?env\<rparr>) = ((pts, us), s1)" by (metis surj_pair)
      then have c: "ms_cfg s1 = ms_cfg s" by (auto simp: take_meta_def split: list.splits prod.splits)
      have "r = Inr (Some \<lparr>ep_bytes = low_latency_bytes (ec_codec (ms_cfg s)) raw, ep_pts_ns = pts,
         ep_is_keyframe = first_nal_is_idr (low_latency_bytes (ec_codec (ms_cfg s)) raw) (ec_codec (ms_cfg s)), ep_encode_us = us\<rparr>)"
        "\<exists>h. s' = s1\<lparr>ms_sequence_header := h\<rparr>"
        using assms o 3 Inr m c
        by (auto simp: collect_output_packet_def in_env_def log_entry_def Let_def split: if_splits intro: exI [of _ "ms_sequence_header s1"])
      then show ?thesis using ys m by (intro packet [of ys ?env raw ?now sample pts us s1]) simp_all
    qed
  qed
qed

lemma take_meta_stamped:
  assumes "stamped pts out s" "length (samples (ms_log s)) < length pts"
    "me_log env = ms_log s @ xs" "inputs xs = 0" "samples xs = [raw]"
    "take_meta now sample (s\<lparr>ms_env := env\<rparr>) = ((p, us), s1)"
  shows "stamped pts out (s1\<lparr>ms_sequence_header := h, ms_output_queue := ms_output_queue s1 @
    [\<lparr>ep_bytes = low_latency_bytes (ec_codec (ms_cfg s)) raw, ep_pts_ns = p,
      ep_is_keyframe = first_nal_is_idr (low_latency_bytes (ec_codec (ms_cfg s)) raw) (ec_codec (ms_cfg s)), ep_encode_us = us\<rparr>]\<rparr>)"
proof -
  let ?k = "length (samples (ms_log s))"
  have "map fst (ms_pending_input_meta s) = pts ! ?k # drop (Suc ?k) pts"
    using assms(1,2) by (simp add: stamped_def drop_eq_nth_Cons)
  then obtain t rest where meta: "ms_pending_input_meta s = (pts ! ?k, t) # rest" "map fst rest = drop (Suc ?k) pts" by auto
  then show ?thesis
    using assms by (auto simp: take_meta_def stamped_def take_Suc_nth packet_of_def intro!: list_all2_appendI [of _ _ "out @ ms_output_queue s", simplified])
qed

lemma stamped_queue_output:
  assumes "one_per_frame api" "stamped pts out s" "queue_output api s = (r, s')"
  shows "stamped pts out s'"
proof -
  obtain r1 s1 where c: "collect_output_packet api s = (r1, s1)" by force
  then show ?thesis
  proof (cases rule: collect_cases)
    case (none xs env)
    then have "s' = s1" using c assms(3) by (auto simp: queue_output_def split: sum.splits option.splits)
    then show ?thesis using none quiet_counts [OF none(1)] stamped_env [OF assms(2) none(2)] by simp
  next
    case (packet xs env raw sample now p us s2)
    have "length (samples (ms_log s)) < length pts"
      using assms(1) [unfolded one_per_frame_def, rule_format, OF packet(2)] assms(2) quiet_counts [OF packet(1)]
      by (simp add: stamped_def)
    moreover have "inputs (xs @ [Called ProcessOutput None, Got_Sample raw]) = 0"
        "samples (xs @ [Called ProcessOutput None, Got_Sample raw]) = [raw]"
      using quiet_counts [OF packet(1)] by (simp_all add: inputs_def samples_def)
    ultimately show ?thesis
      using take_meta_stamped [OF assms(2) _ packet(3) _ _ packet(4)] packet(5,6) c assms(3) by (auto simp: queue_output_def)
  qed
qed

lemma stamped_event [simp]: "stamped pts out (log_entry (Got_Event e) s) = stamped pts out s"
  by (simp add: stamped_def log_entry_def inputs_def samples_def)

text \<open>The interface of the event loops: what events and outputs keep, the loops keep.\<close>

locale event_invariant =
  fixes api :: mf_api and J :: "mf_session \<Rightarrow> bool"
  assumes event: "J s \<Longrightarrow> J (log_entry (Got_Event e) s)"
    and collected: "J s \<Longrightarrow> queue_output api s = (r, s') \<Longrightarrow> J s'"
begin

lemma wait: "wait_for_need_input a s = Some y \<Longrightarrow> a = api \<longrightarrow> J s \<longrightarrow> J (snd y)"
proof (erule wait_for_need_input.raw_induct [rotated], intro impI, goal_cases)
  case (1 f a s y)
  obtain r s1 where q: "queue_output api (log_entry (Got_Event METransformHaveOutput) s) = (r, s1)" by force
  have "J s1" using collected [OF event [OF 1(4)] q] .
  then show ?case using 1 event [OF 1(4)]
    by (cases r) (auto simp: q split: option.splits event_answer.splits mf_event.splits sum.splits)
qed

lemma drain: "drain_events_nowait a s = Some y \<Longrightarrow> a = api \<longrightarrow> J s \<longrightarrow> J (snd y)"
proof (erule drain_events_nowait.raw_induct [rotated], intro impI, goal_cases)
  case (1 f a s y)
  obtain r s1 where q: "queue_output api (log_entry (Got_Event METransformHaveOutput) s) = (r, s1)" by force
  have "J s1" using collected [OF event [OF 1(4)] q] .
  then show ?case using 1 event [OF 1(4)]
    by (cases r) (auto simp: q split: event_answer.splits sum.splits if_splits)
qed

end

interpretation stamping: event_invariant api "\<lambda>s. one_per_frame api \<longrightarrow> stamped pts out s" for api pts out
  by unfold_locales (auto dest: stamped_queue_output)

text \<open>A frame that goes in adds its time; \<open>r\<close> is an error if the wait after it fails.\<close>

lemma mf_seq_append: "mf_seq (ms @ [m]) = mf_bind (mf_seq ms) (\<lambda>_. m)"
  by (induction ms) (auto simp: fun_eq_iff mf_bind_def mf_ok_def split: prod.splits sum.splits)

lemma feed_frame_cases:
  assumes "feed_frame api cfg pts force env = (r, env')"
  shows "\<exists>xs. list_all quiet xs \<and>
    (r = Inr () \<and> me_log env' = me_log env @ xs @ [Called ProcessInput None] \<or> (\<exists>e. r = Inl e) \<and> me_log env' = me_log env @ xs)"
proof -
  let ?before = "mf_seq ((if force then [mf_attempt api (SetCodecValue (ForceKeyFrame 1))] else []) @
       [mf_call api MFCreateDXGISurfaceBuffer, mf_call api MFCreateSample, mf_call api AddBuffer,
        mf_call api (SetSampleTime (div_100 pts)), mf_call api (SetSampleDuration (sample_duration (ec_fps cfg)))])"
  have split: "feed_frame api cfg pts force = mf_bind ?before (\<lambda>_. mf_call api ProcessInput)"
    unfolding feed_frame_def by (subst mf_seq_append [symmetric]) simp
  have quiet: "quietly ?before" by (rule quietly_seq) (auto split: if_splits)
  obtain r1 env1 where b: "?before env = (r1, env1)" by force
  obtain xs where "me_log (snd (?before env)) = me_log env @ xs" and xs: "list_all quiet xs"
    using quiet unfolding quietly_def by blast
  then have env1: "me_log env1 = me_log env @ xs" using b by simp
  have r: "(r, env') = (case r1 of Inl e \<Rightarrow> (Inl e, env1) | Inr _ \<Rightarrow> mf_call api ProcessInput env1)"
    unfolding assms [symmetric] split mf_bind_def b by (simp split: sum.split)
  show ?thesis
  proof (cases r1)
    case (Inl e)
    then show ?thesis using xs env1 r by auto
  next
    case (Inr u)
    show ?thesis
    proof (cases "mf_result api (me_log env1) ProcessInput")
      case None
      then show ?thesis using xs env1 r Inr by (auto simp: mf_call_def)
    next
      case (Some hr)
      then show ?thesis using xs env1 r Inr
        by (auto simp: mf_call_def quiet_def intro!: exI [of _ "xs @ [Called ProcessInput (Some hr)]"])
    qed
  qed
qed

lemma submit_cases:
  assumes "mf_submit_frame api p force s = Some (Inr u, s')"
  obtains s1 xs env s2 where
    "ms_have_need_input_credit s \<and> s1 = s \<or> wait_for_need_input api s = Some (Inr (), s1)"
    "list_all quiet xs" "me_log env = ms_log s1 @ xs @ [Called ProcessInput None]"
    "wait_for_need_input api (s1\<lparr>ms_have_need_input_credit := False, ms_env := env,
       ms_pending_input_meta := ms_pending_input_meta s1 @ [(p, mf_now api (me_log env))]\<rparr>) = Some (Inr (), s2)"
    "s' = s2\<lparr>ms_have_need_input_credit := True\<rparr>"
proof -
  let ?w = "if ms_have_need_input_credit s then Some (Inr (), s) else wait_for_need_input api s"
  obtain s1 where w: "?w = Some (Inr (), s1)"
    using assms unfolding mf_submit_frame_def by (cases ?w) (auto split: sum.splits)
  then have s1: "ms_have_need_input_credit s \<and> s1 = s \<or> wait_for_need_input api s = Some (Inr (), s1)" by (simp split: if_splits)
  obtain r env where f: "feed_frame api (ms_cfg s1) p force (ms_env s1) = (r, env)" by force
  then have r: "r = Inr ()" using assms unfolding mf_submit_frame_def w
    by (cases r) (auto simp: in_env_def)
  obtain s2 where "wait_for_need_input api (s1\<lparr>ms_have_need_input_credit := False, ms_env := env,
       ms_pending_input_meta := ms_pending_input_meta s1 @ [(p, mf_now api (me_log env))]\<rparr>) = Some (Inr (), s2)"
    "s' = s2\<lparr>ms_have_need_input_credit := True\<rparr>"
    using assms f r unfolding mf_submit_frame_def w by (auto simp: in_env_def split: option.splits sum.splits)
  moreover obtain xs where "list_all quiet xs" "me_log env = ms_log s1 @ xs @ [Called ProcessInput None]"
    using feed_frame_cases [OF f] r by auto
  ultimately show ?thesis using s1 that by blast
qed

lemma stamped_submit:
  assumes "one_per_frame api" "stamped pts out s" "mf_submit_frame api p force s = Some (Inr u, s')"
  shows "stamped (pts @ [p]) out s'"
  using assms(3)
proof (cases rule: submit_cases)
  case (1 s1 xs env s2)
  have "stamped pts out s1" using 1(1) stamping.wait [where pts = pts and out = out, of api s _ api] assms(1,2) by fastforce
  then have "stamped (pts @ [p]) out (s1\<lparr>ms_have_need_input_credit := False, ms_env := env,
       ms_pending_input_meta := ms_pending_input_meta s1 @ [(p, mf_now api (me_log env))]\<rparr>)"
    using 1(3) quiet_counts [OF 1(2)] by (auto simp: stamped_def inputs_def [of "[_]"] samples_def [of "[_]"])
  then have "stamped (pts @ [p]) out s2" using stamping.wait [where pts = "pts @ [p]" and out = out, OF 1(4), of api] assms(1) by simp
  then show ?thesis using 1(5) by (simp add: stamped_def)
qed

lemma stamped_take:
  "take_packets api s got = Some y \<Longrightarrow> one_per_frame api \<longrightarrow> stamped pts (out @ got) s \<longrightarrow> stamped pts (out @ fst (fst y)) (snd y)"
proof (erule take_packets.raw_induct [rotated], intro impI, goal_cases)
  case (1 f api s got y)
  then obtain r s1 where d: "drain_events_nowait api s = Some (r, s1)"
    by (auto simp: try_packet_def split: option.splits)
  then have st: "stamped pts (out @ got) s1" using stamping.drain [where pts = pts and out = "out @ got", OF d, of api] 1(3,4) by simp
  then show ?case
  proof (cases r)
    case (Inl e)
    then show ?thesis using 1(2) d st by (simp add: try_packet_def) (metis fst_conv snd_conv)
  next
    case (Inr u)
    show ?thesis
    proof (cases "ms_output_queue s1")
      case Nil
      then show ?thesis using 1(2) d st Inr by (simp add: try_packet_def) (metis fst_conv snd_conv)
    next
      case (Cons pkt rest)
      then have "stamped pts (out @ got @ [pkt]) (s1\<lparr>ms_output_queue := rest\<rparr>)" using st by (simp add: stamped_def)
      moreover have "f api (s1\<lparr>ms_output_queue := rest\<rparr>) (got @ [pkt]) = Some y" using 1(2) d Inr Cons by (simp add: try_packet_def)
      ultimately show ?thesis using 1(1) 1(3) by blast
    qed
  qed
qed

section \<open>A frame can always be submitted\<close>

text \<open>A transform that works for as long as it gets frames: it may ask for up to \<open>d\<close> frames ahead,
  asks again when it has less than that, and has at most \<open>k\<close> events to tell between two frames.\<close>

definition prompt :: "nat \<Rightarrow> nat \<Rightarrow> mf_api \<Rightarrow> bool" where
  "prompt d k api \<longleftrightarrow> 0 < d \<and>
     (\<forall>xs. requests xs < inputs xs + d \<longrightarrow> mf_next_event api xs \<noteq> None \<and>
        (k \<le> streak xs \<longrightarrow> mf_next_event api xs = Some (Event METransformNeedInput))) \<and>
     (\<forall>xs. mf_next_event api xs = Some (Event METransformNeedInput) \<or> mf_poll_event api xs = Event METransformNeedInput
        \<longrightarrow> requests xs < inputs xs + d) \<and>
     (\<forall>xs. k \<le> streak xs \<longrightarrow> mf_poll_event api xs = Get_Failed NO_EVENTS_AVAILABLE)"

definition owed :: "nat \<Rightarrow> mf_session \<Rightarrow> bool" where
  "owed d s \<longleftrightarrow> requests (ms_log s) \<le> inputs (ms_log s) + d \<and>
     (ms_have_need_input_credit s \<or> requests (ms_log s) < inputs (ms_log s) + d)"

lemma queue_output_log:
  assumes "queue_output api s = (r, s')"
  shows "requests (ms_log s') = requests (ms_log s) \<and> inputs (ms_log s') = inputs (ms_log s) \<and>
    streak (ms_log s') = streak (ms_log s) \<and> ms_have_need_input_credit s' = ms_have_need_input_credit s"
proof -
  obtain r1 s1 where c: "collect_output_packet api s = (r1, s1)" by force
  then show ?thesis
  proof (cases rule: collect_cases)
    case (none xs env)
    then have "s' = s1" using c assms by (auto simp: queue_output_def split: sum.splits option.splits)
    then show ?thesis using none quiet_counts [OF none(1)] streak_quiet [OF none(1)] by simp
  next
    case (packet xs env raw sample now p us s2)
    have "streak (ms_log s @ xs @ [Called ProcessOutput None, Got_Sample raw]) = streak (ms_log s @ xs)" by (simp add: streak_def)
    moreover have "ms_env s' = env" "ms_have_need_input_credit s' = ms_have_need_input_credit s"
      using packet(4-6) c assms by (auto simp: queue_output_def take_meta_def split: list.splits prod.splits)
    ultimately show ?thesis
      using packet(3) quiet_counts [OF packet(1)] streak_quiet [OF packet(1)] by (simp add: inputs_def requests_def)
  qed
qed

interpretation credit: event_invariant api "\<lambda>s. ms_have_need_input_credit s = c" for api c
  by unfold_locales (auto simp: log_entry_def dest: queue_output_log)

lemma event_counts [simp]:
  "inputs (ms_log (log_entry (Got_Event e) s)) = inputs (ms_log s)"
  "requests (ms_log (log_entry (Got_Event e) s)) = requests (ms_log s) + (if e = METransformNeedInput then 1 else 0)"
  "streak (ms_log (log_entry (Got_Event e) s)) = Suc (streak (ms_log s))"
  by (simp_all add: log_entry_def inputs_def requests_def)

lemma wait_returns:
  assumes "prompt d k api" "requests (ms_log s) < inputs (ms_log s) + d"
  shows "\<exists>r s'. wait_for_need_input api s = Some (r, s') \<and> requests (ms_log s') \<le> inputs (ms_log s') + d"
  using assms(2)
proof (induction "k - streak (ms_log s)" arbitrary: s rule: less_induct)
  case less
  have some: "mf_next_event api (ms_log s) \<noteq> None"
      and more: "mf_next_event api (ms_log s) \<noteq> Some (Event METransformNeedInput) \<Longrightarrow> streak (ms_log s) < k"
    using assms(1) less.prems unfolding prompt_def by (fastforce simp: not_less)+
  have again: "\<exists>r s'. wait_for_need_input api t = Some (r, s') \<and> requests (ms_log s') \<le> inputs (ms_log s') + d"
    if "streak (ms_log s) < k" "streak (ms_log t) = Suc (streak (ms_log s))" "requests (ms_log t) < inputs (ms_log t) + d" for t
    using less.hyps [of t] that by simp
  show ?case
  proof (cases "mf_next_event api (ms_log s)")
    case (Some a)
    show ?thesis
    proof (cases a)
      case (Event e)
      obtain r1 s1 where q: "queue_output api (log_entry (Got_Event METransformHaveOutput) s) = (r1, s1)" by force
      note counts = queue_output_log [OF q]
      show ?thesis
      proof (cases e)
        case METransformNeedInput
        then show ?thesis using Some Event less.prems by (subst wait_for_need_input.simps) simp
      next
        case METransformHaveOutput
        have "\<exists>r s'. wait_for_need_input api s1 = Some (r, s') \<and> requests (ms_log s') \<le> inputs (ms_log s') + d"
          using again [of s1] more Some Event METransformHaveOutput counts less.prems by simp
        then show ?thesis using Some Event METransformHaveOutput q counts less.prems
          by (subst wait_for_need_input.simps) (cases r1; simp)
      next
        case Other_Event
        then show ?thesis using again [of "log_entry (Got_Event Other_Event) s"] more Some Event less.prems
          by (subst wait_for_need_input.simps) simp
      qed
    qed (use Some less.prems in \<open>subst wait_for_need_input.simps, simp\<close>)+
  qed (use some in simp)
qed

lemma drain_returns:
  assumes "prompt d k api" "requests (ms_log s) \<le> inputs (ms_log s) + d"
  shows "\<exists>r s'. drain_events_nowait api s = Some (r, s') \<and> requests (ms_log s') \<le> inputs (ms_log s') + d \<and>
    (r = Inr () \<longrightarrow> mf_poll_event api (ms_log s') = Get_Failed NO_EVENTS_AVAILABLE)"
  using assms(2)
proof (induction "k - streak (ms_log s)" arbitrary: s rule: less_induct)
  case less
  have more: "mf_poll_event api (ms_log s) \<noteq> Get_Failed NO_EVENTS_AVAILABLE \<Longrightarrow> streak (ms_log s) < k"
      and req: "mf_poll_event api (ms_log s) = Event METransformNeedInput \<Longrightarrow> requests (ms_log s) < inputs (ms_log s) + d"
    using assms(1) unfolding prompt_def by (meson not_less)+
  show ?case
  proof (cases "mf_poll_event api (ms_log s)")
    case (Event e)
    obtain r1 s1 where q: "queue_output api (log_entry (Got_Event METransformHaveOutput) s) = (r1, s1)" by force
    define t where "t = (if e = METransformHaveOutput then s1 else log_entry (Got_Event e) s)"
    have "streak (ms_log t) = Suc (streak (ms_log s))" "requests (ms_log t) \<le> inputs (ms_log t) + d"
      using queue_output_log [OF q] req Event less.prems by (auto simp: t_def)
    then have "\<exists>r s'. drain_events_nowait api t = Some (r, s') \<and> requests (ms_log s') \<le> inputs (ms_log s') + d \<and>
        (r = Inr () \<longrightarrow> mf_poll_event api (ms_log s') = Get_Failed NO_EVENTS_AVAILABLE)" "requests (ms_log t) \<le> inputs (ms_log t) + d"
      using less.hyps [of t] more Event by simp_all
    then show ?thesis using Event q unfolding t_def
      by (subst drain_events_nowait.simps) (cases r1; simp split: if_splits)
  qed (use less.prems in \<open>subst drain_events_nowait.simps, simp\<close>)+
qed

lemma submit_returns:
  assumes "prompt d k api" "owed d s"
  shows "\<exists>r s'. mf_submit_frame api p force s = Some (r, s') \<and> (r = Inr () \<longrightarrow> ms_have_need_input_credit s' \<and> owed d s')"
proof -
  let ?w = "if ms_have_need_input_credit s then Some (Inr (), s) else wait_for_need_input api s"
  obtain r1 s1 where w: "?w = Some (r1, s1)" "requests (ms_log s1) \<le> inputs (ms_log s1) + d"
    using assms(2) wait_returns [OF assms(1), of s] by (cases "ms_have_need_input_credit s") (auto simp: owed_def)
  obtain r2 env where f: "feed_frame api (ms_cfg s1) p force (ms_env s1) = (r2, env)" by force
  let ?t = "s1\<lparr>ms_have_need_input_credit := False, ms_env := env,
       ms_pending_input_meta := ms_pending_input_meta s1 @ [(p, mf_now api (me_log env))]\<rparr>"
  have "\<exists>r s'. wait_for_need_input api ?t = Some (r, s') \<and> requests (ms_log s') \<le> inputs (ms_log s') + d" if "r2 = Inr ()"
  proof -
    obtain xs where "list_all quiet xs" "me_log env = ms_log s1 @ xs @ [Called ProcessInput None]"
      using feed_frame_cases [OF f] \<open>r2 = Inr ()\<close> by auto
    then have "requests (ms_log ?t) < inputs (ms_log ?t) + d"
      using w(2) quiet_counts [of xs] by (simp add: inputs_def [of "[_]"] requests_def [of "[_]"])
    then show ?thesis by (rule wait_returns [OF assms(1)])
  qed
  then show ?thesis unfolding mf_submit_frame_def w(1)
    by (cases r1; cases r2) (auto simp: in_env_def f owed_def split: sum.split)
qed

lemma drain_idle:
  "mf_poll_event api (ms_log s) = Get_Failed NO_EVENTS_AVAILABLE \<Longrightarrow> drain_events_nowait api s = Some (Inr (), s)"
  by (subst drain_events_nowait.simps) simp

lemma take_packets_idle:
  assumes "mf_poll_event api (ms_log s) = Get_Failed NO_EVENTS_AVAILABLE"
  shows "take_packets api s got = Some ((got @ ms_output_queue s, None), s\<lparr>ms_output_queue := []\<rparr>)"
  using assms
proof (induction "ms_output_queue s" arbitrary: s got)
  case Nil
  then show ?case
    by (subst take_packets.simps) (simp add: try_packet_def drain_idle)
next
  case (Cons pkt rest)
  have "take_packets api s got = take_packets api (s\<lparr>ms_output_queue := rest\<rparr>) (got @ [pkt])"
    using Cons.prems by (subst take_packets.simps) (simp add: try_packet_def drain_idle flip: Cons.hyps(2))
  then show ?case
    using Cons.hyps(1) [of "s\<lparr>ms_output_queue := rest\<rparr>" "got @ [pkt]"] Cons.prems by (simp flip: Cons.hyps(2))
qed

lemma take_returns:
  assumes "prompt d k api" "owed d s" "ms_have_need_input_credit s"
  shows "\<exists>r s'. take_packets api s got = Some (r, s') \<and> owed d s'"
proof -
  have "requests (ms_log s) \<le> inputs (ms_log s) + d" using assms(2) by (simp add: owed_def)
  from drain_returns [OF assms(1) this] obtain r s1 where d: "drain_events_nowait api s = Some (r, s1)"
      "requests (ms_log s1) \<le> inputs (ms_log s1) + d" "r = Inr () \<longrightarrow> mf_poll_event api (ms_log s1) = Get_Failed NO_EVENTS_AVAILABLE"
    by blast
  have c: "ms_have_need_input_credit s1"
    using credit.drain [where c = "ms_have_need_input_credit s", OF d(1), of api] assms(3) by simp
  show ?thesis
  proof (cases r)
    case (Inl e)
    then show ?thesis using d c by (subst take_packets.simps) (simp add: try_packet_def owed_def)
  next
    case (Inr u)
    then have idle: "mf_poll_event api (ms_log (s1\<lparr>ms_output_queue := q\<rparr>)) = Get_Failed NO_EVENTS_AVAILABLE" for q
      using d(3) by simp
    show ?thesis
      by (subst take_packets.simps)
        (use take_packets_idle [OF idle] d(1,2) c Inr in \<open>cases "ms_output_queue s1"; simp add: try_packet_def owed_def\<close>)
  qed
qed

end
