(* ===== verification/MfPipeline.thy ===== *)
theory MfPipeline
  imports MfProps
begin

text \<open>
  The pipeline with the Media Foundation encoder. The pipeline calls an encoder that is a parameter;
  \<open>mf_drives\<close> says that its answers are those of an \<^verbatim>\<open>MfSession\<close> that gets the same calls. Then the
  packets the pipeline gets are those of the frames it submitted, in order and with their times, and
  the encoder never keeps the pipeline waiting for ever.
\<close>

section \<open>A session that is driven by the pipeline\<close>

definition mf_replay :: "mf_api \<Rightarrow> pipe_call \<Rightarrow> mf_session option \<Rightarrow> mf_session option" where
  "mf_replay api c s = (case c of
     Submit_Frame _ pts force _ \<Rightarrow> Option.bind s (\<lambda>s. map_option snd (mf_submit_frame api pts force s))
   | Try_Packets _ \<Rightarrow> Option.bind s (\<lambda>s. map_option snd (take_packets api s []))
   | _ \<Rightarrow> s)"

definition mf_after :: "mf_api \<Rightarrow> mf_session \<Rightarrow> pipe_log \<Rightarrow> mf_session option" where
  "mf_after api s0 calls = fold (mf_replay api) (enc_calls calls) (Some s0)"

definition mf_drives :: "pipe_api \<Rightarrow> mf_api \<Rightarrow> mf_session \<Rightarrow> bool" where
  "mf_drives papi api s0 \<longleftrightarrow> (\<forall>calls s. mf_after api s0 calls = Some s \<longrightarrow>
     (\<forall>pts force r s'. mf_submit_frame api pts force s = Some (r, s') \<longrightarrow> pa_submit papi calls pts force = r) \<and>
     (\<forall>r s'. take_packets api s [] = Some (r, s') \<longrightarrow> pa_packets papi calls = r))"

lemma mf_after_simps [simp]:
  "mf_after api s0 (calls @ [Submit_Frame pic pts force ok]) =
     Option.bind (mf_after api s0 calls) (\<lambda>s. map_option snd (mf_submit_frame api pts force s))"
  "mf_after api s0 (calls @ [Try_Packets pkts]) =
     Option.bind (mf_after api s0 calls) (\<lambda>s. map_option snd (take_packets api s []))"
  "mf_after api s0 (calls @ [Convert pic ok]) = mf_after api s0 calls"
  by (simp_all add: mf_after_def mf_replay_def)

section \<open>A new session\<close>

definition fresh :: "mf_session \<Rightarrow> bool" where
  "fresh s \<longleftrightarrow> ms_pending_input_meta s = [] \<and> ms_output_queue s = [] \<and>
     inputs (ms_log s) = 0 \<and> samples (ms_log s) = [] \<and> requests (ms_log s) = 0"

lemma quietly_started: "quietly (ensure_mf_started api)"
  unfolding quietly_def
proof
  fix env
  show "\<exists>xs. me_log (snd (ensure_mf_started api env)) = me_log env @ xs \<and> list_all quiet xs"
    by (cases "me_initialized env") (simp_all add: ensure_mf_started_def mf_call_def quiet_def Let_def)
qed

lemma quietly_pick: "quietly (pick_mft_for_adapter api v c)"
  unfolding pick_mft_for_adapter_def Let_def by (intro quietly_bind) (auto split: list.splits if_splits)

lemma quietly_dev_mgr: "quietly (create_dev_mgr api)"
  unfolding create_dev_mgr_def by (intro quietly_bind) auto

lemma quietly_output_type: "quietly (configure_video_output_type api cfg)"
  unfolding configure_video_output_type_def Let_def split_def by (rule quietly_seq) auto

lemma quietly_nv12_type: "quietly (configure_nv12_input_type api cfg b)"
  unfolding configure_nv12_input_type_def by (rule quietly_seq) (auto split: if_splits)

lemma quietly_input_type: "quietly (set_input_type api cfg)"
proof -
  have first: "quietly (mf_seq [mf_call api MFCreateMediaType, configure_nv12_input_type api cfg True])"
    and retry: "quietly (mf_seq [mf_call api MFCreateMediaType, configure_nv12_input_type api cfg False, mf_call api SetInputType])"
    by (auto intro!: quietly_seq quietly_output_type quietly_nv12_type)
  have "quietly (\<lambda>env. case mf_call api SetInputType env of
         (Inr _, env) \<Rightarrow> (Inr (), env)
       | (Inl e, env) \<Rightarrow>
           if e = Win32 INVALIDMEDIATYPE then
             mf_seq [mf_call api MFCreateMediaType, configure_nv12_input_type api cfg False, mf_call api SetInputType] env
           else (Inl e, env))" (is "quietly ?m")
    unfolding quietly_def
  proof
    fix env :: mf_env
    let ?x = "Called SetInputType (mf_result api (me_log env) SetInputType)"
    let ?env = "env\<lparr>me_log := me_log env @ [?x]\<rparr>"
    obtain ys where ys: "me_log (snd (mf_seq [mf_call api MFCreateMediaType, configure_nv12_input_type api cfg False, mf_call api SetInputType]
        ?env)) = me_log ?env @ ys" "list_all quiet ys"
      using retry unfolding quietly_def by blast
    show "\<exists>xs. me_log (snd (?m env)) = me_log env @ xs \<and> list_all quiet xs"
    proof (cases "mf_result api (me_log env) SetInputType = Some INVALIDMEDIATYPE")
      case True
      then show ?thesis using ys
        by (auto simp: mf_call_def [of api SetInputType env] quiet_def simp del: mf_seq.simps intro!: exI [of _ "?x # ys"])
    next
      case False
      then show ?thesis
        by (auto simp: mf_call_def [of api SetInputType env] quiet_def Let_def simp del: mf_seq.simps split: option.split intro!: exI [of _ "[?x]"])
    qed
  qed
  then show ?thesis unfolding set_input_type_def by (intro quietly_bind first)
qed

lemma quietly_set_up: "quietly (set_up_transform api cfg a)"
  unfolding set_up_transform_def
  by (rule quietly_seq) (simp add: quietly_dev_mgr quietly_output_type quietly_nv12_type quietly_input_type quietly_call)

lemma session_new_fresh:
  assumes "mf_session_new api v cfg env = (Inr s, env')" "inputs (me_log env) = 0" "samples (me_log env) = []" "requests (me_log env) = 0"
  shows "fresh s \<and> ms_cfg s = cfg"
proof -
  let ?m = "mf_bind (ensure_mf_started api) (\<lambda>_. pick_mft_for_adapter api v (ec_codec cfg))"
  obtain a env1 where m: "?m env = (Inr a, env1)" using assms(1) unfolding mf_session_new_def by (auto simp: mf_bind_Inr [of ?m])
  have "quietly ?m" by (intro quietly_bind quietly_started quietly_pick)
  then obtain xs where xs: "me_log env1 = me_log env @ xs" "list_all quiet xs"
    using m unfolding quietly_def by (metis snd_conv)
  have ms: "set_up_transform api cfg a env1 = (Inr (), env')"
      "s = \<lparr>ms_cfg = cfg, ms_sequence_header = [], ms_have_need_input_credit = False, ms_output_queue = [],
         ms_pending_input_meta = [], ms_env = env'\<rparr>"
    using assms(1) m unfolding mf_session_new_def by (auto simp: mf_bind_Inr)
  then obtain ys where "me_log env' = me_log env1 @ ys" "list_all quiet ys"
    using quietly_set_up [of api cfg a] unfolding quietly_def by (metis snd_conv)
  then show ?thesis using xs ms(2) assms quiet_counts [of xs] quiet_counts [of ys] by (simp add: fresh_def)
qed

section \<open>The run of the pipeline\<close>

definition frame_times :: "pipe_log \<Rightarrow> i64 list" where
  "frame_times calls = map (\<lambda>(pic, pts, force). pts) (submits calls)"

lemma frame_times_simps [simp]:
  "frame_times [] = []" "frame_times (xs @ ys) = frame_times xs @ frame_times ys"
  "frame_times (Submit_Frame pic pts force ok # calls) = (if ok then [pts] else []) @ frame_times calls"
  "frame_times (Try_Packets pkts # calls) = frame_times calls" "frame_times (Convert pic ok # calls) = frame_times calls"
  by (simp_all add: frame_times_def)

text \<open>What the packets that came out are: one for each of the first frames, in order, with its time,
  a patched sample and the flag of its first slice.\<close>

definition packets_ok :: "codec \<Rightarrow> pipe_log \<Rightarrow> bool" where
  "packets_ok codec calls \<longleftrightarrow> map ep_pts_ns (encoded calls) = take (length (encoded calls)) (frame_times calls) \<and>
     (\<forall>pkt \<in> set (encoded calls). \<exists>raw. packet_of codec raw pkt)"

lemma stamped_packets_ok:
  assumes "stamped (frame_times calls) (encoded calls) s"
  shows "packets_ok (ec_codec (ms_cfg s)) calls"
proof -
  let ?k = "length (samples (ms_log s))"
  have "map ep_pts_ns (encoded calls) @ map ep_pts_ns (ms_output_queue s) = take ?k (frame_times calls)" "?k = length (encoded calls @ ms_output_queue s)"
    using assms by (auto simp: stamped_def dest: list_all2_lengthD)
  then have "map ep_pts_ns (encoded calls) = take (length (encoded calls)) (take ?k (frame_times calls))"
    by (metis append_eq_conv_conj length_map)
  then have "map ep_pts_ns (encoded calls) = take (length (encoded calls)) (frame_times calls)"
    using \<open>?k = _\<close> by (simp add: min_def)
  moreover have "\<exists>raw. packet_of (ec_codec (ms_cfg s)) raw pkt" if "pkt \<in> set (encoded calls)" for pkt
  proof -
    have "pkt \<in> set (encoded calls @ ms_output_queue s)" using that by simp
    then obtain i where "i < length (encoded calls @ ms_output_queue s)" "(encoded calls @ ms_output_queue s) ! i = pkt"
      by (metis in_set_conv_nth)
    then show ?thesis using assms unfolding stamped_def by (metis list_all2_conv_all_nth)
  qed
  ultimately show ?thesis by (simp add: packets_ok_def)
qed

interpretation settings: event_invariant api "\<lambda>s. ms_cfg s = cfg" for api cfg
proof
  show "ms_cfg s = cfg \<Longrightarrow> ms_cfg (log_entry (Got_Event e) s) = cfg" for s e by (simp add: log_entry_def)
  show "ms_cfg s = cfg \<Longrightarrow> queue_output api s = (r, s') \<Longrightarrow> ms_cfg s' = cfg" for s r s'
  proof -
    assume q: "queue_output api s = (r, s')" and c: "ms_cfg s = cfg"
    obtain r1 s1 where col: "collect_output_packet api s = (r1, s1)" by force
    then have "ms_cfg s1 = ms_cfg s"
      by (cases rule: collect_cases) (auto simp: take_meta_def split: list.splits prod.splits)
    then show ?thesis using q c col by (auto simp: queue_output_def split: sum.splits option.splits)
  qed
qed

lemma submit_cfg:
  assumes "mf_submit_frame api p force s = Some (Inr u, s')"
  shows "ms_cfg s' = ms_cfg s"
  using assms
proof (cases rule: submit_cases)
  case (1 s1 xs env s2)
  have "ms_cfg s1 = ms_cfg s" using 1(1) settings.wait [where cfg = "ms_cfg s", of api s "(Inr (), s1)" api] by auto
  then show ?thesis using settings.wait [where cfg = "ms_cfg s", OF 1(4), of api] 1(5) by simp
qed

lemma take_cfg:
  "take_packets api s got = Some y \<Longrightarrow> ms_cfg s = cfg \<longrightarrow> ms_cfg (snd y) = cfg"
proof (erule take_packets.raw_induct [rotated], intro impI, goal_cases)
  case (1 f api s got y)
  then obtain r s1 where d: "drain_events_nowait api s = Some (r, s1)"
    by (auto simp: try_packet_def split: option.splits)
  then have "ms_cfg s1 = cfg" using settings.drain [where cfg = cfg, OF d, of api] 1(3) by simp
  then show ?case using 1(2) d 1(1)
    by (cases r; cases "ms_output_queue s1") (auto simp: try_packet_def)
qed

text \<open>The invariant of the run: the session has answered every call, and while the pipeline runs it
  can take the next frame.\<close>

definition enc_inv :: "mf_api \<Rightarrow> mf_session \<Rightarrow> nat \<Rightarrow> pipe_run \<Rightarrow> bool" where
  "enc_inv api s0 d r \<longleftrightarrow> packets_ok (ec_codec (ms_cfg s0)) (pl_log (pr_pipe r)) \<and>
     (\<exists>s. mf_after api s0 (pl_log (pr_pipe r)) = Some s \<and>
       (pr_exit r = None \<longrightarrow> ms_cfg s = ms_cfg s0 \<and> owed d s \<and> stamped (frame_times (pl_log (pr_pipe r))) (encoded (pl_log (pr_pipe r))) s))"

lemma enc_inv_start:
  assumes "fresh s0" "0 < d" "pl_log p = []"
  shows "enc_inv api s0 d (pipe_started p)"
  using assms by (auto simp: enc_inv_def pipe_started_def packets_ok_def mf_after_def fresh_def owed_def stamped_def frame_times_def)

text \<open>One call of each kind, from a state in which a frame can be submitted.\<close>

lemma enc_keepalive:
  assumes "mf_drives papi api s0" "one_per_frame api" "prompt d k api"
    "mf_after api s0 (pl_log p) = Some s" "ms_cfg s = ms_cfg s0" "owed d s" "stamped (frame_times (pl_log p)) (encoded (pl_log p)) s"
    "encode_keepalive papi now force p = (res, p')"
  shows "enc_inv api s0 d \<lparr>pr_pipe = p', pr_exit = (case res of Inl e \<Rightarrow> Some (Inl e) | Inr _ \<Rightarrow> None), pr_panicked = b\<rparr>"
proof -
  let ?pts = "of_nat (now - pl_start_instant p) :: i64"
  let ?l1 = "pl_log p @ [Convert (pl_keepalive p) (is_ok (pa_convert papi (pl_log p)))]"
  note ok = stamped_packets_ok [OF assms(7), unfolded assms(5)]
  have s1: "mf_after api s0 ?l1 = Some s" using assms(4) by simp
  obtain r s2 where sub: "mf_submit_frame api ?pts force s = Some (r, s2)" "r = Inr () \<longrightarrow> ms_have_need_input_credit s2 \<and> owed d s2"
    using submit_returns [OF assms(3,6)] by blast
  have pa1: "pa_submit papi ?l1 ?pts force = r" using assms(1) s1 sub(1) unfolding mf_drives_def by blast
  let ?l2 = "?l1 @ [Submit_Frame (pl_keepalive p) ?pts force (is_ok r)]"
  have s2: "mf_after api s0 ?l2 = Some s2" using s1 sub(1) by (simp only: mf_after_simps) simp
  show ?thesis
  proof (cases "pa_convert papi (pl_log p)")
    case (Inl e)
    then have "res = Inl e" "pl_log p' = ?l1" using assms(8) by (auto simp: encode_keepalive_def convert_keepalive_def Let_def)
    then show ?thesis using ok s1 by (simp add: enc_inv_def packets_ok_def)
  next
    case conv: (Inr u)
    show ?thesis
    proof (cases r)
      case (Inl e)
      then have "res = Inl e" "pl_log p' = ?l2" using assms(8) conv pa1
        by (auto simp: encode_keepalive_def convert_keepalive_def submit_frame_def Let_def)
      then show ?thesis using ok s2 Inl by (simp add: enc_inv_def packets_ok_def is_ok_def frame_times_def)
    next
      case (Inr u)
      then have c2: "ms_have_need_input_credit s2" "owed d s2" using sub(2) by simp_all
      obtain pkts e s3 where t: "take_packets api s2 [] = Some ((pkts, e), s3)" "owed d s3"
        using take_returns [OF assms(3) c2(2,1)] by (metis surj_pair)
      have pa2: "pa_packets papi ?l2 = (pkts, e)" using assms(1) s2 t(1) unfolding mf_drives_def by blast
      let ?l3 = "?l2 @ [Try_Packets pkts]"
      have s3: "mf_after api s0 ?l3 = Some s3" using s2 t(1) by (simp only: mf_after_simps) simp
      have p': "pl_log p' = ?l3" "res = (case e of None \<Rightarrow> Inr () | Some e \<Rightarrow> Inl e)" using assms(8) conv pa1 pa2 Inr
        by (auto simp: encode_keepalive_def convert_keepalive_def submit_frame_def push_packets_def Let_def split: option.splits)
      have "stamped (frame_times ?l2) (encoded ?l2) s2"
        using stamped_submit [OF assms(2,7)] sub(1) Inr by (simp add: is_ok_def)
      then have st: "stamped (frame_times ?l3) (encoded ?l3) s3" using stamped_take [OF t(1), of "frame_times ?l2" "encoded ?l2"] assms(2) by simp
      have cfg: "ms_cfg s3 = ms_cfg s0"
        using submit_cfg [of api ?pts force s u s2] sub(1) Inr take_cfg [OF t(1), of "ms_cfg s0"] assms(5) by simp
      show ?thesis
        using s3 t(2) st cfg p' stamped_packets_ok [OF st] by (auto simp: enc_inv_def simp del: mf_after_simps split: option.splits)
    qed
  qed
qed

lemma mf_after_enc: "enc_calls calls = enc_calls calls' \<Longrightarrow> mf_after api s0 calls = mf_after api s0 calls'"
  by (simp add: mf_after_def)

lemma enc_inv_tick:
  assumes "mf_drives papi api s0" "one_per_frame api" "prompt d k api" "enc_inv api s0 d r" "pr_exit r = None"
    "tick papi (pr_pipe r) = Some (res, p')"
  shows "enc_inv api s0 d \<lparr>pr_pipe = p', pr_exit = (case res of Inl e \<Rightarrow> Some (Inl e) | Inr _ \<Rightarrow> None), pr_panicked = b\<rparr>"
proof -
  obtain s where s: "mf_after api s0 (pl_log (pr_pipe r)) = Some s" "ms_cfg s = ms_cfg s0" "owed d s"
      "stamped (frame_times (pl_log (pr_pipe r))) (encoded (pl_log (pr_pipe r))) s"
    using assms(4,5) by (auto simp: enc_inv_def)
  from assms(6) show ?thesis
  proof (cases rule: tick_cases)
    case (failed e cap)
    then show ?thesis using assms(4) by (auto simp: enc_inv_def)
  next
    case (acquired acq cap p2)
    then have same: "enc_calls (pl_log p2) = enc_calls (pl_log (pr_pipe r))" "submits (pl_log p2) = submits (pl_log (pr_pipe r))"
        "encoded (pl_log p2) = encoded (pl_log (pr_pipe r))"
      by (cases acq; auto dest!: same_rest_use_frame simp: same_rest_def take_acquired_def)+
    show ?thesis
      using enc_keepalive [OF assms(1-3) _ s(2,3) _ acquired(3)] s(1,4) mf_after_enc [OF same(1)] same by (simp add: frame_times_def)
  qed
qed

lemma enc_inv_event:
  assumes "mf_drives papi api s0" "one_per_frame api" "prompt d k api" "enc_inv api s0 d r"
  shows "enc_inv api s0 d (pipe_event papi ev r)"
proof (cases "ev = Turn \<and> pr_exit r = None \<and> \<not> pr_panicked r \<and> \<not> pl_stop (pr_pipe r)")
  case False
  then show ?thesis using assms(4)
    by (cases ev) (auto simp: pipe_event_def enc_inv_def request_idr_def pipeline_stop_def Let_def)
next
  case True
  show ?thesis
  proof (cases "tick papi (pr_pipe r)")
    case None
    then show ?thesis using assms(4) True by (simp add: pipe_event_def enc_inv_def)
  next
    case (Some y)
    then obtain res p' where y: "tick papi (pr_pipe r) = Some (res, p')" by (metis surj_pair)
    have "pipe_event papi ev r = \<lparr>pr_pipe = p', pr_exit = (case res of Inl e \<Rightarrow> Some (Inl e) | Inr _ \<Rightarrow> None), pr_panicked = pr_panicked r\<rparr>"
      using True y by (cases r; cases res) (simp_all add: pipe_event_def)
    then show ?thesis using enc_inv_tick [OF assms, of res p' "pr_panicked r"] True y by simp
  qed
qed

lemma enc_inv_events:
  assumes "mf_drives papi api s0" "one_per_frame api" "prompt d k api" "enc_inv api s0 d r"
  shows "enc_inv api s0 d (pipe_events papi evs r)"
  using assms(4) by (induction evs arbitrary: r) (auto simp: pipe_events_def intro: enc_inv_event [OF assms(1-3)])

lemma mf_pipeline:
  assumes "mf_session_new api v cfg \<lparr>me_initialized = b, me_log = []\<rparr> = (Inr s0, env)" "one_per_frame api" "prompt d k api"
    "mf_drives papi api s0" "pl_log p = []"
  shows "packets_ok (ec_codec cfg) (pl_log (pr_pipe (pipe_events papi evs (pipe_started p)))) \<and>
    mf_after api s0 (pl_log (pr_pipe (pipe_events papi evs (pipe_started p)))) \<noteq> None"
proof -
  have "fresh s0 \<and> ms_cfg s0 = cfg"
    by (rule session_new_fresh [OF assms(1)]) (simp_all add: inputs_def samples_def requests_def)
  moreover have "0 < d" using assms(3) by (simp add: prompt_def)
  ultimately have "enc_inv api s0 d (pipe_events papi evs (pipe_started p))" "ms_cfg s0 = cfg"
    using enc_inv_events [OF assms(4,2,3) enc_inv_start] assms(5) by blast+
  then show ?thesis by (auto simp: enc_inv_def)
qed

text \<open>The encoder that an \<^verbatim>\<open>MfSession\<close> is for the pipeline, where the session answers.\<close>

definition with_mf :: "mf_api \<Rightarrow> mf_session \<Rightarrow> pipe_api \<Rightarrow> pipe_api" where
  "with_mf api s0 papi = papi\<lparr>
     pa_submit := \<lambda>calls pts force. case Option.bind (mf_after api s0 calls) (mf_submit_frame api pts force) of
         Some (r, _) \<Rightarrow> r | None \<Rightarrow> Inl NotInitialized,
     pa_packets := \<lambda>calls. case Option.bind (mf_after api s0 calls) (\<lambda>s. take_packets api s []) of
         Some (r, _) \<Rightarrow> r | None \<Rightarrow> ([], Some NotInitialized)\<rparr>"

lemma with_mf_drives: "mf_drives (with_mf api s0 papi) api s0"
  by (simp add: mf_drives_def with_mf_def)

text \<open>A failed \<^verbatim>\<open>MFStartup\<close> is remembered as a success.\<close>

lemma startup_failure_forgotten:
  assumes "\<not> me_initialized env" "mf_result api (me_log env) MFStartup = Some hr"
  shows "\<exists>env1. ensure_mf_started api env = (Inl (Win32 hr), env1) \<and> ensure_mf_started api env1 = (Inr (), env1)"
  using assms by (simp add: ensure_mf_started_def mf_call_def)

end
