(* ===== verification/Session.thy ===== *)
theory Session
  imports Coords Inject Protocol Nal Engine Vdd
begin

unbundle bit_operations_syntax

text \<open>
  One session of \<^verbatim>\<open>crates/penflow-server/src/session.rs\<close>: the handshake, the loop that reads the
  client's messages and drives the injector, the frame and telemetry pumps that share the writer
  with it, and the wait for the first keyframe. Each task is a function of the messages, packets and
  clock readings it is given; the pumps and the replies of the read loop are interleaved as events,
  one event for each stretch under the lock of the writer.
\<close>

section \<open>Configuration and errors\<close>

datatype session_error =
    Engine engine_error
  | Protocol_Error protocol_error
  | Session_Io io_error
  | UnexpectedHandshakeMessage u8
  | NoKeyframe nat
  | Vdd_Failed vdd_error

record session_config =
  sc_monitor :: monitor_info
  sc_codec :: codec
  sc_bitrate_bps :: u32
  sc_fps :: u32
  sc_idr_interval :: "nat option"
  sc_motion_idr_threshold_bytes :: "nat option"
  sc_motion_idr_min_interval :: nat
  sc_vdd :: "vdd_controller option"
  sc_vdd_target_resolution :: "(u32 \<times> u32) option"
  sc_hud_enabled :: bool
  sc_screen_off :: bool
  sc_disable_touch :: bool
  sc_pen_profile :: pen_button_profile

definition no_monitor :: monitor_info where
  "no_monitor = \<lparr>mi_adapter_index = 0, mi_adapter_luid = 0, mi_adapter_name = [], mi_adapter_vendor_id = 0,
     mi_adapter_device_id = 0, mi_adapter_is_software = False, mi_output_index = 0, mi_device_name = [],
     mi_width = 0, mi_height = 0, mi_desktop_coords = (0, 0, 0, 0), mi_rotation = 1, mi_attached = False,
     mi_looks_virtual = False\<rparr>"

definition session_config_default :: session_config where
  "session_config_default = \<lparr>sc_monitor = no_monitor, sc_codec = Hevc, sc_bitrate_bps = 50000000, sc_fps = 120,
     sc_idr_interval = None, sc_motion_idr_threshold_bytes = None, sc_motion_idr_min_interval = 250, sc_vdd = None,
     sc_vdd_target_resolution = None, sc_hud_enabled = True,
     sc_screen_off = False, sc_disable_touch = False, sc_pen_profile = default_profile\<rparr>"

section \<open>Statistics\<close>

record session_stats =
  ss_frames :: u32
  ss_queue_depth :: u32
  ss_encode_us_ring :: "u32 list"

definition session_stats_default :: session_stats where
  "session_stats_default = \<lparr>ss_frames = 0, ss_queue_depth = 0, ss_encode_us_ring = []\<rparr>"

definition ENCODE_RING_CAPACITY :: nat where "ENCODE_RING_CAPACITY = 256"

definition record_encode_us :: "u32 \<Rightarrow> session_stats \<Rightarrow> session_stats" where
  "record_encode_us us st =
     (let ring = ss_encode_us_ring st;
          ring = (if length ring = ENCODE_RING_CAPACITY then tl ring else ring) in
      st\<lparr>ss_encode_us_ring := ring @ [us]\<rparr>)"

text \<open>The product of an integer below \<open>2 ^ 53\<close> and the \<^verbatim>\<open>f64\<close> nearest to 0.99, which is
  \<open>4458563631096791 / 2 ^ 52\<close>, rounded to 53 bits, ties to even, then truncated.\<close>

function bits_over :: "nat \<Rightarrow> nat \<Rightarrow> nat" where
  "bits_over p m = (if m < 2 ^ p then 0 else Suc (bits_over p (m div 2)))"
  by pat_completeness auto
termination
proof (relation "measure snd", goal_cases)
  case (2 p m)
  have "(0 :: nat) < 2 ^ p" by simp
  then have "0 < m" using 2 by linarith
  then show ?case by simp
qed simp

declare bits_over.simps [simp del]

definition round_even_53 :: "nat \<Rightarrow> nat" where
  "round_even_53 m =
     (let s = bits_over 53 m; q = m div 2 ^ s; r = m mod 2 ^ s in
      if 2 * r > 2 ^ s \<or> 2 * r = 2 ^ s \<and> odd q then (q + 1) * 2 ^ s else q * 2 ^ s)"

definition times_099 :: "nat \<Rightarrow> nat" where
  "times_099 n = round_even_53 (n * 4458563631096791) div 2 ^ 52"

definition encode_us_summary :: "session_stats \<Rightarrow> u32 \<times> u32" where
  "encode_us_summary st =
     (let ring = ss_encode_us_ring st in
      if ring = [] then (0, 0)
      else let total = sum_list (map ucast ring) :: u64;
               avg = ucast (total div of_nat (length ring));
               sorted = sort ring;
               idx = times_099 (length sorted - 1) in
        (avg, sorted ! idx))"

section \<open>The read loop\<close>

text \<open>\<open>le_elapsed n\<close> is the n-th reading of \<^verbatim>\<open>session_start.elapsed()\<close> in nanoseconds.\<close>

record loop_env =
  le_api :: win32_api
  le_iter :: "(u32 \<times> (i32 \<times> i32)) list \<Rightarrow> (u32 \<times> (i32 \<times> i32)) list"
  le_coords :: affine_transform
  le_vscreen :: "u32 \<times> u32"
  le_elapsed :: "nat \<Rightarrow> nat"
  le_disable_touch :: bool

record loop_state =
  ls_in :: in_stream
  ls_world :: world
  ls_out :: out_stream
  ls_idr :: nat
  ls_readings :: nat

definition vscreen :: "i32 \<Rightarrow> i32 \<Rightarrow> u32 \<times> u32" where
  "vscreen w h = (if w <s 1 then 1 else w, if h <s 1 then 1 else h)"

text \<open>\<^verbatim>\<open>f32 as i32\<close>: truncation toward zero, saturating, a NaN is 0.\<close>

fun f32_as_i32 :: "f32 \<Rightarrow> i32" where
  "f32_as_i32 NaN = 0"
| "f32_as_i32 (Inf s) = (if s then 0x80000000 else 0x7FFFFFFF)"
| "f32_as_i32 (Fin x) =
     of_int (max (- (2 ^ 31)) (min (2 ^ 31 - 1) (if x < 0 then - \<lfloor>- x\<rfloor> else \<lfloor>x\<rfloor>)))"

definition pen_sample_of :: "loop_env \<Rightarrow> pen_event \<Rightarrow> pen_sample" where
  "pen_sample_of env pe =
     (let xn = f32_of_bits (pe_x_norm pe); yn = f32_of_bits (pe_y_norm pe);
          (x, y) = map_to_pixel (le_coords env) xn yn;
          (vx_log, vy_log) = map_to_vmulti (le_coords env) xn yn (fst (le_vscreen env)) (snd (le_vscreen env)) in
      \<lparr>ps_x = x, ps_y = y, ps_x_logical = vx_log, ps_y_logical = vy_log, ps_pressure = pe_pressure pe,
       ps_tilt_x_deg = f32_as_i32 (f32_of_bits (pe_tilt_x pe)),
       ps_tilt_y_deg = f32_as_i32 (f32_of_bits (pe_tilt_y pe)),
       ps_in_range = (pe_phase pe \<noteq> 4), ps_in_contact = (pe_phase pe = 1 \<or> pe_phase pe = 2),
       ps_eraser = (pe_tool pe = 1), ps_buttons = pe_buttons pe\<rparr>)"

definition touch_point_of :: "loop_env \<Rightarrow> touch_contact \<Rightarrow> touch_point" where
  "touch_point_of env c =
     (let (x, y) = map_to_pixel (le_coords env) (f32_of_bits (tc_x_norm c)) (f32_of_bits (tc_y_norm c)) in
      \<lparr>tp_id = ucast (tc_pointer_id c), tp_x = x, tp_y = y, tp_state = Touch_Update\<rparr>)"

definition touch_snapshot :: "loop_env \<Rightarrow> touch_event \<Rightarrow> touch_point list" where
  "touch_snapshot env te = (if le_disable_touch env then [] else map (touch_point_of env) (te_contacts te))"

text \<open>One message; the first component is the result when the loop returns.\<close>

definition handle_pen :: "loop_env \<Rightarrow> bytes \<Rightarrow> loop_state \<Rightarrow> (session_error + unit) option \<times> loop_state" where
  "handle_pen env payload s =
     (case pen_event_decode payload of
        Inl e \<Rightarrow> (Some (Inl (Protocol_Error e)), s)
      | Inr pe \<Rightarrow> (None, s\<lparr>ls_world := snd (inject_pen (le_api env) (pen_sample_of env pe) (ls_world s))\<rparr>))"

definition handle_touch :: "loop_env \<Rightarrow> bytes \<Rightarrow> loop_state \<Rightarrow> (session_error + unit) option \<times> loop_state" where
  "handle_touch env payload s =
     (case touch_event_decode payload of
        Inl e \<Rightarrow> (Some (Inl (Protocol_Error e)), s)
      | Inr te \<Rightarrow> (None, s\<lparr>ls_world := snd (inject_touch (le_api env) (le_iter env) (touch_snapshot env te) (ls_world s))\<rparr>))"

definition handle_time_sync :: "loop_env \<Rightarrow> bytes \<Rightarrow> loop_state \<Rightarrow> (session_error + unit) option \<times> loop_state" where
  "handle_time_sync env payload s =
     (case time_sync_req_decode payload of
        Inl e \<Rightarrow> (Some (Inl (Protocol_Error e)), s)
      | Inr req \<Rightarrow>
          let resp = \<lparr>tsr_android_t1_ns = tsq_android_t1_ns req,
                tsr_pc_t2_ns = of_nat (le_elapsed env (ls_readings s)),
                tsr_pc_t3_ns = of_nat (le_elapsed env (Suc (ls_readings s)))\<rparr>;
              s = s\<lparr>ls_readings := ls_readings s + 2\<rparr> in
          (case write_frame (ls_out s) MSG_TIME_SYNC_RESP (time_sync_resp_encode resp) of
             Inl e \<Rightarrow> (Some (Inr ()), s)
           | Inr out \<Rightarrow> (None, s\<lparr>ls_out := out\<rparr>)))"

definition handle_message :: "loop_env \<Rightarrow> u8 \<times> bytes \<Rightarrow> loop_state \<Rightarrow> (session_error + unit) option \<times> loop_state" where
  "handle_message env m s =
     (let (msg_id, payload) = m in
      if msg_id = MSG_PEN_EVENT then handle_pen env payload s
      else if msg_id = MSG_TOUCH_EVENT then handle_touch env payload s
      else if msg_id = MSG_TIME_SYNC_REQ then handle_time_sync env payload s
      else if msg_id = MSG_REQUEST_IDR then (None, s\<lparr>ls_idr := ls_idr s + 1\<rparr>)
      else if msg_id = MSG_ANDROID_GOODBYE then (Some (Inr ()), s)
      else (None, s))"

text \<open>A connection that ends, cleanly or not, is no error.\<close>

definition end_of_stream :: "protocol_error \<Rightarrow> session_error + unit" where
  "end_of_stream e = (case e of Io UnexpectedEof \<Rightarrow> Inr () | Io ConnectionReset \<Rightarrow> Inr () | _ \<Rightarrow> Inl (Protocol_Error e))"

lemma read_frame_shrinks: "read_frame r = Inr (m, r') \<Longrightarrow> length (pending r') < length (pending r)"
proof -
  assume "read_frame r = Inr (m, r')"
  moreover have "read_exact n r1 = Inr (xs, r2) \<Longrightarrow> length (pending r1) = n + length (pending r2)" for n r1 xs r2
    by (auto simp: read_exact_def split: if_splits)
  ultimately show ?thesis
    by (auto simp: read_frame_def result_bind_Inr_iff io_try_Inr_iff Let_def split: if_splits)
qed

lemma handle_message_in [simp]: "ls_in (snd (handle_message env m s)) = ls_in s"
  by (simp add: handle_message_def handle_pen_def handle_touch_def handle_time_sync_def Let_def split_def split: sum.split)

function read_loop :: "loop_env \<Rightarrow> loop_state \<Rightarrow> (session_error + unit) \<times> loop_state" where
  "read_loop env s =
     (case read_frame (ls_in s) of
        Inl e \<Rightarrow> (end_of_stream e, s)
      | Inr (m, r) \<Rightarrow>
          (case handle_message env m (s\<lparr>ls_in := r\<rparr>) of
             (Some res, s) \<Rightarrow> (res, s)
           | (None, s) \<Rightarrow> read_loop env s))"
  by pat_completeness auto
termination
proof (relation "measure (\<lambda>(env, s). length (pending (ls_in s)))", goal_cases)
  case (2 env s b m r x s')
  have "ls_in s' = r" using 2(3) handle_message_in [of env m "s\<lparr>ls_in := r\<rparr>"] by (metis loop_state.select_convs(1) loop_state.update_convs(1) loop_state.surjective snd_conv)
  then show ?case using 2 read_frame_shrinks [of "ls_in s" m r] by simp
qed simp

declare read_loop.simps [simp del]

section \<open>Waiting for the first keyframe\<close>

text \<open>A pop with a timeout on the queue of a running pipeline: nothing when it times out or the queue
  is closed. A turn of the loop is the time of its test and what happens to the pipeline until its pop
  returns. \<open>None\<close> while the loop goes on.\<close>

definition take_packet :: "pipe_run \<Rightarrow> encoded_packet option \<times> pipe_run" where
  "take_packet r = (let (x, q) = try_pop (pl_queue (pr_pipe r)) in (x, r\<lparr>pr_pipe := (pr_pipe r)\<lparr>pl_queue := q\<rparr>\<rparr>))"

fun wait_for_keyframe :: "pipe_api \<Rightarrow> nat \<Rightarrow> nat \<Rightarrow> (nat \<times> pipe_op list) list \<Rightarrow> pipe_run \<Rightarrow>
    (session_error + encoded_packet) option \<times> pipe_run" where
  "wait_for_keyframe api timeout deadline [] r = (None, r)"
| "wait_for_keyframe api timeout deadline ((now, evs) # turns) r =
     (if now < deadline then
        case take_packet (pipe_events api evs r) of
          (Some p, r) \<Rightarrow>
            if ep_is_keyframe p then (Some (Inr p), r) else wait_for_keyframe api timeout deadline turns r
        | (None, r) \<Rightarrow> wait_for_keyframe api timeout deadline turns r
      else (Some (Inl (NoKeyframe timeout)), r))"

section \<open>The pumps\<close>

text \<open>What the tasks that share the writer keep. Times are in nanoseconds; \<open>pu_idr\<close> are the times
  of the IDR requests of the frame pump.\<close>

record pumps =
  pu_out :: out_stream
  pu_stats :: session_stats
  pu_idr :: "int list"
  pu_last_motion_idr :: int
  pu_frame_pump :: bool
  pu_telemetry_pump :: bool

definition pumps_start :: "int \<Rightarrow> int \<Rightarrow> out_stream \<Rightarrow> pumps" where
  "pumps_start now motion_idr_min_interval out = \<lparr>pu_out = out, pu_stats = session_stats_default, pu_idr = [],
     pu_last_motion_idr = now - motion_idr_min_interval, pu_frame_pump = True, pu_telemetry_pump = True\<rparr>"

definition video_frame_of :: "encoded_packet \<Rightarrow> video_frame" where
  "video_frame_of pkt =
     (let flags = (if ep_is_keyframe pkt then FRAME_FLAG_KEYFRAME else 0);
          flags = (if ep_encode_us pkt \<noteq> None then flags OR FRAME_FLAG_EXTENDED else flags) in
      \<lparr>vf_pts_ns = ep_pts_ns pkt, vf_flags = flags, vf_capture_us = None, vf_encode_us = ep_encode_us pkt,
       vf_coded = ep_bytes pkt\<rparr>)"

text \<open>One packet in the frame pump: \<open>t\<close> is the reading of the clock in the motion test, \<open>t'\<close> the
  one that is remembered, \<open>depth\<close> that of the queue afterwards. A failed write ends the pump.\<close>

definition motion_idr_due :: "nat option \<Rightarrow> int \<Rightarrow> encoded_packet \<Rightarrow> int \<Rightarrow> int \<Rightarrow> bool" where
  "motion_idr_due threshold min_interval pkt last_idr t =
     (case threshold of
        None \<Rightarrow> False
      | Some n \<Rightarrow> \<not> ep_is_keyframe pkt \<and> n \<le> length (ep_bytes pkt) \<and> min_interval \<le> t - last_idr)"

definition frame_pump_packet :: "nat option \<Rightarrow> int \<Rightarrow> encoded_packet \<Rightarrow> int \<Rightarrow> int \<Rightarrow> nat \<Rightarrow> pumps \<Rightarrow> pumps" where
  "frame_pump_packet threshold min_interval pkt t t' depth p =
     (case write_all (encode_frame MSG_VIDEO_FRAME (video_frame_encode (video_frame_of pkt))) (pu_out p) of
        Inl e \<Rightarrow> p\<lparr>pu_frame_pump := False\<rparr>
      | Inr out \<Rightarrow>
          let p = p\<lparr>pu_out := out\<rparr>;
              p = (if motion_idr_due threshold min_interval pkt (pu_last_motion_idr p) t
                   then p\<lparr>pu_idr := pu_idr p @ [t], pu_last_motion_idr := t'\<rparr> else p);
              st = pu_stats p;
              st = st\<lparr>ss_frames := ss_frames st + 1\<rparr>;
              st = (case ep_encode_us pkt of Some us \<Rightarrow> record_encode_us us st | None \<Rightarrow> st) in
          p\<lparr>pu_stats := st\<lparr>ss_queue_depth := of_nat depth\<rparr>\<rparr>)"

definition telemetry_of :: "session_stats \<Rightarrow> queue_stats \<Rightarrow> telemetry" where
  "telemetry_of st qs =
     (let (avg, p99) = encode_us_summary st in
      \<lparr>tm_frames = ss_frames st, tm_dropped = ucast (qs_dropped_overflow qs), tm_capture_us_avg = 0,
       tm_encode_us_avg = avg, tm_encode_us_p99 = p99, tm_queue_depth = of_nat (min (qs_depth qs) 255)\<rparr>)"

definition telemetry_tick :: "queue_stats \<Rightarrow> pumps \<Rightarrow> pumps" where
  "telemetry_tick qs p =
     (let t = telemetry_of (pu_stats p) qs; p = p\<lparr>pu_stats := (pu_stats p)\<lparr>ss_frames := 0\<rparr>\<rparr> in
      case write_all (encode_frame MSG_TELEMETRY (telemetry_encode t)) (pu_out p) of
        Inl e \<Rightarrow> p\<lparr>pu_telemetry_pump := False\<rparr>
      | Inr out \<Rightarrow> p\<lparr>pu_out := out\<rparr>)"

text \<open>The stretches under the lock of the writer, in any order: a packet, a second, and a reply of
  the read loop.\<close>

datatype pump_op =
    Packet encoded_packet int int nat
  | Second queue_stats
  | Reply time_sync_resp

definition pump_event :: "nat option \<Rightarrow> int \<Rightarrow> pump_op \<Rightarrow> pumps \<Rightarrow> pumps" where
  "pump_event threshold min_interval ev p =
     (case ev of
        Packet pkt t t' depth \<Rightarrow>
          if pu_frame_pump p then frame_pump_packet threshold min_interval pkt t t' depth p else p
      | Second qs \<Rightarrow> if pu_telemetry_pump p then telemetry_tick qs p else p
      | Reply resp \<Rightarrow>
          (case write_frame (pu_out p) MSG_TIME_SYNC_RESP (time_sync_resp_encode resp) of
             Inl _ \<Rightarrow> p | Inr out \<Rightarrow> p\<lparr>pu_out := out\<rparr>))"

definition pump_events :: "nat option \<Rightarrow> int \<Rightarrow> pump_op list \<Rightarrow> pumps \<Rightarrow> pumps" where
  "pump_events threshold min_interval evs p = fold (pump_event threshold min_interval) evs p"

section \<open>Handshake\<close>

definition rotation_degrees :: "u32 \<Rightarrow> u32" where
  "rotation_degrees rotation = (if rotation = 2 then 90 else if rotation = 3 then 180 else if rotation = 4 then 270 else 0)"

definition session_coords :: "monitor_info \<Rightarrow> affine_transform" where
  "session_coords m =
     (let (left, top, _, _) = mi_desktop_coords m in
      from_normalized_to_rect left top (mi_width m) (mi_height m) (rotation_degrees (mi_rotation m)))"

definition codec_wire_id :: "codec \<Rightarrow> u8" where
  "codec_wire_id c = (case c of H264 \<Rightarrow> CODEC_H264 | Hevc \<Rightarrow> CODEC_HEVC)"

definition parameter_sets :: "codec \<Rightarrow> bytes \<Rightarrow> bytes" where
  "parameter_sets c bs = (case c of H264 \<Rightarrow> extract_h264_nals bs [7, 8] | Hevc \<Rightarrow> extract_hevc_nals bs [32, 33, 34])"

definition hello_pc_for :: "session_config \<Rightarrow> monitor_info \<Rightarrow> hello_pc" where
  "hello_pc_for cfg m =
     \<lparr>hp_protocol_version = 0, hp_width = ucast (min (mi_width m) 65535), hp_height = ucast (min (mi_height m) 65535),
      hp_codec = codec_wire_id (sc_codec cfg), hp_bitrate_bps = sc_bitrate_bps cfg, hp_fps = ucast (min (sc_fps cfg) 255)\<rparr>"

definition client_config_for :: "session_config \<Rightarrow> client_config" where
  "client_config_for cfg = \<lparr>cc_flags = (if sc_hud_enabled cfg then CLIENT_CFG_FLAG_HUD else 0)\<rparr>"

definition client_config_screen_off :: "session_config \<Rightarrow> client_config" where
  "client_config_screen_off cfg = (let cfg_flags = CLIENT_CFG_FLAG_SCREEN_OFF in
     \<lparr>cc_flags = (if sc_hud_enabled cfg then cfg_flags OR CLIENT_CFG_FLAG_HUD else cfg_flags)\<rparr>)"

definition protocol_try :: "protocol_error + 'a \<Rightarrow> session_error + 'a" where
  "protocol_try r = (case r of Inl e \<Rightarrow> Inl (Protocol_Error e) | Inr a \<Rightarrow> Inr a)"

definition read_hello :: "in_stream \<Rightarrow> session_error + (hello_android \<times> in_stream)" where
  "read_hello r =
     result_bind (protocol_try (read_frame r)) (\<lambda>((msg_id, payload), r).
       if msg_id \<noteq> MSG_HELLO_ANDROID then Inl (UnexpectedHandshakeMessage msg_id)
       else result_bind (protocol_try (hello_android_decode payload)) (\<lambda>android. Inr (android, r)))"

text \<open>What \<^verbatim>\<open>run\<close> writes between the first keyframe and the pumps.\<close>

definition send_handshake :: "session_config \<Rightarrow> monitor_info \<Rightarrow> encoded_packet \<Rightarrow> out_stream \<Rightarrow> session_error + out_stream" where
  "send_handshake cfg m first_pkt w =
     (let csd0 = parameter_sets (sc_codec cfg) (ep_bytes first_pkt) in
      if csd0 = [] then Inl (NoKeyframe 3000)
      else
        result_bind (protocol_try (write_frame w MSG_HELLO_PC (hello_pc_encode (hello_pc_for cfg m)))) (\<lambda>w.
        result_bind (protocol_try (write_frame w MSG_CLIENT_CONFIG (client_config_encode (client_config_for cfg)))) (\<lambda>w.
        result_bind (protocol_try (write_frame w MSG_VIDEO_CONFIG csd0)) (\<lambda>w.
          let first_vf = \<lparr>vf_pts_ns = ep_pts_ns first_pkt, vf_flags = FRAME_FLAG_KEYFRAME, vf_capture_us = None,
                vf_encode_us = None, vf_coded = ep_bytes first_pkt\<rparr> in
          protocol_try (write_frame w MSG_VIDEO_FRAME (video_frame_encode first_vf))))))"

definition send_goodbye :: "out_stream \<Rightarrow> out_stream" where
  "send_goodbye w = (case write_frame w MSG_PC_GOODBYE [] of Inl _ \<Rightarrow> w | Inr w' \<Rightarrow> w')"

section \<open>The session without video\<close>

datatype session_event =
    Connecting
  | Connected u16 u16
  | Disconnected
  | Errored session_error

definition final_event :: "session_error + unit \<Rightarrow> session_event" where
  "final_event r = (case r of Inr _ \<Rightarrow> Disconnected | Inl e \<Rightarrow> Errored e)"

text \<open>The read loop until the caller's \<^verbatim>\<open>finish\<close> signal, which here comes after a given number of
  messages.\<close>

fun read_loop_until :: "nat \<Rightarrow> loop_env \<Rightarrow> loop_state \<Rightarrow> (session_error + unit) \<times> loop_state" where
  "read_loop_until 0 env s = (Inr (), s)"
| "read_loop_until (Suc n) env s =
     (case read_frame (ls_in s) of
        Inl e \<Rightarrow> (end_of_stream e, s)
      | Inr (m, r) \<Rightarrow>
          (case handle_message env m (s\<lparr>ls_in := r\<rparr>) of
             (Some res, s) \<Rightarrow> (res, s)
           | (None, s) \<Rightarrow> read_loop_until n env s))"

definition refreshed_monitor :: "engine_error + monitor_info list \<Rightarrow> monitor_info \<Rightarrow> monitor_info" where
  "refreshed_monitor listed cached =
     (case listed of
        Inl _ \<Rightarrow> cached
      | Inr ms \<Rightarrow>
          (case find (\<lambda>m. mi_adapter_luid m = mi_adapter_luid cached \<and> mi_device_name m = mi_device_name cached) ms of
             Some m \<Rightarrow> m | None \<Rightarrow> cached))"

text \<open>What the operating system answers during a session: the transport, the result of creating
  the injector (whether VMulti was found), the monitors, the size of the virtual screen.\<close>

record session_os =
  so_accept :: "io_error + (in_stream \<times> out_stream)"
  so_injector :: "engine_error + bool"
  so_monitors :: "engine_error + monitor_info list"
  so_screen :: "i32 \<times> i32"
  so_api :: win32_api
  so_iter :: "(u32 \<times> (i32 \<times> i32)) list \<Rightarrow> (u32 \<times> (i32 \<times> i32)) list"
  so_elapsed :: "nat \<Rightarrow> nat"
  so_finish :: "nat option"

definition session_env :: "session_os \<Rightarrow> session_config \<Rightarrow> monitor_info \<Rightarrow> loop_env" where
  "session_env os cfg m =
     \<lparr>le_api = so_api os, le_iter = so_iter os, le_coords = session_coords m,
      le_vscreen = vscreen (fst (so_screen os)) (snd (so_screen os)), le_elapsed = so_elapsed os,
      le_disable_touch = sc_disable_touch cfg\<rparr>"

definition screen_off_hello :: "session_config \<Rightarrow> monitor_info \<Rightarrow> out_stream \<Rightarrow> session_error + out_stream" where
  "screen_off_hello cfg m w =
     result_bind (protocol_try (write_frame w MSG_HELLO_PC (hello_pc_encode (hello_pc_for cfg m)))) (\<lambda>w.
       protocol_try (write_frame w MSG_CLIENT_CONFIG (client_config_encode (client_config_screen_off cfg))))"

definition session_injector :: "session_os \<Rightarrow> session_config \<Rightarrow> session_error + world" where
  "session_injector os cfg =
     (case so_injector os of
        Inl e \<Rightarrow> Inl (Engine e)
      | Inr vmulti \<Rightarrow>
          Inr (snd (set_pen_profile (so_api os) (sc_pen_profile cfg)
            (world_new (if vmulti then Some (replicate REPORT_BUF_LEN 0) else None)))))"

definition run_screen_off :: "session_os \<Rightarrow> session_config \<Rightarrow> (session_error + unit) \<times> session_event list \<times> loop_state option" where
  "run_screen_off os cfg =
     (case so_accept os of
        Inl e \<Rightarrow> (Inl (Session_Io e), [], None)
      | Inr (r, w) \<Rightarrow>
          (case read_hello r of
             Inl e \<Rightarrow> (Inl e, [Connecting], None)
           | Inr (android, r) \<Rightarrow>
               (case session_injector os cfg of
                  Inl e \<Rightarrow> (Inl e, [Connecting], None)
                | Inr iw \<Rightarrow>
                    let monitor = refreshed_monitor (so_monitors os) (sc_monitor cfg) in
                    (case screen_off_hello cfg monitor w of
                       Inl e \<Rightarrow> (Inl e, [Connecting], None)
                     | Inr w \<Rightarrow>
                         let s = \<lparr>ls_in = r, ls_world = iw, ls_out = w, ls_idr = 0, ls_readings = 0\<rparr>;
                             env = session_env os cfg monitor;
                             (res, s) = (case so_finish os of None \<Rightarrow> read_loop env s | Some n \<Rightarrow> read_loop_until n env s) in
                         (res, [Connecting, Connected (ha_display_width android) (ha_display_height android), final_event res],
                          Some (s\<lparr>ls_out := send_goodbye (ls_out s)\<rparr>))))))"

end
