(* ===== verification/SessionStats.thy ===== *)
theory SessionStats
  imports Session
begin

text \<open>
  The encode-time statistics of \<^verbatim>\<open>session.rs\<close>: the ring keeps the newest 256 samples, the
  average is the average, and the 99th percentile is a sample that at most one in a hundred exceeds.
  The index is computed with \<^verbatim>\<open>f64\<close>, whose rounding does not show for so few samples.
\<close>

lemma bits_over_le: "m < 2 ^ (p + e) \<Longrightarrow> bits_over p m \<le> e"
proof (induction e arbitrary: m)
  case 0
  then show ?case by (subst bits_over.simps) simp
next
  case (Suc e)
  then have "m div 2 < 2 ^ (p + e)" by (simp add: less_mult_imp_div_less mult.commute)
  then show ?case using Suc.IH [of "m div 2"] by (subst bits_over.simps) simp
qed

lemma round_even_53_near:
  assumes "m < 2 ^ 61"
  shows "m \<le> round_even_53 m + 128" "round_even_53 m \<le> m + 128"
proof -
  define s where "s = bits_over 53 m"
  have "s \<le> 8" unfolding s_def by (rule bits_over_le) (use assms in simp)
  then have p: "(2 :: nat) ^ s \<le> 256" using power_increasing [of s 8 "2 :: nat"] by simp
  have m: "m div 2 ^ s * 2 ^ s + m mod 2 ^ s = m" by (rule div_mult_mod_eq)
  have r: "m mod 2 ^ s < 2 ^ s" by simp
  have "round_even_53 m = (if 2 * (m mod 2 ^ s) > 2 ^ s \<or> 2 * (m mod 2 ^ s) = 2 ^ s \<and> odd (m div 2 ^ s)
      then m div 2 ^ s * 2 ^ s + 2 ^ s else m div 2 ^ s * 2 ^ s)"
    by (simp add: round_even_53_def Let_def s_def)
  then have "round_even_53 m = m div 2 ^ s * 2 ^ s + 2 ^ s \<and> 2 ^ s \<le> 2 * (m mod 2 ^ s) \<or>
      round_even_53 m = m div 2 ^ s * 2 ^ s \<and> 2 * (m mod 2 ^ s) \<le> 2 ^ s"
    by (auto split: if_splits)
  then have "m \<le> round_even_53 m + 128 \<and> round_even_53 m \<le> m + 128"
    using m r p by linarith
  then show "m \<le> round_even_53 m + 128" "round_even_53 m \<le> m + 128" by blast+
qed

lemma times_099_hundreds: "times_099 0 = 0" "times_099 100 = 99" "times_099 200 = 198"
  by (simp_all add: times_099_def round_even_53_def bits_over.simps Let_def)

lemma times_099_eq:
  assumes "n < 256"
  shows "times_099 n = 99 * n div 100"
proof (cases "99 * n mod 100 = 0")
  case True
  then have "100 dvd 99 * n" by (rule mod_0_imp_dvd)
  then have "100 dvd 100 * n - 99 * n" by (intro dvd_diff_nat) simp_all
  then have "100 dvd n" by simp
  then obtain k where "n = 100 * k" by blast
  then have "n = 0 \<or> n = 100 \<or> n = 200" using assms by auto
  then show ?thesis using times_099_hundreds by auto
next
  case False
  define a b where "a = 99 * n div 100" and "b = 99 * n mod 100"
  have ab: "100 * a + b = 99 * n" "1 \<le> b" "b \<le> 99" using False by (simp_all add: a_def b_def)
  define m where "m = n * 4458563631096791"
  have "100 * m + 4 * n = 99 * n * 2 ^ 52" by (simp add: m_def)
  then have m: "100 * m + 4 * n = 100 * a * 2 ^ 52 + b * 2 ^ 52" unfolding ab(1) [symmetric] by (simp add: algebra_simps)
  have "m < 2 ^ 61" using assms by (simp add: m_def)
  note r = round_even_53_near [OF this]
  have b: "2 ^ 52 \<le> b * 2 ^ 52" "b * 2 ^ 52 \<le> 99 * 2 ^ 52" using ab by simp_all
  have lo: "a * 2 ^ 52 \<le> round_even_53 m" using r m b assms by simp
  have hi: "round_even_53 m < a * 2 ^ 52 + 2 ^ 52" using r m b assms by simp
  have "round_even_53 m div 2 ^ 52 = a" using lo hi by (intro div_nat_eqI) (simp_all add: algebra_simps)
  then show ?thesis by (simp add: times_099_def m_def a_def)
qed

section \<open>The ring\<close>

lemma record_encode_us_ring:
  assumes "length (ss_encode_us_ring st) \<le> 256"
  shows "ss_encode_us_ring (record_encode_us us st) =
    drop (length (ss_encode_us_ring st @ [us]) - 256) (ss_encode_us_ring st @ [us])"
  using assms by (auto simp: record_encode_us_def ENCODE_RING_CAPACITY_def Let_def drop_Suc)

lemma record_all:
  assumes "length (ss_encode_us_ring st) \<le> 256"
  shows "ss_encode_us_ring (fold record_encode_us xs st) =
    drop (length (ss_encode_us_ring st @ xs) - 256) (ss_encode_us_ring st @ xs)"
  using assms
proof (induction xs arbitrary: st)
  case (Cons x xs)
  let ?r = "ss_encode_us_ring st" and ?st = "record_encode_us x st"
  have r: "ss_encode_us_ring ?st = drop (length (?r @ [x]) - 256) (?r @ [x])"
    by (rule record_encode_us_ring [OF Cons.prems])
  then have l: "length (ss_encode_us_ring ?st) \<le> 256" using Cons.prems by simp
  show ?case
  proof (cases "length ?r = 256")
    case True
    then obtain y ys where y: "?r = y # ys" by (cases ?r) auto
    have "length xs - 256 = length xs - 255 - 1" by simp
    then show ?thesis using Cons.IH [OF l] r True y by (cases "length xs - 255") simp_all
  next
    case False
    then show ?thesis using Cons.IH [OF l] r Cons.prems by simp
  qed
qed simp

section \<open>The summary\<close>

lemma unat_sum_list_ucast:
  "length xs * 2 ^ 32 < 2 ^ 64 \<Longrightarrow> unat (sum_list (map ucast (xs :: u32 list)) :: u64) = sum_list (map unat xs) \<and>
     sum_list (map unat xs) \<le> length xs * 2 ^ 32"
proof (induction xs)
  case (Cons x xs)
  have x: "unat x < 2 ^ 32" using unsigned_less [of x] by simp
  then have "unat x < 2 ^ 64" by simp
  then have ux: "unat (ucast x :: u64) = unat x" by (simp add: unsigned_ucast_eq take_bit_nat_eq_self del: power_numeral)
  from Cons have IH: "unat (sum_list (map ucast xs) :: u64) = sum_list (map unat xs)" "sum_list (map unat xs) \<le> length xs * 2 ^ 32"
    by simp_all
  have "unat (ucast x :: u64) + unat (sum_list (map ucast xs) :: u64) < 2 ^ LENGTH(64)"
    using Cons.prems x ux IH by simp
  then have "unat ((ucast x :: u64) + sum_list (map ucast xs)) = unat x + sum_list (map unat xs)"
    by (subst unat_add_lem [THEN iffD1]) (simp_all add: ux IH)
  then show ?case using x IH by simp
qed simp

lemma sum_list_le: "(\<And>x. x \<in> set xs \<Longrightarrow> f x \<le> (c :: nat)) \<Longrightarrow> sum_list (map f xs) \<le> length xs * c"
  by (induction xs) (auto intro: add_mono)

lemma sorted_above:
  fixes xs :: "'a :: linorder list"
  assumes "sorted xs" "i < length xs"
  shows "length (filter (\<lambda>v. xs ! i < v) xs) \<le> length xs - 1 - i"
proof -
  have "filter (\<lambda>v. xs ! i < v) (take (Suc i) xs) = []"
  proof (rule filter_False, rule ballI)
    fix v assume "v \<in> set (take (Suc i) xs)"
    then obtain j where "j < Suc i" "j < length xs" "v = xs ! j" by (auto simp: in_set_conv_nth)
    then show "\<not> xs ! i < v" using sorted_nth_mono [OF assms(1), of j i] assms(2) by auto
  qed
  then have "filter (\<lambda>v. xs ! i < v) xs = filter (\<lambda>v. xs ! i < v) (drop (Suc i) xs)"
    by (metis append_take_drop_id filter_append self_append_conv2)
  then show ?thesis using length_filter_le [of "\<lambda>v. xs ! i < v" "drop (Suc i) xs"] by simp
qed

lemma length_filter_sort: "length (filter P (sort xs)) = length (filter P xs)"
  by (simp add: filter_sort)

lemma percent_index: "99 * k div 100 < Suc k" "k - 99 * k div 100 \<le> (Suc k + 98) div 100"
proof -
  have a: "100 * (99 * k div 100) + 99 * k mod 100 = 99 * k" "99 * k mod 100 < 100" by simp_all
  have b: "100 * ((Suc k + 98) div 100) + (Suc k + 98) mod 100 = Suc k + 98" "(Suc k + 98) mod 100 < 100"
    by (rule mult_div_mod_eq) simp
  show "99 * k div 100 < Suc k" using a by linarith
  show "k - 99 * k div 100 \<le> (Suc k + 98) div 100" using a b by linarith
qed

lemma encode_us_summary_ok:
  assumes "ss_encode_us_ring st = ring" "ring \<noteq> []" "length ring \<le> 256"
  shows "unat (fst (encode_us_summary st)) = sum_list (map unat ring) div length ring"
    and "snd (encode_us_summary st) \<in> set ring"
    and "length (filter (\<lambda>v. snd (encode_us_summary st) < v) ring) \<le> (length ring + 98) div 100"
proof -
  let ?n = "length ring" and ?S = "sum_list (map unat ring)"
  have n: "0 < ?n" using assms(2) by simp
  have s: "unat (sum_list (map ucast ring) :: u64) = ?S" using unat_sum_list_ucast [of ring] assms(3) by simp
  have "unat (of_nat ?n :: u64) = ?n" using assms(3) by (simp add: unat_of_nat take_bit_nat_eq_self_iff)
  then have d: "unat ((sum_list (map ucast ring) :: u64) div of_nat ?n) = ?S div ?n" by (simp add: unat_div s)
  have "unat v < 2 ^ 32" for v :: u32 using unsigned_less [of v] by simp
  then have "unat v \<le> 2 ^ 32 - 1" for v :: u32 by (metis Suc_pred' less_Suc_eq_le pos2 zero_less_power)
  then have "?S \<le> ?n * (2 ^ 32 - 1)" by (intro sum_list_le)
  then have "?S < 2 ^ 32 * ?n" using n by (simp del: length_greater_0_conv)
  then have "?S div ?n < 2 ^ 32" by (simp add: less_mult_imp_div_less)
  then show "unat (fst (encode_us_summary st)) = ?S div ?n"
    using assms(1,2) d by (simp add: encode_us_summary_def Let_def unsigned_ucast_eq unsigned_take_bit_eq take_bit_nat_eq_self)
  have t: "times_099 (?n - 1) = 99 * (?n - 1) div 100" using assms(3) by (intro times_099_eq) simp
  define i where "i = 99 * (?n - 1) div 100"
  obtain k where k: "?n = Suc k" using n by (cases ?n) simp_all
  have i: "i < ?n" "?n - 1 - i \<le> (?n + 98) div 100"
    using percent_index [of k] by (simp_all add: i_def k del: div_mult_self1 div_mult_self2)
  have p: "snd (encode_us_summary st) = sort ring ! i"
    using assms(1,2) by (simp add: encode_us_summary_def Let_def t [simplified] i_def)
  show "snd (encode_us_summary st) \<in> set ring" using i(1) unfolding p by (metis length_sort nth_mem set_sort)
  have "length (filter (\<lambda>v. sort ring ! i < v) (sort ring)) \<le> ?n - 1 - i"
    using sorted_above [of "sort ring" i] i(1) by simp
  then show "length (filter (\<lambda>v. snd (encode_us_summary st) < v) ring) \<le> (?n + 98) div 100"
    using i(2) unfolding p length_filter_sort by linarith
qed

text \<open>From the first sample on: the statistics are those of the newest 256 samples.\<close>

lemma encode_us_summary_recorded:
  assumes "xs \<noteq> []"
  defines "ring \<equiv> drop (length xs - 256) xs" and "st \<equiv> fold record_encode_us xs session_stats_default"
  shows "unat (fst (encode_us_summary st)) = sum_list (map unat ring) div length ring \<and>
    snd (encode_us_summary st) \<in> set ring \<and>
    length (filter (\<lambda>v. snd (encode_us_summary st) < v) ring) \<le> (length ring + 98) div 100"
proof -
  have r: "ss_encode_us_ring st = ring"
    using record_all [of session_stats_default xs] by (simp add: st_def ring_def session_stats_default_def)
  have "ring \<noteq> []" "length ring \<le> 256" using assms(1) by (cases xs; simp add: ring_def)+
  from encode_us_summary_ok [OF r this] show ?thesis by blast
qed

end
