(* ===== verification/SessionProps.thy ===== *)
theory SessionProps
  imports SessionStats InjectProps InjectFrames
begin

text \<open>
  Properties of a session: what the read loop makes of a byte stream, whatever the client sends;
  what the client can read of what the pumps and the handshake write; the wait for the keyframe.
\<close>

section \<open>The read loop\<close>

text \<open>Framing does not show: the loop handles the messages of the stream one after the other and
  returns \<^verbatim>\<open>Ok\<close> at its end.\<close>

fun handle_all :: "loop_env \<Rightarrow> (u8 \<times> bytes) list \<Rightarrow> loop_state \<Rightarrow> (session_error + unit) \<times> loop_state" where
  "handle_all env [] s = (Inr (), s)"
| "handle_all env (m # ms) s =
     (case handle_message env m s of (Some res, s) \<Rightarrow> (res, s) | (None, s) \<Rightarrow> handle_all env ms s)"

lemma handle_message_set_in:
  "handle_message env m (s\<lparr>ls_in := r\<rparr>) =
     (fst (handle_message env m s), (snd (handle_message env m s))\<lparr>ls_in := r\<rparr>)"
  by (simp add: handle_message_def handle_pen_def handle_touch_def handle_time_sync_def Let_def split_def split: sum.split)

lemma read_frame_empty: "read_frame \<lparr>pending = [], at_end = e\<rparr> = Inl (Io e)"
  by (simp add: read_frame_def read_exact_def)

lemma read_loop_handles:
  assumes "\<forall>(i, p) \<in> set ms. length p \<le> MAX_PAYLOAD_LEN" "e = UnexpectedEof \<or> e = ConnectionReset"
  shows "\<exists>r. read_loop env (s\<lparr>ls_in := \<lparr>pending = encode_frames ms, at_end = e\<rparr>\<rparr>) =
    (fst (handle_all env ms s), (snd (handle_all env ms s))\<lparr>ls_in := r\<rparr>)"
  using assms(1)
proof (induction ms arbitrary: s)
  case Nil
  then show ?case using assms(2)
    by (auto simp: read_loop.simps encode_frames_def read_frame_empty end_of_stream_def)
next
  case (Cons m ms)
  obtain i p where m: "m = (i, p)" by (cases m)
  let ?rest = "\<lparr>pending = encode_frames ms, at_end = e\<rparr>"
  obtain res s1 where h: "handle_message env m s = (res, s1)" by (metis surj_pair)
  have rf: "read_frame \<lparr>pending = encode_frames (m # ms), at_end = e\<rparr> = Inr (m, ?rest)"
    using Cons.prems read_frame_encode_frame [of p i "encode_frames ms" e] by (simp add: m encode_frames_def)
  have hm: "handle_message env m (s\<lparr>ls_in := ?rest\<rparr>) = (res, s1\<lparr>ls_in := ?rest\<rparr>)"
    using handle_message_set_in [of env m ?rest s] h by simp
  show ?case
  proof (cases res)
    case None
    then show ?thesis using Cons.IH [of s1] Cons.prems h hm rf by (subst read_loop.simps) (simp add: read_loop.simps)
  next
    case (Some r)
    then show ?thesis using h hm rf by (subst read_loop.simps) auto
  qed
qed

text \<open>What the loop does to the injector, on any input: a run of commands, each the translation of a
  message.\<close>

definition session_command :: "bool \<Rightarrow> command \<Rightarrow> bool" where
  "session_command no_touch c = (case c of
     Sample s \<Rightarrow> (ps_in_contact s \<longrightarrow> ps_in_range s) \<and> ps_x_logical s \<le> 32767 \<and> ps_y_logical s \<le> 32767
   | Touch ts \<Rightarrow> no_touch \<longrightarrow> ts = []
   | Profile p \<Rightarrow> False)"

lemma pen_sample_of_ok: "session_command b (Sample (pen_sample_of env pe))"
  using map_to_vmulti_le [of "le_coords env" "f32_of_bits (pe_x_norm pe)" "f32_of_bits (pe_y_norm pe)"
      "fst (le_vscreen env)" "snd (le_vscreen env)"]
  by (auto simp: session_command_def pen_sample_of_def Let_def split: prod.split)

definition commands_from :: "loop_env \<Rightarrow> loop_state \<Rightarrow> loop_state \<Rightarrow> bool" where
  "commands_from env s s' \<longleftrightarrow> (\<exists>cs. ls_world s' = run_commands (le_api env) (le_iter env) cs (ls_world s) \<and>
     (\<forall>c \<in> set cs. session_command (le_disable_touch env) c))"

lemma commands_none: "ls_world s' = ls_world s \<Longrightarrow> commands_from env s s'"
  unfolding commands_from_def by (rule exI [of _ "[]"]) simp

lemma commands_one:
  "ls_world s' = run_command (le_api env) (le_iter env) c (ls_world s) \<Longrightarrow> session_command (le_disable_touch env) c \<Longrightarrow>
     commands_from env s s'"
  unfolding commands_from_def by (rule exI [of _ "[c]"]) simp

lemma handler_commands:
  "commands_from env s (snd (handle_pen env p s))" "commands_from env s (snd (handle_touch env p s))"
  "commands_from env s (snd (handle_time_sync env p s))"
proof -
  show "commands_from env s (snd (handle_pen env p s))"
  proof (cases "pen_event_decode p")
    case (Inr pe)
    then show ?thesis
      by (intro commands_one [where c = "Sample (pen_sample_of env pe)"]) (simp_all add: handle_pen_def run_command_def pen_sample_of_ok)
  qed (simp add: handle_pen_def commands_none)
  show "commands_from env s (snd (handle_touch env p s))"
  proof (cases "touch_event_decode p")
    case (Inr te)
    then show ?thesis
      by (intro commands_one [where c = "Touch (touch_snapshot env te)"])
        (simp_all add: handle_touch_def run_command_def session_command_def touch_snapshot_def)
  qed (simp add: handle_touch_def commands_none)
  show "commands_from env s (snd (handle_time_sync env p s))"
    by (rule commands_none) (simp add: handle_time_sync_def Let_def split: sum.split)
qed

lemma handle_message_from: "commands_from env s (snd (handle_message env m s))"
  by (cases m) (simp add: handle_message_def handler_commands commands_none)

lemma handle_message_commands:
  "\<exists>cs. ls_world (snd (handle_message env m s)) = run_commands (le_api env) (le_iter env) cs (ls_world s) \<and>
     (\<forall>c \<in> set cs. session_command (le_disable_touch env) c)"
  using handle_message_from [of env s m] unfolding commands_from_def .

lemma run_commands_trans:
  assumes "\<exists>cs. w1 = run_commands api iter cs w \<and> (\<forall>c \<in> set cs. P c)" "\<exists>cs. w2 = run_commands api iter cs w1 \<and> (\<forall>c \<in> set cs. P c)"
  shows "\<exists>cs. w2 = run_commands api iter cs w \<and> (\<forall>c \<in> set cs. P c)"
  using assms by (metis run_commands_append Un_iff set_append)

lemma read_loop_commands:
  "\<exists>cs. ls_world (snd (read_loop env s)) = run_commands (le_api env) (le_iter env) cs (ls_world s) \<and>
     (\<forall>c \<in> set cs. session_command (le_disable_touch env) c)"
proof (induction env s rule: read_loop.induct)
  case (1 env s)
  show ?case
  proof (cases "read_frame (ls_in s)")
    case (Inl e)
    then show ?thesis by (subst read_loop.simps) (auto intro: exI [of _ "[]"])
  next
    case (Inr mr)
    obtain m r where mr: "mr = (m, r)" by (cases mr)
    obtain res s1 where h: "handle_message env m (s\<lparr>ls_in := r\<rparr>) = (res, s1)" by (metis surj_pair)
    have one: "\<exists>cs. ls_world s1 = run_commands (le_api env) (le_iter env) cs (ls_world s) \<and>
        (\<forall>c \<in> set cs. session_command (le_disable_touch env) c)"
      using handle_message_commands [of env m "s\<lparr>ls_in := r\<rparr>"] h by simp
    show ?thesis
    proof (cases res)
      case None
      from "1.IH" [OF Inr mr [symmetric] h [symmetric] None] have "\<exists>cs. ls_world (snd (read_loop env s1)) =
          run_commands (le_api env) (le_iter env) cs (ls_world s1) \<and> (\<forall>c \<in> set cs. session_command (le_disable_touch env) c)" .
      from run_commands_trans [OF one this] show ?thesis
        using Inr mr h None by (simp add: read_loop.simps [of env s])
    next
      case (Some x)
      then show ?thesis using Inr mr h one by (simp add: read_loop.simps [of env s])
    qed
  qed
qed

text \<open>So every call of the operating system is well formed, whatever bytes arrive.\<close>

lemma read_loop_calls:
  assumes "calls_inv (ls_world s)"
  shows "calls_inv (ls_world (snd (read_loop env s)))"
proof -
  obtain cs where "ls_world (snd (read_loop env s)) = run_commands (le_api env) (le_iter env) cs (ls_world s)"
    using read_loop_commands [of env s] by blast
  then show ?thesis using run_commands_invariant [of cs calls_inv "le_api env" "le_iter env" "ls_world s"] assms
    by (simp add: calls_inv_command)
qed

lemma read_loop_until_world:
  "\<exists>cs. ls_world (snd (read_loop_until n env s)) = run_commands (le_api env) (le_iter env) cs (ls_world s)"
proof (induction n env s rule: read_loop_until.induct)
  case (1 env s)
  show ?case by (rule exI [of _ "[]"]) simp
next
  case (2 n env s)
  show ?case
  proof (cases "read_frame (ls_in s)")
    case (Inl e)
    then show ?thesis by (auto intro: exI [of _ "[]"])
  next
    case (Inr mr)
    obtain m r where mr: "mr = (m, r)" by (cases mr)
    obtain res s1 where h: "handle_message env m (s\<lparr>ls_in := r\<rparr>) = (res, s1)" by (metis surj_pair)
    obtain cs where cs: "ls_world s1 = run_commands (le_api env) (le_iter env) cs (ls_world s)"
      using handle_message_commands [of env m "s\<lparr>ls_in := r\<rparr>"] h by auto
    show ?thesis
    proof (cases res)
      case None
      from "2.IH" [OF Inr mr [symmetric] h [symmetric] None] obtain ds where
        "ls_world (snd (read_loop_until n env s1)) = run_commands (le_api env) (le_iter env) ds (ls_world s1)" by blast
      then show ?thesis using Inr mr h None cs by (auto intro: exI [of _ "cs @ ds"])
    next
      case (Some x)
      then show ?thesis using Inr mr h cs by auto
    qed
  qed
qed

lemma session_injector_calls:
  assumes "session_injector os cfg = Inr w"
  shows "calls_inv w"
proof -
  have "calls_inv (snd (set_pen_profile api p (world_new (if v then Some (replicate REPORT_BUF_LEN 0) else None))))" for api p v
    using calls_inv_command [of "world_new (if v then Some (replicate REPORT_BUF_LEN 0) else None)" api id "Profile p"]
      run_commands_calls_inv [of "if v then Some (replicate REPORT_BUF_LEN 0) else None" api id "[]"]
    by (simp add: run_command_def REPORT_BUF_LEN_def)
  then show ?thesis using assms by (auto simp: session_injector_def split: sum.splits)
qed

text \<open>A session without video, from the first byte to the last.\<close>

lemma run_screen_off_calls:
  assumes "run_screen_off os cfg = (res, evs, Some s)"
  shows "calls_inv (ls_world s)"
proof -
  from assms obtain w0 where w0: "session_injector os cfg = Inr w0"
    by (auto simp: run_screen_off_def split: sum.splits)
  from assms w0 obtain env s0 s1 where "ls_world s0 = w0" "ls_world s = ls_world s1"
      "s1 = snd (read_loop env s0) \<or> (\<exists>n. s1 = snd (read_loop_until n env s0))"
    by (auto simp: run_screen_off_def Let_def split: sum.splits option.splits prod.splits)
      (metis loop_state.select_convs(2) snd_conv)+
  then obtain api iter cs where "ls_world s = run_commands api iter cs w0"
    using read_loop_commands [of env s0] read_loop_until_world [of _ env s0] by metis
  then show ?thesis using run_commands_invariant [of cs calls_inv api iter w0] session_injector_calls [OF w0]
    by (simp add: calls_inv_command)
qed

end
