(* ===== verification/SessionStream.thy ===== *)
theory SessionStream
  imports Session
begin

text \<open>
  What the client reads: the frames that the pumps and the replies of the read loop write to the
  shared writer, and those of the handshake. Also the rate of the frame pump's IDR requests and the
  wait for the first keyframe.
\<close>

section \<open>The shared writer\<close>

text \<open>The message that an event writes.\<close>

definition pump_message :: "pump_op \<Rightarrow> pumps \<Rightarrow> u8 \<times> bytes" where
  "pump_message ev p = (case ev of
     Packet pkt t t' depth \<Rightarrow> (MSG_VIDEO_FRAME, video_frame_encode (video_frame_of pkt))
   | Second qs \<Rightarrow> (MSG_TELEMETRY, telemetry_encode (telemetry_of (pu_stats p) qs))
   | Reply resp \<Rightarrow> (MSG_TIME_SYNC_RESP, time_sync_resp_encode resp))"

fun pump_messages :: "nat option \<Rightarrow> int \<Rightarrow> pump_op list \<Rightarrow> pumps \<Rightarrow> (u8 \<times> bytes) list" where
  "pump_messages thr mi [] p = []"
| "pump_messages thr mi (ev # evs) p = pump_message ev p # pump_messages thr mi evs (pump_event thr mi ev p)"

definition flowing :: "pumps \<Rightarrow> bool" where
  "flowing p \<longleftrightarrow> broken (pu_out p) = None \<and> pu_frame_pump p \<and> pu_telemetry_pump p"

lemma pump_event_written:
  assumes "flowing p"
  shows "flowing (pump_event thr mi ev p) \<and>
    written (pu_out (pump_event thr mi ev p)) = written (pu_out p) @ encode_frames [pump_message ev p]"
  using assms
  by (cases ev) (simp_all add: flowing_def pump_event_def pump_message_def frame_pump_packet_def telemetry_tick_def
      write_frame_def write_all_def encode_frames_def Let_def)

lemma encode_frames_append: "encode_frames (xs @ ys) = encode_frames xs @ encode_frames ys"
  by (simp add: encode_frames_def)

lemma pump_events_written:
  "flowing p \<Longrightarrow> flowing (pump_events thr mi evs p) \<and>
    written (pu_out (pump_events thr mi evs p)) = written (pu_out p) @ encode_frames (pump_messages thr mi evs p)"
proof (induction evs arbitrary: p)
  case (Cons ev evs)
  let ?p = "pump_event thr mi ev p" and ?m = "pump_message ev p"
  have e: "pump_events thr mi (ev # evs) p = pump_events thr mi evs ?p" by (simp add: pump_events_def)
  have m: "pump_messages thr mi (ev # evs) p = [?m] @ pump_messages thr mi evs ?p" by simp
  have s: "flowing ?p" "written (pu_out ?p) = written (pu_out p) @ encode_frames [?m]"
    using pump_event_written [OF Cons.prems, of thr mi ev] by blast+
  show ?case unfolding e m encode_frames_append using Cons.IH [OF s(1)] s(2) by simp
qed (simp add: pump_events_def encode_frames_def)

definition packets_of :: "pump_op list \<Rightarrow> encoded_packet list" where
  "packets_of evs = concat (map (\<lambda>ev. case ev of Packet pkt _ _ _ \<Rightarrow> [pkt] | _ \<Rightarrow> []) evs)"

lemma packets_of_simps [simp]:
  "packets_of [] = []" "packets_of (Packet pkt t t' d # evs) = pkt # packets_of evs"
  "packets_of (Second qs # evs) = packets_of evs" "packets_of (Reply r # evs) = packets_of evs"
  by (simp_all add: packets_of_def)

definition payloads :: "u8 \<Rightarrow> (u8 \<times> bytes) list \<Rightarrow> bytes list" where
  "payloads i ms = map snd (filter (\<lambda>m. fst m = i) ms)"

lemma payloads_Cons: "payloads i (m # ms) = (if fst m = i then snd m # payloads i ms else payloads i ms)"
  by (simp add: payloads_def)

lemma pump_message_id:
  "fst (pump_message (Packet pkt t t' d) p) = MSG_VIDEO_FRAME" "fst (pump_message (Second qs) p) = MSG_TELEMETRY"
  "fst (pump_message (Reply r) p) = MSG_TIME_SYNC_RESP"
  by (simp_all add: pump_message_def)

lemma message_ids: "MSG_TELEMETRY \<noteq> MSG_VIDEO_FRAME" "MSG_TIME_SYNC_RESP \<noteq> MSG_VIDEO_FRAME"
  "MSG_VIDEO_FRAME \<noteq> MSG_TELEMETRY" "MSG_TIME_SYNC_RESP \<noteq> MSG_TELEMETRY"
  by (simp_all add: server_msg_defs)

text \<open>The client gets each packet, in order, with its bytes, time stamp, keyframe flag and encode
  time.\<close>

definition same_packet :: "encoded_packet \<Rightarrow> bytes \<Rightarrow> bool" where
  "same_packet pkt payload \<longleftrightarrow> (\<exists>vf. video_frame_decode payload = Inr vf \<and> vf_coded vf = ep_bytes pkt \<and>
     vf_pts_ns vf = ep_pts_ns pkt \<and> (vf_flags vf AND FRAME_FLAG_KEYFRAME \<noteq> 0) = ep_is_keyframe pkt \<and>
     vf_encode_us vf = ep_encode_us pkt)"

lemma flag_bits:
  "FRAME_FLAG_KEYFRAME AND FRAME_FLAG_KEYFRAME \<noteq> 0" "FRAME_FLAG_KEYFRAME AND FRAME_FLAG_EXTENDED = 0"
  "(FRAME_FLAG_KEYFRAME OR FRAME_FLAG_EXTENDED) AND FRAME_FLAG_KEYFRAME \<noteq> 0"
  "(FRAME_FLAG_KEYFRAME OR FRAME_FLAG_EXTENDED) AND FRAME_FLAG_EXTENDED \<noteq> 0"
  "FRAME_FLAG_EXTENDED AND FRAME_FLAG_KEYFRAME = 0" "FRAME_FLAG_EXTENDED AND FRAME_FLAG_EXTENDED \<noteq> 0"
  by (simp_all add: FRAME_FLAG_KEYFRAME_def FRAME_FLAG_EXTENDED_def)

lemma same_packet_video_frame: "same_packet pkt (video_frame_encode (video_frame_of pkt))"
  unfolding same_packet_def video_frame_decode_encode_norm
  by (cases "ep_encode_us pkt") (auto simp: video_frame_of_def video_frame_norm_def Let_def FRAME_FLAG_KEYFRAME_def
      FRAME_FLAG_EXTENDED_def unwrap_or_def)

lemma pumps_video:
  "list_all2 same_packet (packets_of evs) (payloads MSG_VIDEO_FRAME (pump_messages thr mi evs p))"
proof (induction evs arbitrary: p)
  case (Cons ev evs)
  then show ?case
    by (cases ev) (simp_all add: payloads_Cons pump_message_id message_ids, simp add: pump_message_def same_packet_video_frame)
qed (simp add: payloads_def)

text \<open>The telemetry counts every frame once, up to the wrap of its counter.\<close>

definition reported_frames :: "bytes \<Rightarrow> u32" where
  "reported_frames payload = from_be_bytes (take 4 payload)"

lemma reported_frames_telemetry: "reported_frames (telemetry_encode t) = tm_frames t"
  by (simp add: reported_frames_def telemetry_encode_def)

lemma record_encode_us_frames: "ss_frames (record_encode_us us st) = ss_frames st"
  by (simp add: record_encode_us_def Let_def)

lemma pump_event_frames:
  assumes "flowing p"
  shows "ss_frames (pu_stats (pump_event thr mi ev p)) =
    (case ev of Packet _ _ _ _ \<Rightarrow> ss_frames (pu_stats p) + 1 | Second _ \<Rightarrow> 0 | Reply _ \<Rightarrow> ss_frames (pu_stats p))"
  using assms
  by (cases ev) (simp_all add: flowing_def pump_event_def frame_pump_packet_def telemetry_tick_def write_frame_def
      write_all_def Let_def record_encode_us_frames split: option.split)

lemma pumps_telemetry:
  assumes "flowing p"
  shows "sum_list (map reported_frames (payloads MSG_TELEMETRY (pump_messages thr mi evs p))) +
    ss_frames (pu_stats (pump_events thr mi evs p)) = ss_frames (pu_stats p) + of_nat (length (packets_of evs))"
  using assms
proof (induction evs arbitrary: p)
  case (Cons ev evs)
  let ?p = "pump_event thr mi ev p"
  have f: "flowing ?p" using pump_event_written [OF Cons.prems] by blast
  have e: "pump_events thr mi (ev # evs) p = pump_events thr mi evs ?p" by (simp add: pump_events_def)
  have tm: "reported_frames (snd (pump_message (Second qs) p)) = ss_frames (pu_stats p)" for qs
    by (simp add: pump_message_def reported_frames_telemetry telemetry_of_def split_def Let_def)
  from Cons.IH [OF f] pump_event_frames [OF Cons.prems, of thr mi ev]
  show ?case unfolding e by (cases ev) (simp_all add: payloads_Cons pump_message_id message_ids tm add.commute add.left_commute)
qed (simp add: pump_events_def payloads_def)

text \<open>Everything is written in whole frames, so the client can take the stream apart.\<close>

lemma time_sync_resp_small: "length (time_sync_resp_encode r) \<le> MAX_PAYLOAD_LEN"
  by (simp add: size_simps size_defs MAX_PAYLOAD_LEN_def)

lemma telemetry_small: "length (telemetry_encode r) \<le> MAX_PAYLOAD_LEN"
  by (simp add: size_simps size_defs MAX_PAYLOAD_LEN_def)

lemma video_frame_small: "length (vf_coded vf) + 17 \<le> MAX_PAYLOAD_LEN \<Longrightarrow> length (video_frame_encode vf) \<le> MAX_PAYLOAD_LEN"
  by (simp add: video_frame_encode_def Let_def)

lemma pump_messages_small:
  "\<forall>pkt \<in> set (packets_of evs). length (ep_bytes pkt) + 17 \<le> MAX_PAYLOAD_LEN \<Longrightarrow>
     \<forall>(i, p) \<in> set (pump_messages thr mi evs q). length p \<le> MAX_PAYLOAD_LEN"
proof (induction evs arbitrary: q)
  case (Cons ev evs)
  have "length (snd (pump_message ev q)) \<le> MAX_PAYLOAD_LEN"
    using Cons.prems video_frame_small [of "video_frame_of _"]
    by (cases ev) (simp_all add: pump_message_def time_sync_resp_small telemetry_small video_frame_of_def Let_def)
  moreover have "\<forall>pkt \<in> set (packets_of evs). length (ep_bytes pkt) + 17 \<le> MAX_PAYLOAD_LEN"
    using Cons.prems by (cases ev) auto
  ultimately show ?case using Cons.IH [of "pump_event thr mi ev q"] by (auto simp: split_def)
qed simp

lemma pumps_deliver:
  assumes "flowing p" "written (pu_out p) = []"
    "\<forall>pkt \<in> set (packets_of evs). length (ep_bytes pkt) + 17 \<le> MAX_PAYLOAD_LEN"
  shows "\<exists>ms. read_frames (length evs) \<lparr>pending = written (pu_out (pump_events thr mi evs p)), at_end = e\<rparr> =
      Inr (ms, \<lparr>pending = [], at_end = e\<rparr>) \<and>
    list_all2 same_packet (packets_of evs) (payloads MSG_VIDEO_FRAME ms) \<and>
    sum_list (map reported_frames (payloads MSG_TELEMETRY ms)) + ss_frames (pu_stats (pump_events thr mi evs p)) =
      ss_frames (pu_stats p) + of_nat (length (packets_of evs))"
proof -
  let ?ms = "pump_messages thr mi evs p"
  have l: "length (pump_messages thr mi evs q) = length evs" for q by (induction evs arbitrary: q) simp_all
  have "read_frames (length ?ms) \<lparr>pending = encode_frames ?ms @ [], at_end = e\<rparr> = Inr (?ms, \<lparr>pending = [], at_end = e\<rparr>)"
    by (rule read_frames_encode_frames) (rule pump_messages_small [OF assms(3)])
  then show ?thesis using pump_events_written [OF assms(1), of thr mi evs] assms(2) pumps_video [of evs thr mi p]
      pumps_telemetry [OF assms(1), of thr mi evs] by (intro exI [of _ ?ms]) (simp add: l)
qed

section \<open>Motion-triggered IDR requests\<close>

fun spaced :: "int \<Rightarrow> int list \<Rightarrow> bool" where
  "spaced d (x # y # zs) \<longleftrightarrow> x + d \<le> y \<and> spaced d (y # zs)"
| "spaced d _ \<longleftrightarrow> True"

lemma spaced_snoc: "spaced d xs \<Longrightarrow> (xs \<noteq> [] \<Longrightarrow> last xs + d \<le> x) \<Longrightarrow> spaced d (xs @ [x])"
  by (induction d xs rule: spaced.induct) auto

definition motion_inv :: "int \<Rightarrow> pumps \<Rightarrow> bool" where
  "motion_inv d p \<longleftrightarrow> spaced d (pu_idr p) \<and> (pu_idr p \<noteq> [] \<longrightarrow> last (pu_idr p) \<le> pu_last_motion_idr p)"

fun clock_ok :: "pump_op \<Rightarrow> bool" where
  "clock_ok (Packet pkt t t' depth) \<longleftrightarrow> t \<le> t'"
| "clock_ok _ \<longleftrightarrow> True"

lemma motion_inv_event: "motion_inv d p \<Longrightarrow> clock_ok ev \<Longrightarrow> motion_inv d (pump_event thr d ev p)"
proof (cases ev)
  case (Packet pkt t t' depth)
  assume i: "motion_inv d p" and c: "clock_ok ev"
  have "spaced d (pu_idr p @ [t])" if "d \<le> t - pu_last_motion_idr p"
    using i that by (intro spaced_snoc) (auto simp: motion_inv_def)
  then show ?thesis using i c Packet
    by (auto simp: pump_event_def frame_pump_packet_def motion_inv_def motion_idr_due_def Let_def split: sum.split option.splits)
qed (auto simp: motion_inv_def pump_event_def telemetry_tick_def Let_def split: sum.split)

lemma motion_spaced:
  "\<forall>ev \<in> set evs. clock_ok ev \<Longrightarrow> motion_inv d p \<Longrightarrow> motion_inv d (pump_events thr d evs p)"
  unfolding pump_events_def by (induction evs arbitrary: p) (simp_all add: motion_inv_event)

lemma motion_inv_start: "motion_inv d (pumps_start now d out)"
  by (simp add: motion_inv_def pumps_start_def)

section \<open>Handshake\<close>

lemma write_frame_ok: "broken w = None \<Longrightarrow> write_frame w i p = Inr (w\<lparr>written := written w @ encode_frames [(i, p)]\<rparr>)"
  by (simp add: write_frame_def write_all_def encode_frames_def)

definition first_video_frame :: "encoded_packet \<Rightarrow> video_frame" where
  "first_video_frame pkt = \<lparr>vf_pts_ns = ep_pts_ns pkt, vf_flags = FRAME_FLAG_KEYFRAME, vf_capture_us = None,
     vf_encode_us = None, vf_coded = ep_bytes pkt\<rparr>"

definition handshake_messages :: "session_config \<Rightarrow> monitor_info \<Rightarrow> encoded_packet \<Rightarrow> (u8 \<times> bytes) list" where
  "handshake_messages cfg m pkt =
     [(MSG_HELLO_PC, hello_pc_encode (hello_pc_for cfg m)),
      (MSG_CLIENT_CONFIG, client_config_encode (client_config_for cfg)),
      (MSG_VIDEO_CONFIG, parameter_sets (sc_codec cfg) (ep_bytes pkt)),
      (MSG_VIDEO_FRAME, video_frame_encode (first_video_frame pkt))]"

lemma send_handshake_ok:
  assumes "broken w = None" "parameter_sets (sc_codec cfg) (ep_bytes pkt) \<noteq> []"
  shows "send_handshake cfg m pkt w = Inr (w\<lparr>written := written w @ encode_frames (handshake_messages cfg m pkt)\<rparr>)"
  using assms by (simp add: send_handshake_def write_frame_ok protocol_try_def handshake_messages_def
      encode_frames_def first_video_frame_def Let_def)

lemma client_config_hud:
  "hud_enabled (client_config_for cfg) = sc_hud_enabled cfg" "\<not> screen_off (client_config_for cfg)"
  "hud_enabled (client_config_screen_off cfg) = sc_hud_enabled cfg" "screen_off (client_config_screen_off cfg)"
  by (simp_all add: client_config_for_def client_config_screen_off_def hud_enabled_def screen_off_def Let_def
      CLIENT_CFG_FLAG_HUD_def CLIENT_CFG_FLAG_SCREEN_OFF_def)

lemma hello_pc_size:
  "uint (hp_width (hello_pc_for cfg m)) = min (uint (mi_width m)) 65535"
  "uint (hp_height (hello_pc_for cfg m)) = min (uint (mi_height m)) 65535"
proof -
  have "uint (ucast (min w 65535 :: u32) :: u16) = min (uint w) 65535" for w
  proof -
    have u: "uint (min w 65535 :: u32) = min (uint w) 65535" by (simp add: min_def word_le_def)
    then have "uint (min w 65535 :: u32) < 2 ^ 16" by simp
    then show ?thesis unfolding u [symmetric] by (simp add: unsigned_ucast_eq take_bit_int_eq_self del: power_numeral)
  qed
  then show "uint (hp_width (hello_pc_for cfg m)) = min (uint (mi_width m)) 65535"
    "uint (hp_height (hello_pc_for cfg m)) = min (uint (mi_height m)) 65535"
    by (simp_all add: hello_pc_for_def)
qed

lemma handshake_delivered:
  assumes "broken w = None" "written w = []" "parameter_sets (sc_codec cfg) (ep_bytes pkt) \<noteq> []"
    "length (parameter_sets (sc_codec cfg) (ep_bytes pkt)) \<le> MAX_PAYLOAD_LEN" "length (ep_bytes pkt) + 17 \<le> MAX_PAYLOAD_LEN"
  shows "\<exists>w' h c v vf. send_handshake cfg m pkt w = Inr w' \<and>
    read_frames 4 \<lparr>pending = written w', at_end = e\<rparr> =
      Inr ([(MSG_HELLO_PC, h), (MSG_CLIENT_CONFIG, c), (MSG_VIDEO_CONFIG, parameter_sets (sc_codec cfg) (ep_bytes pkt)),
        (MSG_VIDEO_FRAME, v)], \<lparr>pending = [], at_end = e\<rparr>) \<and>
    hello_pc_decode h = Inr (hello_pc_for cfg m) \<and> client_config_decode c = Inr (client_config_for cfg) \<and>
    video_frame_decode v = Inr vf \<and> vf_coded vf = ep_bytes pkt \<and> vf_flags vf = FRAME_FLAG_KEYFRAME"
proof -
  let ?ms = "handshake_messages cfg m pkt"
  have "\<forall>(i, p) \<in> set ?ms. length p \<le> MAX_PAYLOAD_LEN"
    using assms(4,5) video_frame_small [of "first_video_frame pkt"]
    by (simp add: handshake_messages_def size_simps size_defs MAX_PAYLOAD_LEN_def client_config_encode_def first_video_frame_def)
  from read_frames_encode_frames [OF this, of "[]" e]
  moreover have "length ?ms = 4" by (simp add: handshake_messages_def)
  ultimately have r: "read_frames 4 \<lparr>pending = encode_frames ?ms, at_end = e\<rparr> = Inr (?ms, \<lparr>pending = [], at_end = e\<rparr>)"
    by (simp only: append_Nil2)
  have v: "video_frame_decode (video_frame_encode (first_video_frame pkt)) = Inr (first_video_frame pkt)"
    unfolding video_frame_decode_encode_norm
    by (simp add: first_video_frame_def video_frame_norm_def flag_bits)
  have c: "client_config_decode (client_config_encode (client_config_for cfg)) = Inr (client_config_for cfg)"
    using client_config_decode_encode [of "client_config_for cfg" "[]"] by simp
  show ?thesis
    using send_handshake_ok [OF assms(1,3), of m] r assms(2) v
    by (simp add: handshake_messages_def c hello_pc_decode_encode first_video_frame_def)
qed

section \<open>The first keyframe\<close>

text \<open>The wait ends when the clock reaches the deadline, and what it returns is a keyframe.\<close>

lemma wait_for_keyframe_ends:
  "\<exists>turn \<in> set turns. deadline \<le> fst turn \<Longrightarrow> fst (wait_for_keyframe api timeout deadline turns r) \<noteq> None"
proof (induction api timeout deadline turns r rule: wait_for_keyframe.induct)
  case (2 api timeout deadline now evs turns r)
  obtain x r' where t: "take_packet (pipe_events api evs r) = (x, r')" by (metis surj_pair)
  show ?case
  proof (cases "now < deadline")
    case True
    then have "\<exists>turn \<in> set turns. deadline \<le> fst turn" using "2.prems" by auto
    then show ?thesis using "2.IH"(1) [OF True t [symmetric]] "2.IH"(2) [OF True t [symmetric]] True t
      by (cases x) simp_all
  qed simp
qed simp

lemma wait_for_keyframe_result:
  "wait_for_keyframe api timeout deadline turns r = (Some res, r') \<Longrightarrow>
     (\<exists>p. res = Inr p \<and> ep_is_keyframe p) \<or> res = Inl (NoKeyframe timeout)"
proof (induction api timeout deadline turns r rule: wait_for_keyframe.induct)
  case (2 api timeout deadline now evs turns r)
  obtain x r1 where t: "take_packet (pipe_events api evs r) = (x, r1)" by (metis surj_pair)
  show ?case
  proof (cases "now < deadline")
    case True
    then show ?thesis using "2.IH"(1) [OF True t [symmetric]] "2.IH"(2) [OF True t [symmetric]] "2.prems" t
      by (cases x) (auto split: if_splits)
  qed (use "2.prems" in simp)
qed simp

lemma wait_for_keyframe_returns:
  assumes "\<exists>turn \<in> set turns. deadline \<le> fst turn"
  shows "\<exists>res r'. wait_for_keyframe api timeout deadline turns r = (Some res, r') \<and>
    ((\<exists>p. res = Inr p \<and> ep_is_keyframe p) \<or> res = Inl (NoKeyframe timeout))"
  using wait_for_keyframe_ends [OF assms, of api timeout r] wait_for_keyframe_result [of api timeout deadline turns r]
  by (metis option.exhaust prod.collapse)

lemma take_packet_order:
  assumes "in_order D (pr_pipe r)"
  shows "take_packet r = (Some x, r') \<Longrightarrow> in_order (D @ [x]) (pr_pipe r') \<and> in_order D (pr_pipe r')"
    and "take_packet r = (None, r') \<Longrightarrow> r' = r"
proof -
  obtain y q where p: "try_pop (pl_queue (pr_pipe r)) = (y, q)" by (metis surj_pair)
  then have t: "take_packet r = (y, r\<lparr>pr_pipe := (pr_pipe r)\<lparr>pl_queue := q\<rparr>\<rparr>)" by (simp add: take_packet_def)
  show "in_order (D @ [x]) (pr_pipe r') \<and> in_order D (pr_pipe r')" if "take_packet r = (Some x, r')"
    using that t p in_order_pop [OF _ assms, of x q] by auto
  show "r' = r" if "take_packet r = (None, r')"
    using that t p try_pop_None [of "pl_queue (pr_pipe r)" q] by auto
qed

text \<open>What it returns is a keyframe of the encoder, and what stays in the queue came after it.\<close>

definition quiet_turns :: "(nat \<times> pipe_op list) list \<Rightarrow> bool" where
  "quiet_turns turns \<longleftrightarrow> (\<forall>turn \<in> set turns. Take \<notin> set (snd turn))"

lemma wait_for_keyframe_Inr:
  "wait_for_keyframe api timeout deadline turns r = (Some (Inr p), r') \<Longrightarrow> quiet_turns turns \<Longrightarrow>
     in_order [] (pr_pipe r) \<Longrightarrow> ep_is_keyframe p \<and> in_order [p] (pr_pipe r')"
proof (induction api timeout deadline turns r rule: wait_for_keyframe.induct)
  case (2 api timeout deadline now evs turns r)
  let ?r = "pipe_events api evs r"
  have now: "now < deadline" using "2.prems" by (auto split: if_splits)
  have q: "quiet_turns turns" and o: "in_order [] (pr_pipe ?r)"
    using "2.prems" by (simp_all add: quiet_turns_def in_order_events)
  obtain x r1 where t: "take_packet ?r = (x, r1)" by (metis surj_pair)
  note tp = take_packet_order [OF o]
  show ?case
  proof (cases x)
    case None
    then show ?thesis using "2.IH"(1) [OF now t [symmetric] None _ q] "2.prems" now t tp(2) o by auto
  next
    case (Some y)
    note d = tp(1) [OF t [unfolded Some]]
    show ?thesis
    proof (cases "ep_is_keyframe y")
      case True
      then show ?thesis using "2.prems" now t Some d by auto
    next
      case False
      then show ?thesis using "2.IH"(2) [OF now t [symmetric] Some False _ q] "2.prems" now t Some d by auto
    qed
  qed
qed simp

end
