(* ===== verification/SessionRun.thy ===== *)
theory SessionRun
  imports SessionProps SessionStream
begin

text \<open>
  A whole session with video, \<^verbatim>\<open>Session::run\<close> of \<^verbatim>\<open>crates/penflow-server/src/session.rs\<close>: the
  connection and its greeting, the virtual monitor, the engine, the injector, the first keyframe and
  the handshake, then the tasks that run beside each other (read loop, frame pump, telemetry pump,
  periodic IDR, encoder thread, the loop that waits for them) in any interleaving, and the end.

  An event of the running session is a stretch of one task between two points where the scheduler may
  switch: the read loop handles one message, the frame pump one packet, and so on. A write to the
  socket is not split; the abort of the read loop by a \<^verbatim>\<open>finish\<close> signal falls between two messages.
\<close>

section \<open>Getting ready\<close>

text \<open>Beside \<open>session_os\<close>: the device manager, the outcome of \<^verbatim>\<open>spawn_resident_helper\<close> and of
  \<^verbatim>\<open>shutdown\<close> (modelled in \<open>VddResident\<close>), the high-performance adapter, the engine's environment,
  the clock when the wait for the keyframe starts and its turns: the clock, and how often the encoder
  thread loops before the pop returns.\<close>

record run_os =
  ro_os :: session_os
  ro_pnp :: pnp_api
  ro_spawn :: "unit vdd_op"
  ro_shutdown :: "pnp_world \<Rightarrow> shutdown_outcome \<times> pnp_world"
  ro_high_perf :: "hresult + unit"
  ro_engine :: engine_api
  ro_pipe :: pipe_api
  ro_session_start :: nat
  ro_wait_start :: nat
  ro_turns :: "(nat \<times> nat) list"
  ro_pump_start :: int

definition pipe_env :: "run_os \<Rightarrow> pipe_api" where
  "pipe_env os = (ro_pipe os)\<lparr>pa_dda := ea_dda (ro_engine os)\<rparr>"

text \<open>The resolution of the virtual monitor is forced when it is not the one asked for; failures leave
  the monitor as it was.\<close>

definition force_resolution :: "run_os \<Rightarrow> session_config \<Rightarrow> string \<Rightarrow> string list \<Rightarrow> monitor_info \<Rightarrow> pnp_world \<Rightarrow>
    monitor_info \<times> pnp_world" where
  "force_resolution os cfg instance_id baseline virt w =
     (case sc_vdd_target_resolution cfg of
        None \<Rightarrow> (virt, w)
      | Some (target_w, target_h) \<Rightarrow>
          if mi_width virt \<noteq> target_w \<or> mi_height virt \<noteq> target_h then
            (case force_monitor_mode (ro_pnp os) (mi_device_name virt) target_w target_h (sc_fps cfg) w of
               (Inl _, w) \<Rightarrow> (virt, w)
             | (Inr _, w) \<Rightarrow>
                 (case wait_for_virtual_monitor (ro_pnp os) 3000 (Some instance_id) (Some baseline) w of
                    (Inl _, w) \<Rightarrow> (virt, w)
                  | (Inr refreshed, w) \<Rightarrow> (refreshed, w)))
          else (virt, w))"

definition high_perf_adapter :: "run_os \<Rightarrow> session_error + unit" where
  "high_perf_adapter os =
     (case create_dxgi_factory (ro_engine os) of
        Inl e \<Rightarrow> Inl (Engine e)
      | Inr _ \<Rightarrow> (case ro_high_perf os of Inl _ \<Rightarrow> Inl (Session_Io (OtherIo '''')) | Inr _ \<Rightarrow> Inr ()))"

text \<open>The monitor to capture, and the controller afterwards, which lives as long as the session.\<close>

definition acquire_monitor :: "run_os \<Rightarrow> session_config \<Rightarrow> pnp_world \<Rightarrow>
    (session_error + monitor_info) \<times> vdd_controller option \<times> pnp_world" where
  "acquire_monitor os cfg w =
     (case sc_vdd cfg of
        None \<Rightarrow> (Inr (sc_monitor cfg), None, w)
      | Some vdd \<Rightarrow>
          (case snapshot_attached_monitor_keys (ro_pnp os) w of
             (Inl e, w) \<Rightarrow> (Inl (Vdd_Failed e), Some vdd, w)
           | (Inr baseline, w) \<Rightarrow>
               (case vdd_enable (ro_spawn os) (ro_pnp os) vdd w of
                  (Inl e, w) \<Rightarrow> (Inl (Vdd_Failed e), Some vdd, w)
                | (Inr vdd, w) \<Rightarrow>
                    (case wait_for_virtual_monitor (ro_pnp os) 15000 (Some (vc_instance_id vdd)) (Some baseline) w of
                       (Inl e, w) \<Rightarrow> (Inl (Vdd_Failed e), Some vdd, w)
                     | (Inr virt, w) \<Rightarrow>
                         let (virt, w) = force_resolution os cfg (vc_instance_id vdd) baseline virt w in
                         (case high_perf_adapter os of
                            Inl e \<Rightarrow> (Inl e, Some vdd, w)
                          | Inr _ \<Rightarrow> (Inr virt, Some vdd, call (ro_pnp os) (Sleep 500) w))))))"

definition session_builder :: "run_os \<Rightarrow> session_config \<Rightarrow> monitor_info \<Rightarrow> engine_builder" where
  "session_builder os cfg m =
     with_pts_epoch (ro_session_start os) (with_fps (sc_fps cfg) (with_bitrate_bps (sc_bitrate_bps cfg)
       (with_codec (sc_codec cfg) (builder m))))"

section \<open>The running session\<close>

text \<open>The writer is shared: it is \<open>pu_out\<close>, and the read loop works on it while it handles a message.
  \<open>lv_periodic\<close> counts the requests of the periodic task and \<open>lv_received\<close> those that the waiting
  loop has taken from the channel; \<open>lv_result\<close> is what that loop ended with.\<close>

record live =
  lv_loop :: loop_state
  lv_pumps :: pumps
  lv_pipe :: pipe_run
  lv_periodic :: nat
  lv_received :: nat
  lv_result :: "(session_error + unit) option"

definition idr_sent :: "live \<Rightarrow> nat" where
  "idr_sent lv = ls_idr (lv_loop lv) + length (pu_idr (lv_pumps lv)) + lv_periodic lv"

datatype live_op =
    Read
  | Frame int int
  | Second_Passed
  | Period
  | Receive
  | Encode
  | Finish

definition motion_interval :: "session_config \<Rightarrow> int" where
  "motion_interval cfg = int (sc_motion_idr_min_interval cfg) * 1000000"

definition live_read :: "loop_env \<Rightarrow> live \<Rightarrow> live" where
  "live_read env lv =
     (let s = (lv_loop lv)\<lparr>ls_out := pu_out (lv_pumps lv)\<rparr> in
      case read_frame (ls_in s) of
        Inl e \<Rightarrow> lv\<lparr>lv_result := Some (end_of_stream e)\<rparr>
      | Inr (m, r) \<Rightarrow>
          let (res, s) = handle_message env m (s\<lparr>ls_in := r\<rparr>) in
          lv\<lparr>lv_loop := s, lv_pumps := (lv_pumps lv)\<lparr>pu_out := ls_out s\<rparr>, lv_result := res\<rparr>)"

definition live_frame :: "session_config \<Rightarrow> int \<Rightarrow> int \<Rightarrow> live \<Rightarrow> live" where
  "live_frame cfg t t' lv =
     (if pu_frame_pump (lv_pumps lv) then
        (case take_packet (lv_pipe lv) of
           (None, r) \<Rightarrow> lv\<lparr>lv_pipe := r\<rparr>
         | (Some pkt, r) \<Rightarrow>
             lv\<lparr>lv_pipe := r,
               lv_pumps := frame_pump_packet (sc_motion_idr_threshold_bytes cfg) (motion_interval cfg) pkt t t'
                 (qs_depth (stats (pl_queue (pr_pipe r)))) (lv_pumps lv)\<rparr>)
      else lv)"

definition live_event :: "run_os \<Rightarrow> session_config \<Rightarrow> loop_env \<Rightarrow> live_op \<Rightarrow> live \<Rightarrow> live" where
  "live_event os cfg env op lv =
     (if lv_result lv \<noteq> None then lv
      else case op of
          Read \<Rightarrow> live_read env lv
        | Frame t t' \<Rightarrow> live_frame cfg t t' lv
        | Second_Passed \<Rightarrow>
            if pu_telemetry_pump (lv_pumps lv)
            then lv\<lparr>lv_pumps := telemetry_tick (stats (pl_queue (pr_pipe (lv_pipe lv)))) (lv_pumps lv)\<rparr> else lv
        | Period \<Rightarrow>
            (case sc_idr_interval cfg of
               Some p \<Rightarrow> if p \<noteq> 0 then lv\<lparr>lv_periodic := lv_periodic lv + 1\<rparr> else lv
             | None \<Rightarrow> lv)
        | Receive \<Rightarrow>
            if lv_received lv < idr_sent lv
            then lv\<lparr>lv_received := lv_received lv + 1, lv_pipe := pipe_event (pipe_env os) Request (lv_pipe lv)\<rparr> else lv
        | Encode \<Rightarrow> lv\<lparr>lv_pipe := pipe_event (pipe_env os) Turn (lv_pipe lv)\<rparr>
        | Finish \<Rightarrow> lv\<lparr>lv_result := Some (Inr ())\<rparr>)"

definition live_events :: "run_os \<Rightarrow> session_config \<Rightarrow> loop_env \<Rightarrow> live_op list \<Rightarrow> live \<Rightarrow> live" where
  "live_events os cfg env ops lv = fold (live_event os cfg env) ops lv"

text \<open>The end, once the loop has a result: the goodbye, then the engine stops.\<close>

definition live_end :: "run_os \<Rightarrow> live \<Rightarrow> live" where
  "live_end os lv =
     lv\<lparr>lv_pumps := (lv_pumps lv)\<lparr>pu_out := send_goodbye (pu_out (lv_pumps lv))\<rparr>,
       lv_pipe := pipe_event (pipe_env os) Stop (lv_pipe lv)\<rparr>"

section \<open>From the connection to the first frame\<close>

definition keyframe_turns :: "run_os \<Rightarrow> (nat \<times> pipe_op list) list" where
  "keyframe_turns os = map (\<lambda>(now, n). (now, replicate n Turn)) (ro_turns os)"

text \<open>The result is \<open>None\<close> while the session waits for the keyframe; the read loop's environment is
  returned with the state.\<close>

definition run_engine :: "run_os \<Rightarrow> session_config \<Rightarrow> monitor_info \<Rightarrow> in_stream \<Rightarrow> out_stream \<Rightarrow>
    (session_error + (loop_env \<times> live)) option" where
  "run_engine os cfg capture_monitor r w =
     (case engine_start (ro_engine os) (session_builder os cfg capture_monitor) of
        Inl e \<Rightarrow> Some (Inl (Engine e))
      | Inr engine \<Rightarrow>
          (case session_injector (ro_os os) cfg of
             Inl e \<Rightarrow> Some (Inl e)
           | Inr iw \<Rightarrow>
               (case wait_for_keyframe (pipe_env os) 5000 (ro_wait_start os + 5000) (keyframe_turns os)
                    (pipe_started (the (en_pipeline engine))) of
                  (None, _) \<Rightarrow> None
                | (Some (Inl e), _) \<Rightarrow> Some (Inl e)
                | (Some (Inr first_pkt), pipe) \<Rightarrow>
                    (case send_handshake cfg (en_monitor engine) first_pkt w of
                       Inl e \<Rightarrow> Some (Inl e)
                     | Inr w \<Rightarrow> Some (Inr (session_env (ro_os os) cfg (en_monitor engine),
                         \<lparr>lv_loop = \<lparr>ls_in = r, ls_world = iw, ls_out = w, ls_idr = 0, ls_readings = 0\<rparr>,
                          lv_pumps = pumps_start (ro_pump_start os) (motion_interval cfg) w, lv_pipe = pipe,
                          lv_periodic = 0, lv_received = 0, lv_result = None\<rparr>))))))"

definition run_setup :: "run_os \<Rightarrow> session_config \<Rightarrow> pnp_world \<Rightarrow>
    (session_error + (loop_env \<times> live)) option \<times> session_event list \<times> vdd_controller option \<times> pnp_world" where
  "run_setup os cfg w =
     (case so_accept (ro_os os) of
        Inl e \<Rightarrow> (Some (Inl (Session_Io e)), [], sc_vdd cfg, w)
      | Inr (r, out) \<Rightarrow>
          (case read_hello r of
             Inl e \<Rightarrow> (Some (Inl e), [Connecting], sc_vdd cfg, w)
           | Inr (android, r) \<Rightarrow>
               (case acquire_monitor os cfg w of
                  (Inl e, vdd, w) \<Rightarrow> (Some (Inl e), [Connecting], vdd, w)
                | (Inr capture_monitor, vdd, w) \<Rightarrow>
                    let res = run_engine os cfg capture_monitor r out in
                    (res, [Connecting] @ (case res of
                       Some (Inr _) \<Rightarrow> [Connected (ha_display_width android) (ha_display_height android)] | _ \<Rightarrow> []), vdd, w))))"

text \<open>The whole session: what it returns, its events, its final state, and the device manager after the
  controller is dropped with the session. \<open>None\<close> when the given events do not bring it to its end.\<close>

definition session_run :: "run_os \<Rightarrow> session_config \<Rightarrow> live_op list \<Rightarrow> pnp_world \<Rightarrow>
    ((session_error + unit) \<times> session_event list \<times> live option \<times> pnp_world) option" where
  "session_run os cfg ops w =
     (let (ready, evs, vdd, w) = run_setup os cfg w;
          drop_vdd = (\<lambda>w. case vdd of None \<Rightarrow> w | Some c \<Rightarrow> drop_controller (ro_shutdown os) (ro_pnp os) c w) in
      case ready of
        None \<Rightarrow> None
      | Some (Inl e) \<Rightarrow> Some (Inl e, evs, None, drop_vdd w)
      | Some (Inr (env, lv)) \<Rightarrow>
          let lv = live_events os cfg env ops lv in
          (case lv_result lv of
             None \<Rightarrow> None
           | Some res \<Rightarrow> Some (res, evs @ [final_event res], Some (live_end os lv), drop_vdd w)))"

end
