(* ===== verification/SessionRunProps.thy ===== *)
theory SessionRunProps
  imports SessionRun
begin

text \<open>
  What a whole session guarantees, in every interleaving of its tasks: the operating system gets only
  well-formed input; the client can take the stream apart and finds the handshake, then a subsequence
  of the encoder's packets in order; and no request for an IDR frame is made up.
\<close>

section \<open>Input\<close>

lemma handle_message_calls:
  assumes "calls_inv (ls_world s)"
  shows "calls_inv (ls_world (snd (handle_message env m s)))"
proof -
  obtain cs where "ls_world (snd (handle_message env m s)) = run_commands (le_api env) (le_iter env) cs (ls_world s)"
    using handle_message_commands [of env m s] by blast
  then show ?thesis using run_commands_invariant [of cs calls_inv "le_api env" "le_iter env" "ls_world s"] assms
    by (simp add: calls_inv_command)
qed

lemma live_event_calls:
  assumes "calls_inv (ls_world (lv_loop lv))"
  shows "calls_inv (ls_world (lv_loop (live_event os cfg env op lv)))"
proof -
  have "calls_inv (ls_world (lv_loop (live_read env lv)))"
    using assms handle_message_calls [of "(lv_loop lv)\<lparr>ls_out := pu_out (lv_pumps lv), ls_in := r\<rparr>" env m for r m]
    by (simp add: live_read_def Let_def split_def split: sum.split)
  then show ?thesis using assms
    by (cases op) (auto simp: live_event_def live_frame_def split: option.split prod.split)
qed

lemma live_events_calls:
  "calls_inv (ls_world (lv_loop lv)) \<Longrightarrow> calls_inv (ls_world (lv_loop (live_events os cfg env ops lv)))"
  unfolding live_events_def by (induction ops arbitrary: lv) (simp_all add: live_event_calls)

text \<open>What a session that is ready went through.\<close>

lemma run_engine_ready:
  assumes "run_engine os cfg m r w = Some (Inr (env, lv))"
  obtains eng iw pkt pipe w' where "engine_start (ro_engine os) (session_builder os cfg m) = Inr eng"
    "session_injector (ro_os os) cfg = Inr iw"
    "wait_for_keyframe (pipe_env os) 5000 (ro_wait_start os + 5000) (keyframe_turns os)
       (pipe_started (the (en_pipeline eng))) = (Some (Inr pkt), pipe)"
    "send_handshake cfg (en_monitor eng) pkt w = Inr w'"
    "env = session_env (ro_os os) cfg (en_monitor eng)"
    "lv = \<lparr>lv_loop = \<lparr>ls_in = r, ls_world = iw, ls_out = w', ls_idr = 0, ls_readings = 0\<rparr>,
       lv_pumps = pumps_start (ro_pump_start os) (motion_interval cfg) w', lv_pipe = pipe,
       lv_periodic = 0, lv_received = 0, lv_result = None\<rparr>"
  using assms by (auto simp: run_engine_def split: sum.splits prod.splits option.splits)

lemma run_setup_ready:
  assumes "run_setup os cfg w = (Some (Inr (env, lv)), evs, vdd, w')"
  obtains m r out r' where "so_accept (ro_os os) = Inr (r, out)" "run_engine os cfg m r' out = Some (Inr (env, lv))"
    "fst (acquire_monitor os cfg w) = Inr m"
  using assms by (auto simp: run_setup_def Let_def split: sum.splits prod.splits)

lemma session_calls:
  assumes "run_setup os cfg w = (Some (Inr (env, lv)), evs, vdd, w')"
  shows "calls_inv (ls_world (lv_loop (live_events os cfg env ops lv)))"
proof -
  from assms obtain m r out where "run_engine os cfg m r out = Some (Inr (env, lv))" by (rule run_setup_ready)
  then obtain iw where "session_injector (ro_os os) cfg = Inr iw" "ls_world (lv_loop lv) = iw"
    by (rule run_engine_ready) simp
  then show ?thesis using session_injector_calls live_events_calls by blast
qed

section \<open>The stream\<close>

definition same_video :: "encoded_packet \<Rightarrow> bytes \<Rightarrow> bool" where
  "same_video pkt payload \<longleftrightarrow> (\<exists>vf. video_frame_decode payload = Inr vf \<and> vf_coded vf = ep_bytes pkt \<and>
     vf_pts_ns vf = ep_pts_ns pkt \<and> (vf_flags vf AND FRAME_FLAG_KEYFRAME \<noteq> 0) = ep_is_keyframe pkt)"

lemma same_packet_video: "same_packet pkt p \<Longrightarrow> same_video pkt p"
  unfolding same_packet_def same_video_def by blast

definition small :: "encoded_packet \<Rightarrow> bool" where
  "small pkt \<longleftrightarrow> length (ep_bytes pkt) + 17 \<le> MAX_PAYLOAD_LEN"

definition small_messages :: "(u8 \<times> bytes) list \<Rightarrow> bool" where
  "small_messages ms \<longleftrightarrow> (\<forall>(i, p) \<in> set ms. length p \<le> MAX_PAYLOAD_LEN)"

lemma small_messages_simps [simp]:
  "small_messages []" "small_messages (ms @ ms') \<longleftrightarrow> small_messages ms \<and> small_messages ms'"
  "small_messages (m # ms) \<longleftrightarrow> length (snd m) \<le> MAX_PAYLOAD_LEN \<and> small_messages ms"
  by (auto simp: small_messages_def)

lemma payloads_simps [simp]:
  "payloads i [] = []" "payloads i (ms @ ms') = payloads i ms @ payloads i ms'"
  by (simp_all add: payloads_def)

text \<open>What a task writes that is not the frame pump: whole frames, none of them video.\<close>

definition no_video :: "out_stream \<Rightarrow> out_stream \<Rightarrow> bool" where
  "no_video w w' \<longleftrightarrow> (\<exists>ms. written w' = written w @ encode_frames ms \<and> small_messages ms \<and>
     payloads MSG_VIDEO_FRAME ms = [])"

lemma no_video_refl: "no_video w w"
  unfolding no_video_def by (rule exI [of _ "[]"]) (simp add: encode_frames_def)

lemma no_video_one:
  assumes "written w' = written w @ encode_frames [(i, p)]" "length p \<le> MAX_PAYLOAD_LEN" "i \<noteq> MSG_VIDEO_FRAME"
  shows "no_video w w'"
  unfolding no_video_def using assms by (intro exI [of _ "[(i, p)]"]) (simp add: payloads_Cons)

lemma write_frame_written: "write_frame w i p = Inr w' \<Longrightarrow> written w' = written w @ encode_frames [(i, p)]"
  by (auto simp: write_frame_def write_all_def encode_frames_def split: option.splits sum.splits)

lemma write_all_written: "write_all (encode_frame i p) w = Inr w' \<Longrightarrow> written w' = written w @ encode_frames [(i, p)]"
  by (auto simp: write_all_def encode_frames_def split: option.splits)

lemma handle_message_writes: "no_video (ls_out s) (ls_out (snd (handle_message env m s)))"
proof -
  have "no_video (ls_out s) (ls_out (snd (handle_time_sync env p s)))" for p
    by (auto simp: handle_time_sync_def Let_def no_video_refl message_ids time_sync_resp_small
        intro!: no_video_one dest: write_frame_written split: sum.split)
  then show ?thesis
    by (simp add: handle_message_def handle_pen_def handle_touch_def split_def Let_def no_video_refl split: sum.split)
qed

lemma telemetry_tick_writes: "no_video (pu_out p) (pu_out (telemetry_tick qs p))"
  by (auto simp: telemetry_tick_def Let_def no_video_refl message_ids telemetry_small
      intro!: no_video_one dest: write_all_written split: sum.split)

definition stream_inv :: "(u8 \<times> bytes) list \<Rightarrow> encoded_packet \<Rightarrow> live \<Rightarrow> bool" where
  "stream_inv hs pkt lv \<longleftrightarrow> list_all small (encoded (pl_log (pr_pipe (lv_pipe lv)))) \<and>
     (\<exists>ms D. written (pu_out (lv_pumps lv)) = encode_frames (hs @ ms) \<and> small_messages ms \<and>
        list_all2 same_packet D (payloads MSG_VIDEO_FRAME ms) \<and> in_order (pkt # D) (pr_pipe (lv_pipe lv)))"

lemma stream_inv_step:
  assumes "stream_inv hs pkt lv" "no_video (pu_out (lv_pumps lv)) (pu_out (lv_pumps lv'))"
    "\<And>D. in_order D (pr_pipe (lv_pipe lv)) \<Longrightarrow> in_order D (pr_pipe (lv_pipe lv'))"
    "list_all small (encoded (pl_log (pr_pipe (lv_pipe lv')))) = True"
  shows "stream_inv hs pkt lv'"
proof -
  from assms(1) obtain ms D where i: "written (pu_out (lv_pumps lv)) = encode_frames (hs @ ms)" "small_messages ms"
      "list_all2 same_packet D (payloads MSG_VIDEO_FRAME ms)" "in_order (pkt # D) (pr_pipe (lv_pipe lv))"
    unfolding stream_inv_def by blast
  from assms(2) obtain ms' where n: "written (pu_out (lv_pumps lv')) = written (pu_out (lv_pumps lv)) @ encode_frames ms'"
      "small_messages ms'" "payloads MSG_VIDEO_FRAME ms' = []"
    unfolding no_video_def by blast
  have "written (pu_out (lv_pumps lv')) = encode_frames (hs @ (ms @ ms'))"
    using n(1) i(1) by (simp only: encode_frames_append append_assoc)
  then show ?thesis unfolding stream_inv_def using assms(3,4) i n
    by (intro conjI exI [of _ "ms @ ms'"] exI [of _ D]) simp_all
qed

text \<open>The frame pump: the packet that it takes is the next of the encoder's, and it is written whole or
  not at all; after a failed write the pump has ended.\<close>

lemma frame_pump_packet_out:
  "(\<exists>e. write_all (encode_frame MSG_VIDEO_FRAME (video_frame_encode (video_frame_of pkt))) (pu_out p) = Inl e \<and>
      pu_out (frame_pump_packet thr mi pkt t t' d p) = pu_out p) \<or>
   written (pu_out (frame_pump_packet thr mi pkt t t' d p)) =
     written (pu_out p) @ encode_frames [(MSG_VIDEO_FRAME, video_frame_encode (video_frame_of pkt))]"
  by (auto simp: frame_pump_packet_def Let_def dest!: write_all_written split: sum.split)

lemma stream_inv_frame:
  assumes "stream_inv hs pkt lv"
  shows "stream_inv hs pkt (live_frame cfg t t' lv)"
proof (cases "pu_frame_pump (lv_pumps lv)")
  case True
  obtain x r where t: "take_packet (lv_pipe lv) = (x, r)" by (metis surj_pair)
  have log: "pl_log (pr_pipe r) = pl_log (pr_pipe (lv_pipe lv))"
    using t by (auto simp: take_packet_def split_def Let_def)
  from assms obtain ms D where i: "written (pu_out (lv_pumps lv)) = encode_frames (hs @ ms)" "small_messages ms"
      "list_all2 same_packet D (payloads MSG_VIDEO_FRAME ms)" "in_order (pkt # D) (pr_pipe (lv_pipe lv))"
      and sm: "list_all small (encoded (pl_log (pr_pipe (lv_pipe lv))))"
    unfolding stream_inv_def by blast
  note tp = take_packet_order [OF i(4)]
  show ?thesis
  proof (cases x)
    case None
    then show ?thesis using assms t True tp(2) by (simp add: live_frame_def)
  next
    case (Some y)
    note o = tp(1) [OF t [unfolded Some]]
    have "y \<in> set (encoded (pl_log (pr_pipe r)))"
      using o list_emb_set [of "(=)" _ _ y] unfolding in_order_def by fastforce
    then have y: "length (video_frame_encode (video_frame_of y)) \<le> MAX_PAYLOAD_LEN"
      using sm log video_frame_small [of "video_frame_of y"]
      by (auto simp: list_all_iff small_def video_frame_of_def Let_def)
    let ?m = "(MSG_VIDEO_FRAME, video_frame_encode (video_frame_of y))"
    define p' where "p' = frame_pump_packet (sc_motion_idr_threshold_bytes cfg) (motion_interval cfg) y t t'
      (qs_depth (stats (pl_queue (pr_pipe r)))) (lv_pumps lv)"
    have lv': "live_frame cfg t t' lv = lv\<lparr>lv_pipe := r, lv_pumps := p'\<rparr>"
      using t True Some by (simp add: live_frame_def p'_def)
    from frame_pump_packet_out consider
        "pu_out p' = pu_out (lv_pumps lv)"
      | "written (pu_out p') = written (pu_out (lv_pumps lv)) @ encode_frames [?m]" unfolding p'_def by blast
    then show ?thesis
    proof cases
      case 1
      then show ?thesis unfolding lv' stream_inv_def using i o sm log
        by (intro conjI exI [of _ ms] exI [of _ D]) simp_all
    next
      case 2
      then have "written (pu_out p') = encode_frames (hs @ (ms @ [?m]))"
        using i(1) by (simp only: encode_frames_append append_assoc)
      then show ?thesis unfolding lv' stream_inv_def using i o sm log y
        by (intro conjI exI [of _ "ms @ [?m]"] exI [of _ "D @ [y]"])
          (simp_all add: payloads_Cons same_packet_video_frame list_all2_appendI)
    qed
  qed
qed (use assms in \<open>simp add: live_frame_def\<close>)

lemma stream_inv_event:
  assumes "stream_inv hs pkt lv" "encoder_gives (pipe_env os) small"
  shows "stream_inv hs pkt (live_event os cfg env op lv)"
proof (cases "lv_result lv")
  case None
  have sm: "list_all small (encoded (pl_log (pr_pipe (lv_pipe lv))))" using assms(1) by (simp add: stream_inv_def)
  note step = stream_inv_step [OF assms(1)]
  show ?thesis
  proof (cases op)
    case Read
    have "stream_inv hs pkt (live_read env lv)"
    proof (rule step)
      show "no_video (pu_out (lv_pumps lv)) (pu_out (lv_pumps (live_read env lv)))"
        using handle_message_writes [of "(lv_loop lv)\<lparr>ls_out := pu_out (lv_pumps lv), ls_in := r\<rparr>" env m for r m]
        by (simp add: live_read_def Let_def split_def no_video_refl split: sum.split)
    qed (use sm in \<open>simp_all add: live_read_def Let_def split_def split: sum.split\<close>)
    then show ?thesis using Read None by (simp add: live_event_def)
  next
    case (Frame t t')
    then show ?thesis using stream_inv_frame [OF assms(1)] None by (simp add: live_event_def)
  next
    case Second_Passed
    then show ?thesis using None assms(1) sm
      by (auto simp: live_event_def telemetry_tick_writes intro: step)
  next
    case Period
    then show ?thesis using None assms(1) by (auto simp: live_event_def stream_inv_def split: option.split)
  next
    case Receive
    then show ?thesis using None assms sm
      by (auto simp: live_event_def no_video_refl encoded_event intro!: step in_order_event)
  next
    case Encode
    then show ?thesis using None assms sm
      by (auto simp: live_event_def no_video_refl encoded_event intro!: step in_order_event)
  next
    case Finish
    then show ?thesis using None assms(1) by (simp add: live_event_def stream_inv_def)
  qed
qed (use assms in \<open>simp add: live_event_def\<close>)

lemma stream_inv_events:
  "stream_inv hs pkt lv \<Longrightarrow> encoder_gives (pipe_env os) small \<Longrightarrow> stream_inv hs pkt (live_events os cfg env ops lv)"
  unfolding live_events_def by (induction ops arbitrary: lv) (simp_all add: stream_inv_event)

section \<open>From the first byte\<close>

lemma take_packet_log: "pl_log (pr_pipe (snd (take_packet r))) = pl_log (pr_pipe r)"
  by (simp add: take_packet_def split_def Let_def)

lemma wait_for_keyframe_encoded:
  "encoder_gives api P \<Longrightarrow> list_all P (encoded (pl_log (pr_pipe r))) \<Longrightarrow>
     list_all P (encoded (pl_log (pr_pipe (snd (wait_for_keyframe api timeout deadline turns r)))))"
proof (induction api timeout deadline turns r rule: wait_for_keyframe.induct)
  case (2 api timeout deadline now evs turns r)
  obtain x r1 where t: "take_packet (pipe_events api evs r) = (x, r1)" by (metis surj_pair)
  have "list_all P (encoded (pl_log (pr_pipe r1)))"
    using take_packet_log [of "pipe_events api evs r"] t encoded_events [OF "2.prems"] by simp
  then show ?case using "2.IH"(1) [OF _ t [symmetric]] "2.IH"(2) [OF _ t [symmetric]] "2.prems" t
    by (cases x) simp_all
qed simp

lemma quiet_keyframe_turns: "quiet_turns (keyframe_turns os)"
  by (auto simp: quiet_turns_def keyframe_turns_def)

lemma parameter_sets_length: "length (parameter_sets c bs) \<le> length bs"
  by (cases c) (simp_all add: parameter_sets_def extract_h264_nals_def extract_hevc_nals_def split_h264_nals_def
      split_hevc_nals_def keep_nals_length)

lemma send_handshake_Inr:
  assumes "send_handshake cfg m pkt w = Inr w'"
  shows "written w' = written w @ encode_frames (handshake_messages cfg m pkt)"
proof (cases "broken w")
  case None
  moreover have "parameter_sets (sc_codec cfg) (ep_bytes pkt) \<noteq> []" using assms by (auto simp: send_handshake_def Let_def)
  ultimately show ?thesis using send_handshake_ok [of w cfg pkt m] assms by auto
next
  case (Some e)
  then show ?thesis using assms
    by (auto simp: send_handshake_def write_frame_def write_all_def protocol_try_def Let_def split: if_splits)
qed

lemma same_video_first: "ep_is_keyframe pkt \<Longrightarrow> same_video pkt (video_frame_encode (first_video_frame pkt))"
  unfolding same_video_def video_frame_decode_encode_norm
  by (simp add: first_video_frame_def video_frame_norm_def FRAME_FLAG_KEYFRAME_def FRAME_FLAG_EXTENDED_def)

lemma handshake_small: "small pkt \<Longrightarrow> small_messages (handshake_messages cfg m pkt)"
  using parameter_sets_length [of "sc_codec cfg" "ep_bytes pkt"] video_frame_small [of "first_video_frame pkt"]
  by (auto simp: small_def handshake_messages_def size_simps size_defs MAX_PAYLOAD_LEN_def client_config_encode_def
      first_video_frame_def)

lemma run_engine_stream:
  assumes "run_engine os cfg m r w = Some (Inr (env, lv))" "written w = []" "encoder_gives (pipe_env os) small"
  shows "\<exists>mon pkt. ep_is_keyframe pkt \<and> small pkt \<and> stream_inv (handshake_messages cfg mon pkt) pkt lv"
proof -
  from assms(1) obtain eng iw pkt pipe w' where f:
      "engine_start (ro_engine os) (session_builder os cfg m) = Inr eng"
      "wait_for_keyframe (pipe_env os) 5000 (ro_wait_start os + 5000) (keyframe_turns os)
         (pipe_started (the (en_pipeline eng))) = (Some (Inr pkt), pipe)"
      "send_handshake cfg (en_monitor eng) pkt w = Inr w'"
      and lv: "lv_pipe lv = pipe" "pu_out (lv_pumps lv) = w'"
    by (rule run_engine_ready) (simp add: pumps_start_def)
  from f(1) obtain pl where pl: "en_pipeline eng = Some pl" "in_order [] pl" "encoded (pl_log pl) = []"
    by (rule engine_start_Inr) (simp add: in_order_start, simp add: pipeline_start_def)
  have k: "ep_is_keyframe pkt" "in_order [pkt] (pr_pipe pipe)"
    using wait_for_keyframe_Inr [OF f(2) quiet_keyframe_turns] pl by (simp_all add: pipe_started_def)
  have e: "list_all small (encoded (pl_log (pr_pipe pipe)))"
    using wait_for_keyframe_encoded [OF assms(3), of "pipe_started pl" 5000 "ro_wait_start os + 5000" "keyframe_turns os"] f(2) pl
    by (simp add: pipe_started_def)
  have "pkt \<in> set (encoded (pl_log (pr_pipe pipe)))"
    using k(2) list_emb_set [of "(=)" _ _ pkt] unfolding in_order_def by fastforce
  then have "small pkt" using e by (auto simp: list_all_iff)
  moreover have "stream_inv (handshake_messages cfg (en_monitor eng) pkt) pkt lv"
    unfolding stream_inv_def using e k lv send_handshake_Inr [OF f(3)] assms(2)
    by (intro conjI exI [of _ "[]"]) simp_all
  ultimately show ?thesis using k(1) by blast
qed

text \<open>What the client finds in the stream of a session, up to any moment of it.\<close>

lemma session_delivers:
  assumes "run_setup os cfg w = (Some (Inr (env, lv)), evs, vdd, w')" "so_accept (ro_os os) = Inr (r, out)"
    "written out = []" "encoder_gives (pipe_env os) small"
  shows "\<exists>ms pkt D. read_frames (length ms) \<lparr>pending = written (pu_out (lv_pumps (live_events os cfg env ops lv))), at_end = e\<rparr> =
      Inr (ms, \<lparr>pending = [], at_end = e\<rparr>) \<and>
    map fst (take 4 ms) = [MSG_HELLO_PC, MSG_CLIENT_CONFIG, MSG_VIDEO_CONFIG, MSG_VIDEO_FRAME] \<and>
    list_all2 same_video (pkt # D) (payloads MSG_VIDEO_FRAME ms) \<and> ep_is_keyframe pkt \<and>
    subseq (pkt # D) (encoded (pl_log (pr_pipe (lv_pipe (live_events os cfg env ops lv)))))"
proof -
  let ?lv = "live_events os cfg env ops lv"
  from assms(1) obtain m out' r' where "so_accept (ro_os os) = Inr (r, out')" "run_engine os cfg m r' out' = Some (Inr (env, lv))"
    using assms(2) by (elim run_setup_ready) auto
  then have "run_engine os cfg m r' out = Some (Inr (env, lv))" using assms(2) by simp
  from run_engine_stream [OF this assms(3,4)] obtain mon pkt where k: "ep_is_keyframe pkt" "small pkt"
      "stream_inv (handshake_messages cfg mon pkt) pkt lv" by blast
  let ?hs = "handshake_messages cfg mon pkt"
  from stream_inv_events [OF k(3) assms(4), of cfg env ops] obtain ms D where
      i: "written (pu_out (lv_pumps ?lv)) = encode_frames (?hs @ ms)" "small_messages ms"
        "list_all2 same_packet D (payloads MSG_VIDEO_FRAME ms)" "in_order (pkt # D) (pr_pipe (lv_pipe ?lv))"
    unfolding stream_inv_def by blast
  have "\<forall>(i, p) \<in> set (?hs @ ms). length p \<le> MAX_PAYLOAD_LEN"
    using handshake_small [OF k(2), of cfg mon] i(2) by (auto simp: small_messages_def)
  from read_frames_encode_frames [OF this, of "[]" e]
  have "read_frames (length (?hs @ ms)) \<lparr>pending = written (pu_out (lv_pumps ?lv)), at_end = e\<rparr> =
      Inr (?hs @ ms, \<lparr>pending = [], at_end = e\<rparr>)" unfolding i(1) by simp
  moreover have "payloads MSG_VIDEO_FRAME ?hs = [video_frame_encode (first_video_frame pkt)]"
    by (simp add: handshake_messages_def payloads_def server_msg_defs)
  then have "list_all2 same_video (pkt # D) (payloads MSG_VIDEO_FRAME (?hs @ ms))"
    using same_video_first [OF k(1)] list_all2_mono [OF i(3), of same_video] by (auto simp: same_packet_video)
  moreover have "map fst (take 4 (?hs @ ms)) = [MSG_HELLO_PC, MSG_CLIENT_CONFIG, MSG_VIDEO_CONFIG, MSG_VIDEO_FRAME]"
    by (simp add: handshake_messages_def)
  moreover have "subseq (pkt # D) (encoded (pl_log (pr_pipe (lv_pipe ?lv))))"
    using i(4) subseq_order.trans [of "pkt # D" "(pkt # D) @ pq_deque (pl_queue (pr_pipe (lv_pipe ?lv)))"]
    unfolding in_order_def by fastforce
  ultimately show ?thesis using k(1) by (intro exI [of _ "?hs @ ms"] exI [of _ pkt] exI [of _ D]) simp
qed

section \<open>IDR requests\<close>

text \<open>The waiting loop passes on only requests that somebody sent, each once.\<close>

lemma live_event_idr: "lv_received lv \<le> idr_sent lv \<Longrightarrow> lv_received (live_event os cfg env op lv) \<le> idr_sent (live_event os cfg env op lv)"
proof -
  assume i: "lv_received lv \<le> idr_sent lv"
  have "ls_idr s \<le> ls_idr (snd (handle_message env m s))" for m s
    by (simp add: handle_message_def handle_pen_def handle_touch_def handle_time_sync_def split_def Let_def split: sum.split)
  then have r: "lv_received (live_read env lv) = lv_received lv \<and> idr_sent lv \<le> idr_sent (live_read env lv)"
    by (auto simp: live_read_def idr_sent_def Let_def split_def split: sum.split)
      (metis loop_state.select_convs(4) loop_state.surjective loop_state.update_convs(1,3))
  have f: "lv_received (live_frame cfg t t' lv) = lv_received lv \<and> idr_sent lv \<le> idr_sent (live_frame cfg t t' lv)" for t t'
    by (auto simp: live_frame_def idr_sent_def frame_pump_packet_def Let_def split: option.split prod.split sum.split)
  have s: "pu_idr (telemetry_tick qs p) = pu_idr p" for qs p
    by (simp add: telemetry_tick_def Let_def split: sum.split)
  show ?thesis
  proof (cases op)
    case Read
    then show ?thesis using i r by (simp add: live_event_def)
  next
    case (Frame t t')
    then show ?thesis using i f [of t t'] by (simp add: live_event_def)
  qed (use i s in \<open>auto simp: live_event_def idr_sent_def split: option.split\<close>)
qed

lemma live_events_idr:
  "lv_received lv \<le> idr_sent lv \<Longrightarrow> lv_received (live_events os cfg env ops lv) \<le> idr_sent (live_events os cfg env ops lv)"
  unfolding live_events_def by (induction ops arbitrary: lv) (simp_all add: live_event_idr)

end
