(* ===== verification/Transport.thy ===== *)
theory Transport
  imports Monitors
begin

text \<open>
  The adb transport of \<^verbatim>\<open>crates/penflow-transport/src/adb.rs\<close>: the tunnel that adb keeps from a socket
  name on the tablet to a port of the host. adb, the file system and the environment variables are
  parameters; what adb was told, and whether it succeeded, is the log of the state. Text is ASCII.

  The listener is behind an asynchronous mutex that \<^verbatim>\<open>accept\<close> holds while it waits for a connection:
  \<open>ts_accepting\<close>. The end of an operation that has to wait for it is \<open>None\<close>.
\<close>

section \<open>Strings and paths\<close>

definition is_space :: "char \<Rightarrow> bool" where
  "is_space c \<longleftrightarrow> c = CHR '' '' \<or> 9 \<le> (of_char c :: nat) \<and> (of_char c :: nat) \<le> 13"

definition trim_start :: "string \<Rightarrow> string" where
  "trim_start s = dropWhile is_space s"

definition trim_end :: "string \<Rightarrow> string" where
  "trim_end s = rev (dropWhile is_space (rev s))"

definition trim :: "string \<Rightarrow> string" where
  "trim s = trim_end (trim_start s)"

definition strip_prefix :: "string \<Rightarrow> string \<Rightarrow> string option" where
  "strip_prefix p s = (if starts_with s p then Some (drop (length p) s) else None)"

definition trim_matches :: "char \<Rightarrow> string \<Rightarrow> string" where
  "trim_matches c s = rev (dropWhile (\<lambda>x. x = c) (rev (dropWhile (\<lambda>x. x = c) s)))"

text \<open>\<^verbatim>\<open>str::split\<close> on a character, and \<^verbatim>\<open>str::lines\<close>: the pieces between line feeds without a carriage
  return at their end, and no empty piece after the last line feed.\<close>

fun split_on :: "char \<Rightarrow> string \<Rightarrow> string list" where
  "split_on c [] = [[]]"
| "split_on c (x # xs) =
     (if x = c then [] # split_on c xs else (case split_on c xs of y # ys \<Rightarrow> (x # y) # ys | [] \<Rightarrow> [[x]]))"

definition chop_cr :: "string \<Rightarrow> string" where
  "chop_cr s = (if s \<noteq> [] \<and> last s = CHR 0x0D then butlast s else s)"

definition lines_of :: "string \<Rightarrow> string list" where
  "lines_of s = (let ps = split_on CHR 0x0A s in map chop_cr (if last ps = [] then butlast ps else ps))"

definition is_separator :: "char \<Rightarrow> bool" where
  "is_separator c \<longleftrightarrow> c = CHR 0x5C \<or> c = CHR ''/''"

text \<open>\<^verbatim>\<open>Path::join\<close> for a relative second part on Windows (a bare drive gets no separator), and
  \<^verbatim>\<open>with_extension\<close> of a path that ends in a file name.\<close>

definition path_join :: "string \<Rightarrow> string \<Rightarrow> string" where
  "path_join dir name =
     (if dir = [] \<or> is_separator (last dir) \<or> length dir = 2 \<and> last dir = CHR '':'' then dir @ name
      else dir @ [CHR 0x5C] @ name)"

definition file_name :: "string \<Rightarrow> string" where
  "file_name path = rev (takeWhile (\<lambda>c. \<not> is_separator c) (rev path))"

definition file_stem :: "string \<Rightarrow> string" where
  "file_stem name =
     (let before = rev (tl (dropWhile (\<lambda>c. c \<noteq> CHR ''.'') (rev name))) in
      if CHR ''.'' \<notin> set name \<or> name = ''..'' \<or> before = [] then name else before)"

definition with_extension :: "string \<Rightarrow> string \<Rightarrow> string" where
  "with_extension ext path =
     (let name = file_name path in
      if name = [] \<or> name = ''..'' then path
      else take (length path - length name) path @ file_stem name @ ''.'' @ ext)"

section \<open>Shims\<close>

text \<open>\<open>sh_path\<close> are the directories of \<^verbatim>\<open>PATH\<close>.\<close>

record shell =
  sh_path :: "string list option"
  sh_is_file :: "string \<Rightarrow> bool"
  sh_read :: "string \<Rightarrow> string option"

definition find_on_path :: "shell \<Rightarrow> string list \<Rightarrow> string \<Rightarrow> string option" where
  "find_on_path sh dirs cmd =
     find (sh_is_file sh) (concat (map (\<lambda>dir. map (\<lambda>ext. path_join dir (cmd @ ext)) ['''', ''.exe'', ''.bat'', ''.cmd'']) dirs))"

definition shim_target :: "shell \<Rightarrow> string \<Rightarrow> string option" where
  "shim_target sh line =
     (case strip_prefix ''path'' (trim line) of
        None \<Rightarrow> None
      | Some rest \<Rightarrow>
          let after_eq = trim (case strip_prefix ''='' (trim_start rest) of Some t \<Rightarrow> t | None \<Rightarrow> '''');
              unquoted = trim_matches CHR 0x22 after_eq in
          if unquoted \<noteq> [] \<and> sh_is_file sh unquoted then Some unquoted else None)"

fun first_target :: "shell \<Rightarrow> string list \<Rightarrow> string option" where
  "first_target sh [] = None"
| "first_target sh (l # ls) = (case shim_target sh l of Some t \<Rightarrow> Some t | None \<Rightarrow> first_target sh ls)"

definition through_shim :: "shell \<Rightarrow> string \<Rightarrow> string" where
  "through_shim sh candidate =
     (let shim = with_extension ''shim'' candidate in
      if sh_is_file sh shim then
        (case sh_read sh shim of
           None \<Rightarrow> candidate
         | Some content \<Rightarrow> (case first_target sh (lines_of content) of Some t \<Rightarrow> t | None \<Rightarrow> candidate))
      else candidate)"

definition resolve_through_shim :: "shell \<Rightarrow> string \<Rightarrow> string" where
  "resolve_through_shim sh cmd =
     (if list_ex is_separator cmd then through_shim sh cmd
      else (case sh_path sh of
          None \<Rightarrow> cmd
        | Some dirs \<Rightarrow> (case find_on_path sh dirs cmd of Some p \<Rightarrow> through_shim sh p | None \<Rightarrow> cmd)))"

section \<open>The transport\<close>

datatype adb_command = Start_Server | Reverse_Remove string | Reverse string u16

datatype adb_outcome = Not_Invoked | Exit_Failure | Exit_Success

type_synonym adb_log = "(adb_command \<times> bool) list"

text \<open>\<open>ad_bind\<close> is the port of a new listener, or whether its error was of the kind \<^verbatim>\<open>NotFound\<close>. That
  adb dies with the process (\<^verbatim>\<open>mark_kill_children_on_exit\<close>) does not show here.\<close>

datatype transport_error = Adb_Not_Invoked | Adb_Failed | Listen_Failed bool | Shut_Down

record adb_api =
  ad_shell :: shell
  ad_run :: "adb_log \<Rightarrow> adb_command \<Rightarrow> adb_outcome"
  ad_bind :: "adb_log \<Rightarrow> bool + u16"

record transport =
  ts_abstract_name :: string
  ts_adb_path :: string
  ts_bound_port :: u16
  ts_listening :: bool
  ts_accepting :: bool
  ts_reverse_active :: bool
  ts_log :: adb_log

definition run_adb :: "adb_api \<Rightarrow> adb_command \<Rightarrow> adb_log \<Rightarrow> (transport_error + unit) \<times> adb_log" where
  "run_adb api c xs =
     (case ad_run api xs c of
        Not_Invoked \<Rightarrow> (Inl Adb_Not_Invoked, xs @ [(c, False)])
      | Exit_Failure \<Rightarrow> (Inl Adb_Failed, xs @ [(c, False)])
      | Exit_Success \<Rightarrow> (Inr (), xs @ [(c, True)]))"

definition bind_with_adb :: "adb_api \<Rightarrow> string \<Rightarrow> string \<Rightarrow> adb_log \<Rightarrow> (transport_error + transport) \<times> adb_log" where
  "bind_with_adb api abstract_name adb_path xs =
     (let adb_path = resolve_through_shim (ad_shell api) adb_path in
      case run_adb api Start_Server xs of
        (Inl e, xs) \<Rightarrow> (Inl e, xs)
      | (Inr _, xs) \<Rightarrow>
          (case ad_bind api xs of
             Inl not_found \<Rightarrow> (Inl (Listen_Failed not_found), xs)
           | Inr bound_port \<Rightarrow>
               let xs = snd (run_adb api (Reverse_Remove abstract_name) xs) in
               (case run_adb api (Reverse abstract_name bound_port) xs of
                  (Inl e, xs) \<Rightarrow> (Inl e, xs)
                | (Inr _, xs) \<Rightarrow>
                    (Inr \<lparr>ts_abstract_name = abstract_name, ts_adb_path = adb_path, ts_bound_port = bound_port,
                       ts_listening = True, ts_accepting = False, ts_reverse_active = True, ts_log = xs\<rparr>, xs))))"

text \<open>The start of an accept: it takes the lock, and fails at once after a shutdown. It ends when a
  client connects or when the caller gives up.\<close>

definition accept_begin :: "transport \<Rightarrow> ((transport_error + unit) \<times> transport) option" where
  "accept_begin t =
     (if ts_accepting t then None
      else if ts_listening t then Some (Inr (), t\<lparr>ts_accepting := True\<rparr>)
      else Some (Inl Shut_Down, t))"

definition accept_end :: "transport \<Rightarrow> transport" where
  "accept_end t = t\<lparr>ts_accepting := False\<rparr>"

definition remove_rule :: "adb_api \<Rightarrow> transport \<Rightarrow> transport" where
  "remove_rule api t =
     (if ts_reverse_active t then
        t\<lparr>ts_log := snd (run_adb api (Reverse_Remove (ts_abstract_name t)) (ts_log t)), ts_reverse_active := False\<rparr>
      else t)"

definition transport_shutdown :: "adb_api \<Rightarrow> transport \<Rightarrow> transport option" where
  "transport_shutdown api t =
     (if ts_accepting t then None else Some (remove_rule api (t\<lparr>ts_listening := False\<rparr>)))"

definition drop_transport :: "adb_api \<Rightarrow> transport \<Rightarrow> transport" where
  "drop_transport api t = remove_rule api t"

section \<open>The rule on the tablet\<close>

text \<open>What the commands that succeeded leave behind for a socket name.\<close>

definition adb_effect :: "string \<Rightarrow> adb_command \<times> bool \<Rightarrow> u16 option \<Rightarrow> u16 option" where
  "adb_effect name c r = (case c of
     (Reverse n p, True) \<Rightarrow> if n = name then Some p else r
   | (Reverse_Remove n, True) \<Rightarrow> if n = name then None else r
   | _ \<Rightarrow> r)"

definition rule_on :: "string \<Rightarrow> adb_log \<Rightarrow> u16 option" where
  "rule_on name xs = fold (adb_effect name) xs None"

definition removals :: "string \<Rightarrow> adb_log \<Rightarrow> nat" where
  "removals name xs = length (filter (\<lambda>(c, _). c = Reverse_Remove name) xs)"

lemma rule_on_snoc [simp]: "rule_on name (xs @ [c]) = adb_effect name c (rule_on name xs)"
  by (simp add: rule_on_def)

lemma removals_snoc [simp]: "removals name (xs @ [c]) = removals name xs + (if fst c = Reverse_Remove name then 1 else 0)"
  by (cases c) (simp add: removals_def)

text \<open>The uses of a transport; \<open>None\<close> when one has to wait for ever.\<close>

datatype transport_op = Accept_Begin | Accept_End | Shutdown

definition transport_step :: "adb_api \<Rightarrow> transport_op \<Rightarrow> transport \<Rightarrow> transport option" where
  "transport_step api c t = (case c of
     Accept_Begin \<Rightarrow> map_option snd (accept_begin t)
   | Accept_End \<Rightarrow> Some (accept_end t)
   | Shutdown \<Rightarrow> transport_shutdown api t)"

fun transport_run :: "adb_api \<Rightarrow> transport_op list \<Rightarrow> transport \<Rightarrow> transport option" where
  "transport_run api [] t = Some t"
| "transport_run api (c # cs) t = (case transport_step api c t of None \<Rightarrow> None | Some t \<Rightarrow> transport_run api cs t)"

definition tunnel_inv :: "transport \<Rightarrow> transport \<Rightarrow> bool" where
  "tunnel_inv t0 t \<longleftrightarrow> ts_abstract_name t = ts_abstract_name t0 \<and> ts_bound_port t = ts_bound_port t0 \<and>
     (if ts_reverse_active t then ts_listening t \<and> ts_log t = ts_log t0
      else \<exists>ok. ts_log t = ts_log t0 @ [(Reverse_Remove (ts_abstract_name t0), ok)])"

lemma tunnel_inv_remove:
  "tunnel_inv t0 t \<Longrightarrow> tunnel_inv t0 (remove_rule api (t\<lparr>ts_listening := b\<rparr>))"
  by (auto simp: tunnel_inv_def remove_rule_def run_adb_def split: adb_outcome.splits)

lemma tunnel_inv_accepting: "tunnel_inv t0 (t\<lparr>ts_accepting := b\<rparr>) = tunnel_inv t0 t"
  by (simp add: tunnel_inv_def)

lemma tunnel_inv_step: "tunnel_inv t0 t \<Longrightarrow> transport_step api c t = Some t' \<Longrightarrow> tunnel_inv t0 t'"
  by (cases c) (auto simp: transport_step_def accept_begin_def accept_end_def transport_shutdown_def
      tunnel_inv_remove tunnel_inv_accepting split: if_splits)

lemma tunnel_inv_run: "tunnel_inv t0 t \<Longrightarrow> transport_run api cs t = Some t' \<Longrightarrow> tunnel_inv t0 t'"
  by (induction cs arbitrary: t) (auto split: option.splits dest: tunnel_inv_step)

lemma bind_Inr:
  assumes "bind_with_adb api name path [] = (Inr t, xs)"
  shows "ts_log t = xs \<and> ts_abstract_name t = name \<and> ts_reverse_active t \<and> ts_listening t \<and> \<not> ts_accepting t \<and>
    rule_on name xs = Some (ts_bound_port t) \<and> removals name xs = 1"
  using assms
  by (auto simp: bind_with_adb_def run_adb_def rule_on_def removals_def adb_effect_def Let_def
      split: adb_outcome.splits sum.splits)

text \<open>Whatever is done with a transport, dropping it leaves exactly one removal after the rule was set
  up, and no rule if adb does as it is told.\<close>

lemma dropped_transport:
  assumes "bind_with_adb api name path [] = (Inr t0, xs)" "transport_run api cs t0 = Some t"
  shows "\<exists>ok. ts_log (drop_transport api t) = xs @ [(Reverse_Remove name, ok)] \<and>
    rule_on name (ts_log (drop_transport api t)) = (if ok then None else Some (ts_bound_port t0))"
proof -
  note b = bind_Inr [OF assms(1)]
  have "tunnel_inv t0 t" by (rule tunnel_inv_run [OF _ assms(2)]) (use b in \<open>simp add: tunnel_inv_def\<close>)
  then consider "ts_reverse_active t" "ts_log t = xs" "ts_abstract_name t = name"
    | ok where "\<not> ts_reverse_active t" "ts_log t = xs @ [(Reverse_Remove name, ok)]"
    using b by (auto simp: tunnel_inv_def split: if_splits)
  then show ?thesis
  proof cases
    case 1
    then show ?thesis using b
      by (cases "ad_run api xs (Reverse_Remove name)")
        (simp_all add: drop_transport_def remove_rule_def run_adb_def adb_effect_def ex_bool_eq)
  next
    case (2 ok)
    then show ?thesis using b by (cases ok) (simp_all add: drop_transport_def remove_rule_def adb_effect_def ex_bool_eq)
  qed
qed

text \<open>While an accept waits, a shutdown cannot begin: the accept holds the lock.\<close>

lemma shutdown_waits_for_accept:
  "accept_begin t = Some (Inr (), t') \<Longrightarrow> transport_shutdown api t' = None"
  by (auto simp: accept_begin_def transport_shutdown_def split: if_splits)

end
