(* ===== verification/Settings.thy ===== *)
theory Settings
  imports Transport Session
begin

text \<open>
  The user settings of the desktop application,
  \<^verbatim>\<open>apps/penflow-gui/src-tauri/src/settings.rs\<close>: their defaults and validation, how they are loaded and
  saved, and the settings file of the virtual display driver. The JSON reader and writer (\<^verbatim>\<open>serde_json\<close>)
  are parameters; the file system is a map from paths to contents, and every call on it may fail.
\<close>

section \<open>Data\<close>

datatype topology_mode = Extend | Duplicate

datatype settings_codec = Settings_H264 | Settings_Hevc

datatype settings_mouse_button = Settings_Left | Settings_Right | Settings_Middle

datatype settings_binding =
    Settings_None
  | Settings_KeyTap string
  | Settings_KeyHold string
  | Settings_KeyChord "string list"
  | Settings_MouseButton settings_mouse_button
  | Settings_EraserToggle

record pen_bindings =
  pb_button_0 :: settings_binding
  pb_button_1 :: settings_binding
  pb_button_2 :: settings_binding

record display_resolution =
  dr_width :: u32
  dr_height :: u32

record settings =
  st_vdd_resolution :: display_resolution
  st_bitrate_bps :: u32
  st_fps :: u32
  st_codec :: settings_codec
  st_bindings :: pen_bindings
  st_autostart :: bool
  st_run_as_admin :: bool
  st_hud_enabled :: bool
  st_topology :: topology_mode
  st_screen_off :: bool
  st_disable_touch :: bool

definition DEFAULT_VDD_WIDTH :: u32 where "DEFAULT_VDD_WIDTH = 2880"
definition DEFAULT_VDD_HEIGHT :: u32 where "DEFAULT_VDD_HEIGHT = 1800"
definition MIN_VDD_WIDTH :: u32 where "MIN_VDD_WIDTH = 640"
definition MIN_VDD_HEIGHT :: u32 where "MIN_VDD_HEIGHT = 480"
definition MAX_VDD_WIDTH :: u32 where "MAX_VDD_WIDTH = 7680"
definition MAX_VDD_HEIGHT :: u32 where "MAX_VDD_HEIGHT = 4320"

definition pen_bindings_default :: pen_bindings where
  "pen_bindings_default = \<lparr>pb_button_0 = Settings_KeyHold ''Ctrl'', pb_button_1 = Settings_KeyHold ''Shift'',
     pb_button_2 = Settings_KeyTap ''E''\<rparr>"

definition settings_default :: settings where
  "settings_default = \<lparr>st_vdd_resolution = \<lparr>dr_width = DEFAULT_VDD_WIDTH, dr_height = DEFAULT_VDD_HEIGHT\<rparr>,
     st_bitrate_bps = 50000000, st_fps = 120, st_codec = Settings_Hevc, st_bindings = pen_bindings_default,
     st_autostart = False, st_run_as_admin = False, st_hud_enabled = True, st_topology = Extend,
     st_screen_off = False, st_disable_touch = False\<rparr>"

datatype settings_error = Width_Out_Of_Range | Height_Out_Of_Range | Odd_Size

definition validate_resolution :: "display_resolution \<Rightarrow> settings_error + unit" where
  "validate_resolution r =
     (if \<not> (MIN_VDD_WIDTH \<le> dr_width r \<and> dr_width r \<le> MAX_VDD_WIDTH) then Inl Width_Out_Of_Range
      else if \<not> (MIN_VDD_HEIGHT \<le> dr_height r \<and> dr_height r \<le> MAX_VDD_HEIGHT) then Inl Height_Out_Of_Range
      else if dr_width r mod 2 \<noteq> 0 \<or> dr_height r mod 2 \<noteq> 0 then Inl Odd_Size
      else Inr ())"

definition validate :: "settings \<Rightarrow> settings_error + unit" where
  "validate s = validate_resolution (st_vdd_resolution s)"

definition codec_of_settings :: "settings_codec \<Rightarrow> codec" where
  "codec_of_settings c = (case c of Settings_H264 \<Rightarrow> H264 | Settings_Hevc \<Rightarrow> Hevc)"

section \<open>Files\<close>

datatype fs_call =
    Create_Dir_All string
  | Create_File string
  | Write_All string string
  | Sync_All string
  | Rename string string
  | Write_File string string

text \<open>\<open>fs_fails\<close> is the error of a call, if it fails, and how many bytes a failing write has written.\<close>

record fs_api =
  fs_fails :: "fs_call list \<Rightarrow> fs_call \<Rightarrow> (io_error \<times> nat) option"

record fs =
  fs_files :: "string \<Rightarrow> string option"
  fs_calls :: "fs_call list"

text \<open>A rename replaces its target at once; creating a file empties it.\<close>

definition fs_effect :: "fs_call \<Rightarrow> nat option \<Rightarrow> (string \<Rightarrow> string option) \<Rightarrow> string \<Rightarrow> string option" where
  "fs_effect c partial m = (case c of
     Create_Dir_All _ \<Rightarrow> m
   | Create_File p \<Rightarrow> if partial = None then m(p \<mapsto> []) else m
   | Write_All p bs \<Rightarrow> m(p \<mapsto> (case partial of None \<Rightarrow> bs | Some k \<Rightarrow> take k bs))
   | Sync_All _ \<Rightarrow> m
   | Rename p q \<Rightarrow> if partial = None \<and> p \<noteq> q then m(q := m p, p := None) else m
   | Write_File p bs \<Rightarrow> (case partial of None \<Rightarrow> m(p \<mapsto> bs) | Some k \<Rightarrow> if k = 0 then m else m(p \<mapsto> take k bs)))"

definition fs_do :: "fs_api \<Rightarrow> fs_call \<Rightarrow> fs \<Rightarrow> (io_error + unit) \<times> fs" where
  "fs_do api c f =
     (case fs_fails api (fs_calls f) c of
        None \<Rightarrow> (Inr (), \<lparr>fs_files = fs_effect c None (fs_files f), fs_calls = fs_calls f @ [c]\<rparr>)
      | Some (e, k) \<Rightarrow> (Inl e, \<lparr>fs_files = fs_effect c (Some k) (fs_files f), fs_calls = fs_calls f @ [c]\<rparr>))"

fun fs_all :: "fs_api \<Rightarrow> fs_call list \<Rightarrow> fs \<Rightarrow> (io_error + unit) \<times> fs" where
  "fs_all api [] f = (Inr (), f)"
| "fs_all api (c # cs) f = (case fs_do api c f of (Inl e, f) \<Rightarrow> (Inl e, f) | (Inr _, f) \<Rightarrow> fs_all api cs f)"

definition settings_path :: "string option \<Rightarrow> string" where
  "settings_path appdata =
     path_join (path_join (case appdata of Some base \<Rightarrow> base | None \<Rightarrow> ''.'') ''Penflow'') ''settings.json''"

definition settings_dir :: "string option \<Rightarrow> string" where
  "settings_dir appdata = path_join (case appdata of Some base \<Rightarrow> base | None \<Rightarrow> ''.'') ''Penflow''"

text \<open>\<open>to_json\<close> and \<open>from_json\<close> are \<^verbatim>\<open>serde_json\<close>; an unreadable file gives the defaults.\<close>

definition load :: "(string \<Rightarrow> settings option) \<Rightarrow> string option \<Rightarrow> (string \<Rightarrow> io_error + string) \<Rightarrow> settings" where
  "load from_json appdata read =
     (case read (settings_path appdata) of
        Inl e \<Rightarrow> settings_default
      | Inr bytes \<Rightarrow> (case from_json bytes of Some s \<Rightarrow> s | None \<Rightarrow> settings_default))"

definition save :: "(settings \<Rightarrow> string option) \<Rightarrow> fs_api \<Rightarrow> string option \<Rightarrow> settings \<Rightarrow> fs \<Rightarrow> (io_error + unit) \<times> fs" where
  "save to_json api appdata s f =
     (let path = settings_path appdata; tmp = with_extension ''json.tmp'' path in
      case fs_all api [Create_Dir_All (settings_dir appdata), Create_File tmp] f of
        (Inl e, f) \<Rightarrow> (Inl e, f)
      | (Inr _, f) \<Rightarrow>
          (case to_json s of
             None \<Rightarrow> (Inl (OtherIo ''invalid data''), f)
           | Some json \<Rightarrow> fs_all api [Write_All tmp json, Sync_All tmp, Rename tmp path] f))"

section \<open>The settings of the driver\<close>

definition installed_vdd_settings_path :: string where
  "installed_vdd_settings_path = ''C:'' @ [CHR 0x5C] @ ''VirtualDisplayDriver'' @ [CHR 0x5C] @ ''vdd_settings.xml''"

definition unlines :: "string list \<Rightarrow> string" where
  "unlines ls = concat (map (\<lambda>l. l @ [CHR 0x0A]) ls)"

definition render_vdd_settings_xml :: "display_resolution \<Rightarrow> string" where
  "render_vdd_settings_xml r = unlines [
     ''<?xml version='1.0' encoding='utf-8'?>'',
     ''<!--'',
     ''  Penflow VDD configuration.'',
     '''',
     ''  This installed copy is generated from the GUI's virtual-display'',
     ''  resolution setting. The checked-in template defaults to 2880x1800 for'',
     ''  the MovinkPad Pro 14, but users can choose another even width/height'',
     ''  and the next VDD enable cycle will publish that mode.'',
     ''-->'',
     ''<vdd_settings>'',
     ''    <monitors>'',
     ''        <count>1</count>'',
     ''    </monitors>'',
     ''    <gpu>'',
     ''        <friendlyname>default</friendlyname>'',
     ''    </gpu>'',
     ''    <global>'',
     ''        <g_refresh_rate>60</g_refresh_rate>'',
     ''        <g_refresh_rate>120</g_refresh_rate>'',
     ''    </global>'',
     ''    <resolutions>'',
     ''        <resolution>'',
     ''            <width>'' @ decimal (unat (dr_width r)) @ ''</width>'',
     ''            <height>'' @ decimal (unat (dr_height r)) @ ''</height>'',
     ''            <refresh_rate>120</refresh_rate>'',
     ''        </resolution>'',
     ''    </resolutions>'',
     ''    <options>'',
     ''        <CustomEdid>false</CustomEdid>'',
     ''        <PreventSpoof>false</PreventSpoof>'',
     ''        <EdidCeaOverride>false</EdidCeaOverride>'',
     ''        <!-- HardwareCursor=true: the OS does NOT paint the cursor into the'',
     ''             VDD framebuffer (no DWM software-cursor compose step on this'',
     ''             monitor). The capture pipeline composites the cursor itself'',
     ''             via penflow-core::cursor_blit just before NV12 conversion,'',
     ''             using the position+shape DDA reports through'',
     ''             DXGI_OUTDUPL_FRAME_INFO. Saves the one-frame DWM-compose'',
     ''             latency the false setting paid for; cost is ~10-30 '' @ [CHR 0xC2, CHR 0xB5] @ ''s/frame'',
     ''             of GPU blit. -->'',
     ''        <HardwareCursor>true</HardwareCursor>'',
     ''        <SDR10bit>false</SDR10bit>'',
     ''        <HDRPlus>false</HDRPlus>'',
     ''        <logging>false</logging>'',
     ''        <debuglogging>false</debuglogging>'',
     ''    </options>'',
     ''</vdd_settings>'']"

definition write_vdd_settings_file :: "fs_api \<Rightarrow> string \<Rightarrow> string \<Rightarrow> settings \<Rightarrow> bool \<Rightarrow> fs \<Rightarrow> (io_error + unit) \<times> fs" where
  "write_vdd_settings_file api path parent s create_parent f =
     (case validate s of
        Inl _ \<Rightarrow> (Inl (OtherIo ''invalid input''), f)
      | Inr _ \<Rightarrow> fs_all api ((if create_parent then [Create_Dir_All parent] else []) @
          [Write_File path (render_vdd_settings_xml (st_vdd_resolution s))]) f)"

definition write_installed_vdd_settings :: "fs_api \<Rightarrow> settings \<Rightarrow> fs \<Rightarrow> (io_error + unit) \<times> fs" where
  "write_installed_vdd_settings api s f =
     write_vdd_settings_file api installed_vdd_settings_path (''C:'' @ [CHR 0x5C] @ ''VirtualDisplayDriver'') s True f"

section \<open>Facts\<close>

text \<open>What is validated can be halved for 4:2:0 video and is within the range of the driver.\<close>

lemma validate_iff:
  "validate s = Inr () \<longleftrightarrow>
     640 \<le> unat (dr_width (st_vdd_resolution s)) \<and> unat (dr_width (st_vdd_resolution s)) \<le> 7680 \<and>
     480 \<le> unat (dr_height (st_vdd_resolution s)) \<and> unat (dr_height (st_vdd_resolution s)) \<le> 4320 \<and>
     even (unat (dr_width (st_vdd_resolution s))) \<and> even (unat (dr_height (st_vdd_resolution s)))"
proof -
  have "x mod 2 = 0 \<longleftrightarrow> even (unat x)" for x :: u32
    unfolding even_iff_mod_2_eq_zero [symmetric] by transfer (simp add: even_nat_iff even_take_bit_eq)
  then show ?thesis
    by (auto simp: validate_def validate_resolution_def word_le_nat_alt MIN_VDD_WIDTH_def MIN_VDD_HEIGHT_def
        MAX_VDD_WIDTH_def MAX_VDD_HEIGHT_def)
qed

lemma settings_default_valid: "validate settings_default = Inr ()"
  by (simp add: validate_def validate_resolution_def settings_default_def MIN_VDD_WIDTH_def MIN_VDD_HEIGHT_def
      MAX_VDD_WIDTH_def MAX_VDD_HEIGHT_def DEFAULT_VDD_WIDTH_def DEFAULT_VDD_HEIGHT_def)

text \<open>The file is replaced as a whole: wherever saving stops, at an error or because the process ends
  between two calls, the file has its old content or the new one.\<close>

lemma settings_paths:
  "settings_path appdata = settings_dir appdata @ CHR 0x5C # ''settings.json''"
  "with_extension ''json.tmp'' (settings_path appdata) = settings_dir appdata @ CHR 0x5C # ''settings.json.tmp''"
proof -
  have dir: "\<exists>d. settings_dir appdata = d @ ''Penflow''"
    by (auto simp: settings_dir_def path_join_def)
  then show path: "settings_path appdata = settings_dir appdata @ CHR 0x5C # ''settings.json''"
    unfolding settings_path_def settings_dir_def [symmetric] by (auto simp: path_join_def is_separator_def)
  show "with_extension ''json.tmp'' (settings_path appdata) = settings_dir appdata @ CHR 0x5C # ''settings.json.tmp''"
    unfolding path by (simp add: with_extension_def file_name_def file_stem_def is_separator_def)
qed

definition save_calls :: "string option \<Rightarrow> string \<Rightarrow> fs_call list" where
  "save_calls appdata json = (let path = settings_path appdata; tmp = with_extension ''json.tmp'' path in
     [Create_Dir_All (settings_dir appdata), Create_File tmp, Write_All tmp json, Sync_All tmp, Rename tmp path])"

lemma fs_all_append:
  "fs_all api (cs @ ds) f = (case fs_all api cs f of (Inl e, f) \<Rightarrow> (Inl e, f) | (Inr _, f) \<Rightarrow> fs_all api ds f)"
  by (induction cs arbitrary: f) (auto split: prod.splits sum.splits)

lemma save_eq: "to_json s = Some json \<Longrightarrow> save to_json api appdata s f = fs_all api (save_calls appdata json) f"
  by (auto simp: save_def save_calls_def Let_def split: prod.splits sum.splits)

text \<open>Calls before the rename leave the settings file alone.\<close>

lemma fs_do_other:
  "fs_do api c f = (r, f') \<Longrightarrow> c \<in> {Create_Dir_All d, Create_File p, Write_All p json, Sync_All p} \<Longrightarrow> p \<noteq> q \<Longrightarrow>
     fs_files f' q = fs_files f q"
  by (auto simp: fs_do_def fs_effect_def split: option.splits)

lemma fs_all_other:
  "fs_all api cs f = (r, f') \<Longrightarrow> \<forall>c \<in> set cs. c \<in> {Create_Dir_All d, Create_File p, Write_All p json, Sync_All p} \<Longrightarrow> p \<noteq> q \<Longrightarrow>
     fs_files f' q = fs_files f q"
proof (induction cs arbitrary: f)
  case (Cons c cs)
  obtain r1 f1 where "fs_do api c f = (r1, f1)" by force
  then show ?case using Cons fs_do_other [of api c f r1 f1 d p json q] by (auto split: sum.splits)
qed simp

lemma save_atomic:
  assumes "fs_all api (take n (save_calls appdata json)) f = (r, f')"
  shows "fs_files f' (settings_path appdata) \<in> {fs_files f (settings_path appdata), Some json} \<and>
    (r = Inr () \<and> 5 \<le> n \<longrightarrow> fs_files f' (settings_path appdata) = Some json)"
proof -
  let ?path = "settings_path appdata" and ?tmp = "with_extension ''json.tmp'' (settings_path appdata)"
  have neq: "?tmp \<noteq> ?path" by (simp only: settings_paths(2), simp only: settings_paths(1), simp)
  let ?pre = "[Create_Dir_All (settings_dir appdata), Create_File ?tmp, Write_All ?tmp json, Sync_All ?tmp]"
  have calls: "save_calls appdata json = ?pre @ [Rename ?tmp ?path]" by (simp add: save_calls_def Let_def)
  show ?thesis
  proof (cases "n < 5")
    case True
    then have "take n (save_calls appdata json) = take n ?pre" unfolding calls take_append by simp
    moreover have "\<forall>c \<in> set (take n ?pre). c \<in> {Create_Dir_All (settings_dir appdata), Create_File ?tmp, Write_All ?tmp json, Sync_All ?tmp}"
      by (auto dest: in_set_takeD)
    ultimately have "fs_files f' ?path = fs_files f ?path" using fs_all_other [of api "take n ?pre" f r f'] assms neq by metis
    then show ?thesis using True by simp
  next
    case False
    then have all: "fs_all api (?pre @ [Rename ?tmp ?path]) f = (r, f')" using assms calls by (simp del: fs_all.simps)
    obtain r1 f1 where pre: "fs_all api ?pre f = (r1, f1)" by force
    have same: "fs_files f1 ?path = fs_files f ?path" by (rule fs_all_other [OF pre _ neq]) auto
    show ?thesis
    proof (cases r1)
      case (Inl e)
      then show ?thesis using all pre same unfolding fs_all_append by auto
    next
      case (Inr u)
      have tmp: "fs_files f1 ?tmp = Some json"
        using pre Inr by (auto simp: fs_do_def fs_effect_def split: option.splits)
      have "fs_do api (Rename ?tmp ?path) f1 = (r, f')"
        using all pre Inr unfolding fs_all_append by (auto split: prod.splits sum.splits)
      then show ?thesis using tmp same neq by (auto simp: fs_do_def fs_effect_def split: option.splits)
    qed
  qed
qed

text \<open>A save that succeeds is what the next start loads.\<close>

lemma load_saved:
  assumes "save to_json api appdata s f = (Inr (), f')" "\<And>s json. to_json s = Some json \<Longrightarrow> from_json json = Some s"
  shows "load from_json appdata (\<lambda>p. case fs_files f' p of Some c \<Rightarrow> Inr c | None \<Rightarrow> Inl e) = s"
proof (cases "to_json s")
  case None
  then show ?thesis using assms(1) by (auto simp: save_def Let_def split: prod.splits sum.splits)
next
  case (Some json)
  have "fs_all api (take 5 (save_calls appdata json)) f = (Inr (), f')"
    using assms(1) save_eq [of to_json s json api appdata f, OF Some] by (simp add: save_calls_def Let_def)
  from save_atomic [OF this] have "fs_files f' (settings_path appdata) = Some json" by simp
  then show ?thesis using assms(2) [OF Some] by (simp add: load_def)
qed

end
