(* ===== verification/Service.thy ===== *)
theory Service
  imports Settings SessionRun
begin

text \<open>
  The session configuration that the background service of the desktop application builds from the
  user settings, \<^verbatim>\<open>apps/penflow-gui/src-tauri/src/service.rs\<close>: the choice of the monitor, the virtual
  display, and the pen bindings with their key names. The accept loop is in \<open>ServiceLoop\<close>.
\<close>

section \<open>Key names\<close>

definition to_upper :: "char \<Rightarrow> char" where
  "to_upper c = (if 97 \<le> (of_char c :: nat) \<and> (of_char c :: nat) \<le> 122 then char_of (of_char c - 32 :: nat) else c)"

definition VK_BACK :: virtual_key where "VK_BACK = 0x08"
definition VK_TAB :: virtual_key where "VK_TAB = 0x09"
definition VK_RETURN :: virtual_key where "VK_RETURN = 0x0D"
definition VK_MENU :: virtual_key where "VK_MENU = 0x12"
definition VK_ESCAPE :: virtual_key where "VK_ESCAPE = 0x1B"
definition VK_SPACE :: virtual_key where "VK_SPACE = 0x20"
definition VK_PRIOR :: virtual_key where "VK_PRIOR = 0x21"
definition VK_NEXT :: virtual_key where "VK_NEXT = 0x22"
definition VK_END :: virtual_key where "VK_END = 0x23"
definition VK_HOME :: virtual_key where "VK_HOME = 0x24"
definition VK_LEFT :: virtual_key where "VK_LEFT = 0x25"
definition VK_UP :: virtual_key where "VK_UP = 0x26"
definition VK_RIGHT :: virtual_key where "VK_RIGHT = 0x27"
definition VK_DOWN :: virtual_key where "VK_DOWN = 0x28"
definition VK_INSERT :: virtual_key where "VK_INSERT = 0x2D"
definition VK_DELETE :: virtual_key where "VK_DELETE = 0x2E"
definition VK_LWIN :: virtual_key where "VK_LWIN = 0x5B"

definition named_keys :: "(string \<times> virtual_key) list" where
  "named_keys = [(''CTRL'', VK_CONTROL), (''CONTROL'', VK_CONTROL), (''SHIFT'', VK_SHIFT),
     (''ALT'', VK_MENU), (''MENU'', VK_MENU), (''OPTION'', VK_MENU),
     (''WIN'', VK_LWIN), (''META'', VK_LWIN), (''LWIN'', VK_LWIN), (''CMD'', VK_LWIN), (''COMMAND'', VK_LWIN), (''SUPER'', VK_LWIN),
     (''SPACE'', VK_SPACE), ('' '', VK_SPACE), (''TAB'', VK_TAB), (''ENTER'', VK_RETURN), (''RETURN'', VK_RETURN),
     (''ESC'', VK_ESCAPE), (''ESCAPE'', VK_ESCAPE), (''BACKSPACE'', VK_BACK), (''BACK'', VK_BACK),
     (''DEL'', VK_DELETE), (''DELETE'', VK_DELETE), (''INS'', VK_INSERT), (''INSERT'', VK_INSERT),
     (''HOME'', VK_HOME), (''END'', VK_END), (''PAGEUP'', VK_PRIOR), (''PRIOR'', VK_PRIOR),
     (''PAGEDOWN'', VK_NEXT), (''NEXT'', VK_NEXT), (''UP'', VK_UP), (''ARROWUP'', VK_UP),
     (''DOWN'', VK_DOWN), (''ARROWDOWN'', VK_DOWN), (''LEFT'', VK_LEFT), (''ARROWLEFT'', VK_LEFT),
     (''RIGHT'', VK_RIGHT), (''ARROWRIGHT'', VK_RIGHT)]"

definition is_digit :: "char \<Rightarrow> bool" where
  "is_digit c \<longleftrightarrow> 48 \<le> (of_char c :: nat) \<and> (of_char c :: nat) \<le> 57"

definition is_upper_letter :: "char \<Rightarrow> bool" where
  "is_upper_letter c \<longleftrightarrow> 65 \<le> (of_char c :: nat) \<and> (of_char c :: nat) \<le> 90"

text \<open>\<^verbatim>\<open>str::parse::<u16>\<close> of at most two characters: digits, after an optional plus sign.\<close>

definition parse_digits :: "string \<Rightarrow> nat option" where
  "parse_digits s = (if s \<noteq> [] \<and> list_all is_digit s then Some (foldl (\<lambda>n c. 10 * n + (of_char c - 48)) 0 s) else None)"

definition parse_u16 :: "string \<Rightarrow> nat option" where
  "parse_u16 s = (case s of c # cs \<Rightarrow> if c = CHR ''+'' \<and> cs \<noteq> [] then parse_digits cs else parse_digits s | [] \<Rightarrow> None)"

text \<open>The arms of the match in order: names, function keys, letters and digits. In the arm of the function
  keys the question mark leaves the function.\<close>

definition parse_key_token :: "string \<Rightarrow> virtual_key option" where
  "parse_key_token name =
     (let s = map to_upper name in
      case map_of named_keys s of
        Some vk \<Rightarrow> Some vk
      | None \<Rightarrow>
          if starts_with s ''F'' \<and> length s \<le> 3 then
            (case parse_u16 (drop 1 s) of
               None \<Rightarrow> None
             | Some n \<Rightarrow> if 1 \<le> n \<and> n \<le> 24 then Some (0x6F + of_nat n) else None)
          else if length s = 1 \<and> list_all is_upper_letter s then Some (of_char (hd s))
          else if length s = 1 \<and> list_all is_digit s then Some (of_char (hd s))
          else None)"

fun parse_tokens :: "string list \<Rightarrow> virtual_key list option" where
  "parse_tokens [] = Some []"
| "parse_tokens (tok # toks) =
     (let t = trim tok in
      if t = [] then parse_tokens toks
      else (case parse_key_token t of None \<Rightarrow> None | Some vk \<Rightarrow> map_option (\<lambda>vks. vk # vks) (parse_tokens toks)))"

definition parse_key_combo :: "string \<Rightarrow> virtual_key list option" where
  "parse_key_combo spec =
     (let trimmed = trim spec in if trimmed = [] then Some [] else parse_tokens (split_on CHR ''+'' trimmed))"

definition known_keys :: "string list \<Rightarrow> virtual_key list" where
  "known_keys keys = concat (map (\<lambda>k. case parse_key_token k of Some vk \<Rightarrow> [vk] | None \<Rightarrow> []) keys)"

definition convert_binding :: "settings_binding \<Rightarrow> binding" where
  "convert_binding b = (case b of
     Settings_None \<Rightarrow> No_Binding
   | Settings_EraserToggle \<Rightarrow> Eraser_Toggle
   | Settings_MouseButton button \<Rightarrow> Mouse_Button (case button of
         Settings_Left \<Rightarrow> Left_Button | Settings_Right \<Rightarrow> Right_Button | Settings_Middle \<Rightarrow> Middle_Button)
   | Settings_KeyTap key \<Rightarrow> (case parse_key_combo key of
         Some [vk] \<Rightarrow> Key_Tap vk | Some (vk # vk' # vks) \<Rightarrow> Key_Chord (vk # vk' # vks) | _ \<Rightarrow> No_Binding)
   | Settings_KeyHold key \<Rightarrow> (case parse_key_combo key of
         Some (vk # vks) \<Rightarrow> Key_Hold (vk # vks) | _ \<Rightarrow> No_Binding)
   | Settings_KeyChord keys \<Rightarrow> (let out = known_keys keys in if out = [] then No_Binding else Key_Chord out))"

definition build_pen_profile :: "pen_bindings \<Rightarrow> pen_button_profile" where
  "build_pen_profile b = \<lparr>barrel_1 = convert_binding (pb_button_0 b), barrel_2 = convert_binding (pb_button_1 b),
     tertiary = convert_binding (pb_button_2 b), tip_threshold = 0\<rparr>"

section \<open>The session configuration\<close>

text \<open>\<open>se_devices\<close> is the list of devices that \<^verbatim>\<open>VddController::detect\<close> finds.\<close>

record service_env =
  se_pnp :: pnp_api
  se_shutdown :: "pnp_world \<Rightarrow> shutdown_outcome \<times> pnp_world"
  se_devices :: "pnp_log \<Rightarrow> vdd_error + discovered_device list"
  se_fs :: fs_api

definition list_monitors_now :: "service_env \<Rightarrow> pnp_world \<Rightarrow> (engine_error + monitor_info list) \<times> pnp_world" where
  "list_monitors_now env w = (pnp_monitors (se_pnp env) (pw_log w), call (se_pnp env) Enumerate w)"

definition or_empty :: "'e + 'a list \<Rightarrow> 'a list" where
  "or_empty r = (case r of Inr xs \<Rightarrow> xs | Inl _ \<Rightarrow> [])"

text \<open>The virtual display of an earlier session is turned off before a session that mirrors the primary
  monitor; failures are only printed.\<close>

definition disable_leftover_vdd :: "service_env \<Rightarrow> pnp_world \<Rightarrow> pnp_world" where
  "disable_leftover_vdd env w =
     (let (r, w) = list_monitors_now env w;
          leftover_vdd = list_ex (\<lambda>m. mi_attached m \<and> mi_looks_virtual m) (or_empty r) in
      if leftover_vdd then
        (case detect (se_devices env (pw_log w)) of
           Inr (Some ctrl) \<Rightarrow>
             (case vdd_disable (se_shutdown env) (se_pnp env) ctrl w of (_, ctrl, w) \<Rightarrow> drop_controller (se_shutdown env) (se_pnp env) ctrl w)
         | _ \<Rightarrow> w)
      else w)"

definition pick_monitor :: "topology_mode \<Rightarrow> monitor_info list \<Rightarrow> monitor_info" where
  "pick_monitor topology monitors =
     (case find (\<lambda>m. mi_attached m \<and> \<not> mi_adapter_is_software m \<and> (topology = Duplicate \<longrightarrow> \<not> mi_looks_virtual m)) monitors of
        Some m \<Rightarrow> m
      | None \<Rightarrow> (case monitors of m # _ \<Rightarrow> m | [] \<Rightarrow> no_monitor))"

definition build_session_config :: "service_env \<Rightarrow> settings \<Rightarrow> pnp_world \<Rightarrow> fs \<Rightarrow> session_config \<times> pnp_world \<times> fs" where
  "build_session_config env s w f =
     (let w = (if st_topology s = Duplicate then disable_leftover_vdd env w else w);
          (r, w) = list_monitors_now env w;
          attached = pick_monitor (st_topology s) (or_empty r);
          vdd = (if st_topology s = Duplicate then None
                 else (case detect (se_devices env (pw_log w)) of Inr opt \<Rightarrow> opt | Inl _ \<Rightarrow> None));
          f = (if vdd \<noteq> None then snd (write_installed_vdd_settings (se_fs env) s f) else f) in
      (\<lparr>sc_monitor = attached, sc_codec = codec_of_settings (st_codec s), sc_bitrate_bps = st_bitrate_bps s,
        sc_fps = st_fps s, sc_idr_interval = None, sc_motion_idr_threshold_bytes = None,
        sc_motion_idr_min_interval = 250, sc_vdd = vdd,
        sc_vdd_target_resolution = map_option (\<lambda>_. (dr_width (st_vdd_resolution s), dr_height (st_vdd_resolution s))) vdd,
        sc_hud_enabled = st_hud_enabled s,
        sc_screen_off = (st_screen_off s \<and> st_topology s = Duplicate),
        sc_disable_touch = (st_disable_touch s \<and> st_topology s = Duplicate),
        sc_pen_profile = build_pen_profile (st_bindings s)\<rparr>, w, f))"

section \<open>Facts\<close>

text \<open>A combination of well-formed names is known exactly if each name is.\<close>

fun join_plus :: "string list \<Rightarrow> string" where
  "join_plus [] = []"
| "join_plus [k] = k"
| "join_plus (k # ks) = k @ CHR ''+'' # join_plus ks"

definition clean_name :: "string \<Rightarrow> bool" where
  "clean_name k \<longleftrightarrow> k \<noteq> [] \<and> CHR ''+'' \<notin> set k \<and> \<not> is_space (hd k) \<and> \<not> is_space (last k)"

lemma dropWhile_hd: "k \<noteq> [] \<Longrightarrow> \<not> P (hd k) \<Longrightarrow> dropWhile P k = k"
  by (cases k) auto

lemma trim_clean: "k \<noteq> [] \<Longrightarrow> \<not> is_space (hd k) \<Longrightarrow> \<not> is_space (last k) \<Longrightarrow> trim k = k"
  by (simp add: trim_def trim_start_def trim_end_def dropWhile_hd hd_rev)

lemma split_on_free: "c \<notin> set k \<Longrightarrow> split_on c k = [k]"
  by (induction k) auto

lemma split_on_append: "c \<notin> set k \<Longrightarrow> split_on c (k @ c # rest) = k # split_on c rest"
  by (induction k) auto

lemma split_join_plus: "ks \<noteq> [] \<Longrightarrow> \<forall>k \<in> set ks. clean_name k \<Longrightarrow> split_on CHR ''+'' (join_plus ks) = ks"
  by (induction ks rule: join_plus.induct) (auto simp: clean_name_def split_on_free split_on_append)

lemma join_plus_ends:
  "ks \<noteq> [] \<Longrightarrow> \<forall>k \<in> set ks. clean_name k \<Longrightarrow>
     join_plus ks \<noteq> [] \<and> hd (join_plus ks) = hd (hd ks) \<and> last (join_plus ks) = last (last ks)"
  by (induction ks rule: join_plus.induct) (auto simp: clean_name_def)

lemma parse_tokens_those: "\<forall>k \<in> set ks. clean_name k \<Longrightarrow> parse_tokens ks = those (map parse_key_token ks)"
  by (induction ks) (auto simp: clean_name_def trim_clean split: option.split)

lemma parse_key_combo_join:
  assumes "ks \<noteq> []" "\<forall>k \<in> set ks. clean_name k"
  shows "parse_key_combo (join_plus ks) = those (map parse_key_token ks)"
proof -
  have "clean_name (hd ks)" "clean_name (last ks)" using assms by auto
  then have "trim (join_plus ks) = join_plus ks"
    using join_plus_ends [OF assms] by (intro trim_clean) (auto simp: clean_name_def)
  then show ?thesis
    using join_plus_ends [OF assms] split_join_plus [OF assms] parse_tokens_those [OF assms(2)]
    by (simp add: parse_key_combo_def)
qed

text \<open>Which single characters are keys.\<close>

lemma to_upper_idem [simp]: "to_upper (to_upper c) = to_upper c"
proof (cases "97 \<le> (of_char c :: nat) \<and> (of_char c :: nat) \<le> 122")
  case True
  then have "of_char (to_upper c) = (of_char c - 32 :: nat)" by (auto simp: to_upper_def)
  moreover have "of_char c - 32 < (97 :: nat)" using True by arith
  ultimately show ?thesis by (subst to_upper_def) simp
next
  case False
  then have "to_upper c = c" by (auto simp: to_upper_def)
  then show ?thesis by simp
qed

lemma parse_key_token_upper: "parse_key_token (map to_upper name) = parse_key_token name"
  by (simp add: parse_key_token_def comp_def)

definition letters :: string where
  "letters = ''ABCDEFGHIJKLMNOPQRSTUVWXYZ''"

lemma letters_keys:
  "list_all (\<lambda>c. parse_key_token [c] = (if c = CHR ''F'' then None else Some (of_char c))) (letters @ ''0123456789'')"
  by code_simp

lemma function_keys:
  "list_all (\<lambda>n. parse_key_token (CHR ''F'' # decimal n) = Some (0x6F + of_nat n)) [1..<25]"
  by code_simp

text \<open>A binding that holds or chords keys has keys.\<close>

lemma convert_binding_keys:
  "convert_binding b \<noteq> Key_Hold []" "convert_binding b \<noteq> Key_Chord []"
  by (auto simp: convert_binding_def Let_def split: settings_binding.splits option.splits list.splits settings_mouse_button.splits)

text \<open>The configuration.\<close>

lemma pick_monitor_in: "ms \<noteq> [] \<Longrightarrow> pick_monitor t ms \<in> set ms"
  by (auto simp: pick_monitor_def find_Some_iff split: option.splits list.split) (metis nth_mem length_Cons set_ConsD)+

lemma pick_monitor_real:
  assumes "m \<in> set ms" "mi_attached m" "\<not> mi_adapter_is_software m" "t = Duplicate \<longrightarrow> \<not> mi_looks_virtual m"
  shows "mi_attached (pick_monitor t ms) \<and> \<not> mi_adapter_is_software (pick_monitor t ms) \<and>
    (t = Duplicate \<longrightarrow> \<not> mi_looks_virtual (pick_monitor t ms))"
proof (cases "find (\<lambda>m. mi_attached m \<and> \<not> mi_adapter_is_software m \<and> (t = Duplicate \<longrightarrow> \<not> mi_looks_virtual m)) ms")
  case None
  then show ?thesis using assms by (auto simp: find_None_iff)
next
  case (Some x)
  then have "pick_monitor t ms = x" unfolding pick_monitor_def by simp
  with Some show ?thesis by (auto simp: find_Some_iff)
qed

lemma config_sound:
  assumes "build_session_config env s w f = (cfg, w', f')"
  shows "(sc_vdd cfg \<noteq> None \<or> sc_vdd_target_resolution cfg \<noteq> None \<longrightarrow> st_topology s = Extend) \<and>
    (sc_screen_off cfg \<or> sc_disable_touch cfg \<longrightarrow> st_topology s = Duplicate) \<and>
    (sc_vdd cfg = None) = (sc_vdd_target_resolution cfg = None) \<and>
    (\<exists>xs r. pnp_monitors (se_pnp env) xs = r \<and> sc_monitor cfg = pick_monitor (st_topology s) (or_empty r))"
  using assms
  by (cases "st_topology s") (auto simp: build_session_config_def list_monitors_now_def Let_def split: sum.splits)

lemma config_monitor:
  assumes "build_session_config env s w f = (cfg, w', f')"
  shows "\<exists>xs. let usable = (\<lambda>m. mi_attached m \<and> \<not> mi_adapter_is_software m \<and> (st_topology s = Duplicate \<longrightarrow> \<not> mi_looks_virtual m));
      ms = or_empty (pnp_monitors (se_pnp env) xs) in
    (ms \<noteq> [] \<longrightarrow> sc_monitor cfg \<in> set ms) \<and> (list_ex usable ms \<longrightarrow> usable (sc_monitor cfg))"
proof -
  obtain xs where m: "sc_monitor cfg = pick_monitor (st_topology s) (or_empty (pnp_monitors (se_pnp env) xs))"
    using config_sound [OF assms] by blast
  show ?thesis
    unfolding Let_def m by (intro exI [of _ xs]) (auto simp: list_ex_iff dest: pick_monitor_real intro: pick_monitor_in)
qed

lemma config_bindings:
  assumes "build_session_config env s w f = (cfg, w', f')"
  shows "barrel_1 (sc_pen_profile cfg) \<noteq> Key_Hold [] \<and> barrel_2 (sc_pen_profile cfg) \<noteq> Key_Hold [] \<and>
    tertiary (sc_pen_profile cfg) \<noteq> Key_Hold []"
proof -
  have "sc_pen_profile cfg = build_pen_profile (st_bindings s)"
    using assms by (auto simp: build_session_config_def Let_def split: prod.splits)
  then show ?thesis by (simp add: build_pen_profile_def convert_binding_keys)
qed

end
