(* ===== verification/ServiceLoop.thy ===== *)
theory ServiceLoop
  imports Service
begin

text \<open>
  The background service of the desktop application, \<^verbatim>\<open>apps/penflow-gui/src-tauri/src/service.rs\<close>: its
  accept loop, the task that forwards the events of a session, and the commands that start and stop it.
  They share the mutex \<^verbatim>\<open>inner\<close>; each step below is what one of them does between two waits. \<open>None\<close> means
  that a step cannot be taken, because what it waits for has not happened or because the mutex is held.
\<close>

section \<open>State\<close>

datatype service_error = Bind_Error transport_error | Session_Failed session_error

datatype service_state =
    Stopped
  | Preparing
  | Listening
  | Service_Connecting
  | Service_Connected u16 u16
  | Service_Disconnected
  | Service_Error service_error

definition translate_event :: "session_event \<Rightarrow> service_state" where
  "translate_event ev = (case ev of
     Connecting \<Rightarrow> Service_Connecting
   | Connected device_width device_height \<Rightarrow> Service_Connected device_width device_height
   | Disconnected \<Rightarrow> Service_Disconnected
   | Errored e \<Rightarrow> Service_Error (Session_Failed e))"

datatype loop_pc =
    At_Top
  | Emit_Preparing
  | Binding
  | Emit_Listening
  | Emit_Bind_Error transport_error
  | Backing_Off nat
  | Configuring
  | In_Session
  | Emit_Ended "session_error + unit"
  | Finishing
  | Closing
  | Aborting
  | Tearing_Down
  | Cooling_Off
  | Returned

text \<open>\<open>al_cancel\<close>: the cancel signal was sent. \<open>al_queue\<close> holds the session's events in the channel, \<open>al_hand\<close> the
  one the forwarding task has taken and not emitted.\<close>

record accept_loop =
  al_pc :: loop_pc
  al_cancel :: bool
  al_queue :: "session_event list"
  al_hand :: "session_event option"

text \<open>Tasks are named by their position in \<open>sv_loops\<close>. \<open>sv_stopping\<close> is the task for which a call of \<^verbatim>\<open>stop\<close>
  waits; that call holds the mutex.\<close>

record service =
  sv_task :: "nat option"
  sv_cancel :: "nat option"
  sv_last :: service_state
  sv_stopping :: "nat option"
  sv_loops :: "accept_loop list"

definition service_new :: service where
  "service_new = \<lparr>sv_task = None, sv_cancel = None, sv_last = Stopped, sv_stopping = None, sv_loops = []\<rparr>"

definition emit :: "service_state \<Rightarrow> service \<Rightarrow> service option" where
  "emit st s = (if sv_stopping s = None then Some (s\<lparr>sv_last := st\<rparr>) else None)"

definition current_state :: "service \<Rightarrow> service_state option" where
  "current_state s = (if sv_stopping s = None then Some (sv_last s) else None)"

section \<open>The accept loop\<close>

definition new_loop :: accept_loop where
  "new_loop = \<lparr>al_pc = At_Top, al_cancel = False, al_queue = [], al_hand = None\<rparr>"

text \<open>What happens to a waiting loop: the next statement, the result of binding the transport, an event of
  the session, its end, a timer, the cancel signal.\<close>

datatype turn = Go | Bound "transport_error + unit" | Report session_event | Ended "session_error + unit" | Timer | Cancel

definition backoff_secs :: "transport_error \<Rightarrow> nat" where
  "backoff_secs e = (if e = Adb_Not_Invoked \<or> e = Listen_Failed True then 30 else 5)"

text \<open>One turn: the state it emits, if it does, and the loop afterwards.\<close>

definition loop_turn :: "turn \<Rightarrow> accept_loop \<Rightarrow> (service_state option \<times> accept_loop) option" where
  "loop_turn t l = (case (al_pc l, t) of
     (At_Top, Go) \<Rightarrow> Some (None, l\<lparr>al_pc := if al_cancel l then Returned else Emit_Preparing\<rparr>)
   | (Emit_Preparing, Go) \<Rightarrow> Some (Some Preparing, l\<lparr>al_pc := Binding\<rparr>)
   | (Binding, Bound r) \<Rightarrow> Some (None, l\<lparr>al_pc := (case r of Inr _ \<Rightarrow> Emit_Listening | Inl e \<Rightarrow> Emit_Bind_Error e)\<rparr>)
   | (Emit_Listening, Go) \<Rightarrow> Some (Some Listening, l\<lparr>al_pc := Configuring\<rparr>)
   | (Emit_Bind_Error e, Go) \<Rightarrow> Some (Some (Service_Error (Bind_Error e)), l\<lparr>al_pc := Backing_Off (backoff_secs e)\<rparr>)
   | (Backing_Off _, Timer) \<Rightarrow> Some (None, l\<lparr>al_pc := At_Top\<rparr>)
   | (Backing_Off _, Cancel) \<Rightarrow> if al_cancel l then Some (None, l\<lparr>al_pc := Returned\<rparr>) else None
   | (Configuring, Go) \<Rightarrow> Some (None, l\<lparr>al_pc := In_Session\<rparr>)
   | (In_Session, Report ev) \<Rightarrow> if length (al_queue l) < 8 then Some (None, l\<lparr>al_queue := al_queue l @ [ev]\<rparr>) else None
   | (In_Session, Ended r) \<Rightarrow> Some (None, l\<lparr>al_pc := Emit_Ended r\<rparr>)
   | (In_Session, Cancel) \<Rightarrow> if al_cancel l then Some (None, l\<lparr>al_pc := Finishing\<rparr>) else None
   | (Emit_Ended r, Go) \<Rightarrow> Some (Some (case r of Inr _ \<Rightarrow> Service_Disconnected | Inl e \<Rightarrow> Service_Error (Session_Failed e)),
        l\<lparr>al_pc := Aborting\<rparr>)
   | (Finishing, Report ev) \<Rightarrow> if length (al_queue l) < 8 then Some (None, l\<lparr>al_queue := al_queue l @ [ev]\<rparr>) else None
   | (Finishing, Ended _) \<Rightarrow> Some (None, l\<lparr>al_pc := Closing\<rparr>)
   | (Finishing, Timer) \<Rightarrow> Some (None, l\<lparr>al_pc := Closing\<rparr>)
   | (Closing, Go) \<Rightarrow> Some (None, l\<lparr>al_pc := Returned, al_queue := [], al_hand := None\<rparr>)
   | (Aborting, Go) \<Rightarrow> Some (None, l\<lparr>al_pc := Tearing_Down, al_queue := [], al_hand := None\<rparr>)
   | (Tearing_Down, Go) \<Rightarrow> Some (None, l\<lparr>al_pc := Cooling_Off\<rparr>)
   | (Cooling_Off, Timer) \<Rightarrow> Some (None, l\<lparr>al_pc := At_Top\<rparr>)
   | (Cooling_Off, Cancel) \<Rightarrow> if al_cancel l then Some (None, l\<lparr>al_pc := Returned\<rparr>) else None
   | _ \<Rightarrow> None)"

section \<open>The service\<close>

datatype service_act = Start_Service | Stop_Service | Stop_Joined | Stop_Timeout | Turn_Of nat turn | Take_Event nat | Forward nat

definition start :: "service \<Rightarrow> service option" where
  "start s = (if sv_stopping s \<noteq> None then None
     else if sv_task s \<noteq> None then Some s
     else Some (s\<lparr>sv_loops := sv_loops s @ [new_loop], sv_task := Some (length (sv_loops s)),
       sv_cancel := Some (length (sv_loops s))\<rparr>))"

definition send_cancel :: "nat option \<Rightarrow> accept_loop list \<Rightarrow> accept_loop list" where
  "send_cancel c ls = (case c of Some i \<Rightarrow> ls[i := (ls ! i)\<lparr>al_cancel := True\<rparr>] | None \<Rightarrow> ls)"

text \<open>The part of \<^verbatim>\<open>stop\<close> before it waits, and the part after, when the task ended or ten seconds have passed.\<close>

definition stop_begin :: "service \<Rightarrow> service option" where
  "stop_begin s = (if sv_stopping s \<noteq> None then None
     else let s = s\<lparr>sv_loops := send_cancel (sv_cancel s) (sv_loops s), sv_cancel := None\<rparr> in
       (case sv_task s of
          None \<Rightarrow> Some (s\<lparr>sv_last := Stopped\<rparr>)
        | Some i \<Rightarrow> Some (s\<lparr>sv_task := None, sv_stopping := Some i\<rparr>)))"

definition stop_end :: "bool \<Rightarrow> service \<Rightarrow> service option" where
  "stop_end timeout s = (case sv_stopping s of
     None \<Rightarrow> None
   | Some i \<Rightarrow> if timeout \<or> al_pc (sv_loops s ! i) = Returned then Some (s\<lparr>sv_stopping := None, sv_last := Stopped\<rparr>) else None)"

definition run_accept_loop :: "nat \<Rightarrow> turn \<Rightarrow> service \<Rightarrow> service option" where
  "run_accept_loop i t s =
     (if i < length (sv_loops s) then
        (case loop_turn t (sv_loops s ! i) of
           None \<Rightarrow> None
         | Some (None, l) \<Rightarrow> Some (s\<lparr>sv_loops := (sv_loops s)[i := l]\<rparr>)
         | Some (Some st, l) \<Rightarrow> emit st (s\<lparr>sv_loops := (sv_loops s)[i := l]\<rparr>))
      else None)"

text \<open>The forwarding task takes an event from the channel and emits it.\<close>

definition take_event :: "nat \<Rightarrow> service \<Rightarrow> service option" where
  "take_event i s =
     (if i < length (sv_loops s) then
        (case (al_hand (sv_loops s ! i), al_queue (sv_loops s ! i)) of
           (None, ev # evs) \<Rightarrow> Some (s\<lparr>sv_loops := (sv_loops s)[i := (sv_loops s ! i)\<lparr>al_queue := evs, al_hand := Some ev\<rparr>]\<rparr>)
         | _ \<Rightarrow> None)
      else None)"

definition forward :: "nat \<Rightarrow> service \<Rightarrow> service option" where
  "forward i s =
     (if i < length (sv_loops s) then
        (case al_hand (sv_loops s ! i) of
           None \<Rightarrow> None
         | Some ev \<Rightarrow> emit (translate_event ev) (s\<lparr>sv_loops := (sv_loops s)[i := (sv_loops s ! i)\<lparr>al_hand := None\<rparr>]\<rparr>))
      else None)"

definition service_act :: "service_act \<Rightarrow> service \<Rightarrow> service option" where
  "service_act a s = (case a of
     Start_Service \<Rightarrow> start s
   | Stop_Service \<Rightarrow> stop_begin s
   | Stop_Joined \<Rightarrow> stop_end False s
   | Stop_Timeout \<Rightarrow> stop_end True s
   | Turn_Of i t \<Rightarrow> run_accept_loop i t s
   | Take_Event i \<Rightarrow> take_event i s
   | Forward i \<Rightarrow> forward i s)"

text \<open>A run, with the acts it takes; \<open>acts_run\<close> computes one.\<close>

inductive service_steps :: "service_act list \<Rightarrow> service \<Rightarrow> service \<Rightarrow> bool" where
  steps_none: "service_steps [] s s"
| steps_more: "service_act a s = Some s' \<Longrightarrow> service_steps as s' s'' \<Longrightarrow> service_steps (a # as) s s''"

inductive_cases steps_consE: "service_steps (a # as) s s''"

inductive_simps steps_nil [simp]: "service_steps [] s s''"
inductive_simps steps_cons: "service_steps (a # as) s s''"

fun acts_run :: "service_act list \<Rightarrow> service \<Rightarrow> service option" where
  "acts_run [] s = Some s"
| "acts_run (a # as) s = (case service_act a s of None \<Rightarrow> None | Some s' \<Rightarrow> acts_run as s')"

lemma acts_run_steps: "acts_run as s = Some s' \<longleftrightarrow> service_steps as s s'"
  by (induction as arbitrary: s) (auto simp: steps_cons split: option.splits)

lemma run_exists: "(case acts_run as s of Some s' \<Rightarrow> P s' | None \<Rightarrow> False) \<Longrightarrow> \<exists>s'. service_steps as s s' \<and> P s'"
  by (auto simp: acts_run_steps split: option.splits)

section \<open>A loop on its own\<close>

text \<open>Outside a session there is nothing to forward.\<close>

definition loop_ok :: "accept_loop \<Rightarrow> bool" where
  "loop_ok l \<longleftrightarrow> al_queue l = [] \<and> al_hand l = None \<or> al_pc l \<in> {In_Session, Finishing, Closing, Aborting} \<or>
     (\<exists>r. al_pc l = Emit_Ended r)"

lemma loop_turn_facts:
  assumes "loop_turn t l = Some (e, l')"
  shows "al_pc l \<noteq> Returned" "al_cancel l' = al_cancel l" "al_pc l' = Returned \<Longrightarrow> al_cancel l \<or> al_pc l = Closing"
    "loop_ok l \<Longrightarrow> loop_ok l'"
  using assms by (auto simp: loop_turn_def loop_ok_def split: loop_pc.splits turn.splits if_splits sum.splits)

text \<open>A loop closes only after it was cancelled.\<close>

definition loop_cancelled :: "accept_loop \<Rightarrow> bool" where
  "loop_cancelled l \<longleftrightarrow> (al_pc l \<in> {Finishing, Closing, Returned} \<longrightarrow> al_cancel l)"

lemma loop_turn_cancelled: "loop_turn t l = Some (e, l') \<Longrightarrow> loop_cancelled l \<Longrightarrow> loop_cancelled l'"
  by (auto simp: loop_turn_def loop_cancelled_def split: loop_pc.splits turn.splits if_splits sum.splits)

section \<open>Runs in which no stop gives up\<close>

definition loops_ok :: "accept_loop list \<Rightarrow> bool" where
  "loops_ok ls \<longleftrightarrow> (\<forall>l \<in> set ls. loop_ok l \<and> loop_cancelled l)"

definition service_inv :: "service \<Rightarrow> bool" where
  "service_inv s \<longleftrightarrow> loops_ok (sv_loops s) \<and> sv_cancel s = sv_task s \<and> (sv_task s = None \<or> sv_stopping s = None) \<and>
     (\<forall>i. sv_task s = Some i \<longrightarrow> i < length (sv_loops s) \<and> \<not> al_cancel (sv_loops s ! i)) \<and>
     (\<forall>i. sv_stopping s = Some i \<longrightarrow> i < length (sv_loops s)) \<and>
     (\<forall>i < length (sv_loops s). al_pc (sv_loops s ! i) \<noteq> Returned \<longrightarrow> sv_task s = Some i \<or> sv_stopping s = Some i) \<and>
     (sv_task s \<noteq> None \<or> sv_stopping s \<noteq> None \<or> sv_last s = Stopped)"

lemma loops_ok_update: "loops_ok ls \<Longrightarrow> loop_ok l \<Longrightarrow> loop_cancelled l \<Longrightarrow> loops_ok (ls[i := l])"
  by (auto simp: loops_ok_def dest: set_update_subset_insert [THEN subsetD])

lemma loops_ok_nth: "loops_ok ls \<Longrightarrow> i < length ls \<Longrightarrow> loop_ok (ls ! i) \<and> loop_cancelled (ls ! i)"
  by (simp add: loops_ok_def)

lemma inv_loops: "service_inv s \<Longrightarrow> i < length (sv_loops s) \<Longrightarrow> loop_ok (sv_loops s ! i) \<and> loop_cancelled (sv_loops s ! i)"
  unfolding service_inv_def by (simp add: loops_ok_nth)

lemma inv_task:
  "service_inv s \<Longrightarrow> sv_task s = Some i \<Longrightarrow>
     sv_cancel s = Some i \<and> sv_stopping s = None \<and> i < length (sv_loops s) \<and> \<not> al_cancel (sv_loops s ! i)"
  unfolding service_inv_def by (elim conjE) simp

lemma inv_stopping:
  "service_inv s \<Longrightarrow> sv_stopping s = Some i \<Longrightarrow> sv_cancel s = None \<and> sv_task s = None \<and> i < length (sv_loops s)"
  unfolding service_inv_def by simp

lemma inv_cancel: "service_inv s \<Longrightarrow> sv_cancel s = sv_task s"
  unfolding service_inv_def by (elim conjE)

lemma inv_last: "service_inv s \<Longrightarrow> sv_task s \<noteq> None \<or> sv_stopping s \<noteq> None \<or> sv_last s = Stopped"
  unfolding service_inv_def by (elim conjE)

lemma inv_no_task: "service_inv s \<Longrightarrow> sv_task s = None \<Longrightarrow> sv_cancel s = None \<and> (sv_stopping s = None \<longrightarrow> sv_last s = Stopped)"
  using inv_cancel [of s] inv_last [of s] by auto

lemma inv_loops_ok: "service_inv s \<Longrightarrow> loops_ok (sv_loops s)"
  unfolding service_inv_def by simp

text \<open>A loop that still runs or has something to forward belongs to a task that is known.\<close>

lemma known_loop:
  assumes "service_inv s" "i < length (sv_loops s)" "al_pc (sv_loops s ! i) \<noteq> Returned"
  shows "sv_task s = Some i \<or> sv_stopping s = Some i"
  using assms by (simp add: service_inv_def)

lemma pending_loop:
  assumes "service_inv s" "i < length (sv_loops s)" "al_hand (sv_loops s ! i) \<noteq> None \<or> al_queue (sv_loops s ! i) \<noteq> []"
  shows "al_pc (sv_loops s ! i) \<noteq> Returned"
  using assms(3) inv_loops [OF assms(1,2)] by (auto simp: loop_ok_def)

lemma cancel_update: "al_cancel l = al_cancel (ls ! i) \<Longrightarrow> al_cancel (ls[i := l] ! j) = al_cancel (ls ! j)"
  by (cases "i < length ls") (auto simp: nth_list_update list_update_beyond)

lemma inv_update:
  assumes inv: "service_inv s" and i: "i < length (sv_loops s)" "al_pc (sv_loops s ! i) \<noteq> Returned"
    and l: "al_cancel l = al_cancel (sv_loops s ! i)" "loop_ok l" "loop_cancelled l"
  shows "service_inv (s\<lparr>sv_loops := (sv_loops s)[i := l]\<rparr>)"
proof -
  have "sv_task s = Some j \<or> sv_stopping s = Some j"
    if "j < length (sv_loops s)" "al_pc ((sv_loops s)[i := l] ! j) \<noteq> Returned" for j
    using known_loop [OF inv that(1)] known_loop [OF inv i] that(2) by (cases "i = j") simp_all
  moreover have "loops_ok ((sv_loops s)[i := l])" using inv l by (simp add: service_inv_def loops_ok_update)
  ultimately show ?thesis using inv unfolding service_inv_def by (simp add: cancel_update l(1))
qed

lemma inv_emit:
  assumes "service_inv s" "sv_task s \<noteq> None \<or> sv_stopping s \<noteq> None" "emit st s = Some s'"
  shows "service_inv s'"
proof -
  have "s' = s\<lparr>sv_last := st\<rparr>" using assms(3) by (simp add: emit_def split: if_splits)
  then show ?thesis using assms(1,2) unfolding service_inv_def by simp blast
qed

lemma inv_turn:
  assumes "service_inv s" "run_accept_loop i t s = Some s'"
  shows "service_inv s'"
proof -
  obtain r where i: "i < length (sv_loops s)" and "loop_turn t (sv_loops s ! i) = Some r"
    using assms(2) by (simp add: run_accept_loop_def split: if_splits option.splits)
  then obtain e l where l: "loop_turn t (sv_loops s ! i) = Some (e, l)" by (cases r) simp
  then have s': "s' = s\<lparr>sv_loops := (sv_loops s)[i := l]\<rparr> \<or> (\<exists>st. emit st (s\<lparr>sv_loops := (sv_loops s)[i := l]\<rparr>) = Some s')"
    using assms(2) i by (cases e) (auto simp: run_accept_loop_def)
  note f = loop_turn_facts [OF l]
  have inv: "service_inv (s\<lparr>sv_loops := (sv_loops s)[i := l]\<rparr>)"
    using f loop_turn_cancelled [OF l] inv_loops [OF assms(1) i] by (intro inv_update assms(1) i) auto
  moreover have "sv_task s \<noteq> None \<or> sv_stopping s \<noteq> None" using known_loop [OF assms(1) i f(1)] by auto
  ultimately show ?thesis using s' inv_emit [OF inv] by auto
qed

lemma inv_hand:
  assumes "service_inv s" "i < length (sv_loops s)" "al_hand (sv_loops s ! i) \<noteq> None \<or> al_queue (sv_loops s ! i) \<noteq> []"
  shows "service_inv (s\<lparr>sv_loops := (sv_loops s)[i := (sv_loops s ! i)\<lparr>al_queue := q, al_hand := h\<rparr>]\<rparr>)"
    "sv_task s \<noteq> None \<or> sv_stopping s \<noteq> None"
proof -
  have ok: "loop_ok (sv_loops s ! i)" "loop_cancelled (sv_loops s ! i)"
    using inv_loops [OF assms(1,2)] by auto
  then show "service_inv (s\<lparr>sv_loops := (sv_loops s)[i := (sv_loops s ! i)\<lparr>al_queue := q, al_hand := h\<rparr>]\<rparr>)"
    using assms pending_loop [OF assms] by (intro inv_update) (auto simp: loop_ok_def loop_cancelled_def)
  show "sv_task s \<noteq> None \<or> sv_stopping s \<noteq> None" using known_loop [OF assms(1,2) pending_loop [OF assms]] by auto
qed

lemma inv_take: "service_inv s \<Longrightarrow> take_event i s = Some s' \<Longrightarrow> service_inv s'"
  using inv_hand(1) [of s i] by (auto simp: take_event_def split: if_splits option.splits list.splits)

lemma inv_forward:
  assumes "service_inv s" "forward i s = Some s'"
  shows "service_inv s'"
proof -
  obtain ev where i: "i < length (sv_loops s)" "al_hand (sv_loops s ! i) = Some ev"
    and e: "emit (translate_event ev) (s\<lparr>sv_loops := (sv_loops s)[i := (sv_loops s ! i)\<lparr>al_hand := None\<rparr>]\<rparr>) = Some s'"
    using assms(2) by (auto simp: forward_def split: if_splits option.splits)
  have "(sv_loops s ! i)\<lparr>al_hand := None\<rparr> = (sv_loops s ! i)\<lparr>al_queue := al_queue (sv_loops s ! i), al_hand := None\<rparr>"
    by simp
  then show ?thesis
    using inv_hand(1) [OF assms(1) i(1), of None "al_queue (sv_loops s ! i)"] inv_hand(2) [OF assms(1) i(1)] i(2) inv_emit [OF _ _ e]
    by simp
qed

lemma inv_start:
  assumes inv: "service_inv s" and s': "start s = Some s'"
  shows "service_inv s'"
proof (cases "sv_task s")
  case None
  with s' have n: "sv_stopping s = None" and s': "s' = s\<lparr>sv_loops := sv_loops s @ [new_loop],
      sv_task := Some (length (sv_loops s)), sv_cancel := Some (length (sv_loops s))\<rparr>"
    by (auto simp: start_def split: if_splits)
  have old: "al_pc (sv_loops s ! i) = Returned" if "i < length (sv_loops s)" for i
    using known_loop [OF inv that] None n by auto
  have "loops_ok (sv_loops s @ [new_loop])" using inv_loops_ok [OF inv]
    by (auto simp: new_loop_def loops_ok_def loop_ok_def loop_cancelled_def)
  moreover have "length (sv_loops s) = i"
    if "i < Suc (length (sv_loops s))" "al_pc ((sv_loops s @ [new_loop]) ! i) \<noteq> Returned" for i
    using old [of i] that by (cases "i < length (sv_loops s)") (simp_all add: nth_append)
  ultimately show ?thesis unfolding service_inv_def s' by (simp add: n) (simp add: new_loop_def)
next
  case (Some i)
  then have "s' = s" using s' by (simp add: start_def split: if_splits)
  then show ?thesis using inv by simp
qed

lemma inv_stop_begin:
  assumes inv: "service_inv s" and s': "stop_begin s = Some s'"
  shows "service_inv s'"
proof (cases "sv_task s")
  case None
  then have s': "s' = s\<lparr>sv_cancel := None, sv_last := Stopped\<rparr>" and n: "sv_stopping s = None"
    using s' inv_no_task [OF inv None] by (simp_all add: stop_begin_def send_cancel_def split: if_splits)
  have "al_pc (sv_loops s ! j) = Returned" if "j < length (sv_loops s)" for j
    using known_loop [OF inv that] None n by auto
  then show ?thesis unfolding service_inv_def s' by (simp add: None n inv_loops_ok [OF inv])
next
  case (Some i)
  note t = inv_task [OF inv Some]
  let ?ls = "(sv_loops s)[i := (sv_loops s ! i)\<lparr>al_cancel := True\<rparr>]"
  have s': "s' = s\<lparr>sv_loops := ?ls, sv_cancel := None, sv_task := None, sv_stopping := Some i\<rparr>"
    using s' Some t by (simp add: stop_begin_def send_cancel_def split: if_splits)
  have "i = j" if "j < length (sv_loops s)" "al_pc (?ls ! j) \<noteq> Returned" for j
    using known_loop [OF inv that(1)] that(2) Some t by (cases "i = j") simp_all
  moreover have "loops_ok ?ls"
    using inv_loops [OF inv, of i] t by (intro loops_ok_update inv_loops_ok [OF inv]) (auto simp: loop_ok_def loop_cancelled_def)
  ultimately show ?thesis unfolding service_inv_def s' by (simp add: t)
qed

lemma inv_stop_joined:
  assumes inv: "service_inv s" and s': "stop_end False s = Some s'"
  shows "service_inv s'"
proof -
  obtain i where i: "sv_stopping s = Some i" "al_pc (sv_loops s ! i) = Returned"
    and s': "s' = s\<lparr>sv_stopping := None, sv_last := Stopped\<rparr>"
    using s' by (auto simp: stop_end_def split: option.splits if_splits)
  note t = inv_stopping [OF inv i(1)]
  have "al_pc (sv_loops s ! j) = Returned" if "j < length (sv_loops s)" for j
    using known_loop [OF inv that] i t by auto
  then show ?thesis unfolding service_inv_def s' by (simp add: t inv_loops_ok [OF inv])
qed

lemma inv_act: "service_inv s \<Longrightarrow> service_act a s = Some s' \<Longrightarrow> a \<noteq> Stop_Timeout \<Longrightarrow> service_inv s'"
  by (cases a; simp add: service_act_def)
    (blast intro: inv_turn inv_take inv_forward inv_start inv_stop_begin inv_stop_joined)+

lemma service_new_inv: "service_inv service_new"
  by (simp add: service_inv_def service_new_def loops_ok_def)

lemma steps_inv: "service_steps as s s' \<Longrightarrow> service_inv s \<Longrightarrow> Stop_Timeout \<notin> set as \<Longrightarrow> service_inv s'"
  by (induction rule: service_steps.induct) (auto dest: inv_act)

text \<open>So at most one loop runs, and after a stop the state stays \<open>Stopped\<close>.\<close>

lemma one_loop:
  assumes "service_steps as service_new s" "Stop_Timeout \<notin> set as"
  shows "(\<forall>i < length (sv_loops s). \<forall>j < length (sv_loops s).
      al_pc (sv_loops s ! i) \<noteq> Returned \<and> al_pc (sv_loops s ! j) \<noteq> Returned \<longrightarrow> i = j) \<and>
    (sv_task s = None \<and> sv_stopping s = None \<longrightarrow> sv_last s = Stopped \<and> (\<forall>l \<in> set (sv_loops s). al_pc l = Returned))"
proof -
  have inv: "service_inv s" by (rule steps_inv [OF assms(1) service_new_inv assms(2)])
  have "i = j" if "i < length (sv_loops s)" "j < length (sv_loops s)"
      "al_pc (sv_loops s ! i) \<noteq> Returned" "al_pc (sv_loops s ! j) \<noteq> Returned" for i j
    using known_loop [OF inv that(1,3)] known_loop [OF inv that(2,4)] inv_task [OF inv] by auto
  moreover have "al_pc l = Returned" if "sv_task s = None" "sv_stopping s = None" "l \<in> set (sv_loops s)" for l
    using known_loop [OF inv] that by (auto simp: in_set_conv_nth)
  ultimately show ?thesis using inv_no_task [OF inv] by blast
qed

section \<open>A stop that waits for itself\<close>

text \<open>The call of stop holds the mutex while it waits. A loop that has a state to emit waits for the mutex.\<close>

definition about_to_emit :: "accept_loop \<Rightarrow> bool" where
  "about_to_emit l = (case loop_turn Go l of Some (Some _, _) \<Rightarrow> True | _ \<Rightarrow> False)"

lemma about_to_emit_turn: "about_to_emit l \<Longrightarrow> loop_turn t l = Some (e, l') \<Longrightarrow> t = Go \<and> e \<noteq> None"
  by (auto simp: about_to_emit_def loop_turn_def split: loop_pc.splits turn.splits if_splits option.splits)

definition stuck :: "nat \<Rightarrow> service \<Rightarrow> bool" where
  "stuck i s \<longleftrightarrow> sv_stopping s = Some i \<and> i < length (sv_loops s) \<and> about_to_emit (sv_loops s ! i)"

lemma stuck_act:
  assumes "stuck i s" "service_act a s = Some s'" "a \<noteq> Stop_Timeout"
  shows "stuck i s' \<and> sv_last s' = sv_last s \<and> al_pc (sv_loops s' ! i) = al_pc (sv_loops s ! i)"
proof -
  have s: "sv_stopping s = Some i" "i < length (sv_loops s)" "about_to_emit (sv_loops s ! i)"
    using assms(1) by (auto simp: stuck_def)
  have emits: "emit st (s\<lparr>sv_loops := ls\<rparr>) = None" for st ls using s(1) by (simp add: emit_def)
  have other: "stuck i s' \<and> sv_last s' = sv_last s \<and> al_pc (sv_loops s' ! i) = al_pc (sv_loops s ! i)"
    if "s' = s\<lparr>sv_loops := (sv_loops s)[j := l]\<rparr>" "j \<noteq> i \<or> about_to_emit l \<and> al_pc l = al_pc (sv_loops s ! i)" for j l
    using that s by (cases "j = i") (auto simp: stuck_def)
  have going: "al_pc (sv_loops s ! i) \<noteq> Returned" using s(3) by (auto simp: about_to_emit_def loop_turn_def)
  show ?thesis
  proof (cases a)
    case (Turn_Of j t)
    then obtain e l where l: "loop_turn t (sv_loops s ! j) = Some (e, l)" and "e = None" "s' = s\<lparr>sv_loops := (sv_loops s)[j := l]\<rparr>"
      using assms(2) emits by (auto simp: service_act_def run_accept_loop_def split: if_splits option.splits)
    then show ?thesis using about_to_emit_turn [OF s(3)] by (intro other) auto
  next
    case (Take_Event j)
    then obtain q h where "s' = s\<lparr>sv_loops := (sv_loops s)[j := (sv_loops s ! j)\<lparr>al_queue := q, al_hand := h\<rparr>]\<rparr>"
      using assms(2) by (auto simp: service_act_def take_event_def split: if_splits option.splits list.splits)
    then show ?thesis by (rule other) (use s(3) in \<open>auto simp: about_to_emit_def loop_turn_def split: loop_pc.splits\<close>)
  qed (use assms(2,3) s emits going in \<open>auto simp: service_act_def start_def stop_begin_def stop_end_def forward_def
        split: if_splits option.splits\<close>)
qed

text \<open>From there on, whatever the other tasks do, only the timeout ends the stop; until then the loop does not move.\<close>

lemma stuck_steps:
  "service_steps as s s' \<Longrightarrow> stuck i s \<Longrightarrow> Stop_Timeout \<notin> set as \<Longrightarrow>
     stuck i s' \<and> sv_last s' = sv_last s \<and> al_pc (sv_loops s' ! i) = al_pc (sv_loops s ! i)"
proof (induction rule: service_steps.induct)
  case (steps_more a s s' as s'')
  then show ?case using stuck_act [of i s a s'] by auto
qed simp

lemma stuck_after_timeout:
  assumes "stuck i s"
  shows "\<exists>s'. service_steps [Stop_Timeout, Turn_Of i Go] s s' \<and> sv_last s' \<noteq> Stopped"
proof -
  obtain st l where l: "loop_turn Go (sv_loops s ! i) = Some (Some st, l)" and st: "st \<noteq> Stopped"
    using assms by (auto simp: stuck_def about_to_emit_def loop_turn_def split: option.splits prod.splits loop_pc.splits if_splits sum.splits)
  have "acts_run [Stop_Timeout, Turn_Of i Go] s = Some (s\<lparr>sv_stopping := None, sv_last := st, sv_loops := (sv_loops s)[i := l]\<rparr>)"
    using assms l by (simp add: stuck_def service_act_def stop_end_def run_accept_loop_def emit_def)
  then show ?thesis using st unfolding acts_run_steps by auto
qed

text \<open>A stop while adb is starting. After the timeout the loop emits \<open>Listening\<close>, and a new start runs a second loop.\<close>

definition stop_while_binding :: "service_act list" where
  "stop_while_binding = [Start_Service, Turn_Of 0 Go, Turn_Of 0 Go, Stop_Service, Turn_Of 0 (Bound (Inr ()))]"

lemma stop_while_binding_stuck:
  "\<exists>s. service_steps stop_while_binding service_new s \<and> stuck 0 s"
  by (rule run_exists) code_simp

lemma listening_after_stop:
  "\<exists>s. service_steps (stop_while_binding @ [Stop_Timeout, Turn_Of 0 Go, Start_Service]) service_new s \<and>
     map al_pc (sv_loops s) = [Configuring, At_Top]"
  "\<exists>s. service_steps (stop_while_binding @ [Stop_Timeout, Turn_Of 0 Go]) service_new s \<and>
     sv_task s = None \<and> sv_stopping s = None \<and> sv_last s = Listening"
  by (rule run_exists, code_simp)+

text \<open>A stop before the loop has begun its work.\<close>

lemma stop_at_once:
  "\<exists>s. service_steps [Start_Service, Stop_Service, Turn_Of 0 Go, Stop_Joined] service_new s \<and>
     sv_task s = None \<and> sv_stopping s = None"
  by (rule run_exists) code_simp

end
