(* ===== verification/Launch.thy ===== *)
theory Launch
  imports Service
begin

text \<open>
  How the desktop application is launched: the \<^verbatim>\<open>Run\<close> entry of the registry and the scheduled task
  (\<^verbatim>\<open>apps/penflow-gui/src-tauri/src/os.rs\<close>), and the commands and the start of the program that use them
  (\<^verbatim>\<open>main.rs\<close>). Calls to Windows are parameters: each may fail, and what a call does that succeeds is
  written out. The windows, the tray icon and the wiring of Tauri are left out.
\<close>

section \<open>Command lines\<close>

definition needs_quote :: "string \<Rightarrow> bool" where
  "needs_quote a \<longleftrightarrow> a = [] \<or> list_ex (\<lambda>c. is_space c \<or> c = CHR 0x22) a"

definition escape_char :: "char \<Rightarrow> string" where
  "escape_char c = (if c = CHR 0x5C then [CHR 0x5C, CHR 0x5C] else if c = CHR 0x22 then [CHR 0x5C, CHR 0x22] else [c])"

definition quote_arg :: "string \<Rightarrow> string" where
  "quote_arg a = (if needs_quote a then CHR 0x22 # concat (map escape_char a) @ [CHR 0x22] else a)"

fun join_spaces :: "string list \<Rightarrow> string" where
  "join_spaces [] = []"
| "join_spaces [a] = a"
| "join_spaces (a # as) = a @ CHR 0x20 # join_spaces as"

definition serialize_args :: "string list \<Rightarrow> string" where
  "serialize_args args = join_spaces (map quote_arg args)"

text \<open>
  How Windows splits a command line (\<^verbatim>\<open>CommandLineToArgvW\<close>): a quote toggles the quoted state, backslashes
  before a quote count in pairs, and an odd one makes the quote literal. The arguments are the quoted state,
  the backslashes read last, and the argument so far. Two adjacent quotes do not occur below.
\<close>

fun flush :: "nat \<Rightarrow> string option \<Rightarrow> string option" where
  "flush 0 cur = cur"
| "flush (Suc n) cur = Some ((case cur of Some a \<Rightarrow> a | None \<Rightarrow> []) @ replicate (Suc n) CHR 0x5C)"

definition extend :: "string option \<Rightarrow> string \<Rightarrow> string option" where
  "extend cur s = Some ((case cur of Some a \<Rightarrow> a | None \<Rightarrow> []) @ s)"

fun argv_from :: "bool \<Rightarrow> nat \<Rightarrow> string option \<Rightarrow> string \<Rightarrow> string list" where
  "argv_from q n cur [] = (case flush n cur of Some a \<Rightarrow> [a] | None \<Rightarrow> [])"
| "argv_from q n cur (c # cs) =
     (if c = CHR 0x5C then argv_from q (Suc n) cur cs
      else if c = CHR 0x22 then
        (if even n then argv_from (\<not> q) 0 (extend cur (replicate (n div 2) CHR 0x5C)) cs
         else argv_from q 0 (extend cur (replicate (n div 2) CHR 0x5C @ [CHR 0x22])) cs)
      else if \<not> q \<and> (c = CHR 0x20 \<or> c = CHR 0x09) then
        (case flush n cur of Some a \<Rightarrow> a # argv_from q 0 None cs | None \<Rightarrow> argv_from q 0 None cs)
      else argv_from q 0 (extend cur (replicate n CHR 0x5C @ [c])) cs)"

definition argv_of :: "string \<Rightarrow> string list" where
  "argv_of params = argv_from False 0 None params"

text \<open>What arrives: in a quoted argument, backslashes are doubled unless a quote or the end follows.\<close>

fun arrives :: "nat \<Rightarrow> string \<Rightarrow> string" where
  "arrives k [] = replicate k CHR 0x5C"
| "arrives k (c # cs) =
     (if c = CHR 0x5C then arrives (Suc k) cs
      else if c = CHR 0x22 then replicate k CHR 0x5C @ CHR 0x22 # arrives 0 cs
      else replicate (2 * k) CHR 0x5C @ c # arrives 0 cs)"

lemma argv_quoted:
  "argv_from True (2 * k) (Some acc) (concat (map escape_char a) @ CHR 0x22 # rest) =
     argv_from False 0 (Some (acc @ arrives k a)) rest"
proof (induction a arbitrary: k acc)
  case (Cons c cs)
  show ?case
    using Cons.IH [of "Suc k"] Cons.IH [of 0]
    by (auto simp: escape_char_def extend_def simp del: replicate.simps)
qed (simp add: extend_def)

lemma argv_plain:
  assumes "list_all (\<lambda>c. \<not> is_space c \<and> c \<noteq> CHR 0x22) a" "rest = [] \<or> (\<exists>r. rest = CHR 0x20 # r)"
    "a \<noteq> [] \<or> n > 0 \<or> cur \<noteq> None"
  shows "argv_from False n cur (a @ rest) =
    ((case cur of Some b \<Rightarrow> b | None \<Rightarrow> []) @ replicate n CHR 0x5C @ a) # argv_from False 0 None (drop 1 rest)"
  using assms
proof (induction a arbitrary: n cur)
  case Nil
  then show ?case by (cases n) (auto split: option.splits)
next
  case (Cons c cs)
  have c: "c \<noteq> CHR 0x20" "c \<noteq> CHR 0x09" "c \<noteq> CHR 0x22" using Cons.prems(1) by (auto simp: is_space_def)
  then show ?case
    using Cons.prems Cons.IH [of "Suc n" cur] Cons.IH [of 0 "extend cur (replicate n CHR 0x5C @ [c])"]
    by (cases "c = CHR 0x5C") (auto simp: extend_def replicate_app_Cons_same)
qed

definition seen_arg :: "string \<Rightarrow> string" where
  "seen_arg a = (if needs_quote a then arrives 0 a else a)"

lemma argv_arg:
  assumes "rest = [] \<or> (\<exists>r. rest = CHR 0x20 # r)"
  shows "argv_of (quote_arg a @ rest) = seen_arg a # argv_of (drop 1 rest)"
proof (cases "needs_quote a")
  case True
  then show ?thesis using argv_quoted [of 0 "[]" a rest] assms
    by (auto simp: argv_of_def quote_arg_def seen_arg_def extend_def)
next
  case False
  then have "list_all (\<lambda>c. \<not> is_space c \<and> c \<noteq> CHR 0x22) a" "a \<noteq> []"
    by (auto simp: needs_quote_def list_all_iff list_ex_iff)
  then show ?thesis using argv_plain [OF _ assms, of a 0 None] False by (simp add: argv_of_def quote_arg_def seen_arg_def)
qed

lemma argv_serialize: "argv_of (serialize_args args) = map seen_arg args"
proof (induction args)
  case (Cons a as)
  show ?case
  proof (cases as)
    case Nil
    then show ?thesis using argv_arg [of "[]" a] by (simp add: serialize_args_def argv_of_def)
  next
    case (Cons b bs)
    then show ?thesis using argv_arg [of "CHR 0x20 # serialize_args as" a] Cons.IH by (simp add: serialize_args_def)
  qed
qed (simp add: serialize_args_def argv_of_def)

lemma arrives_same: "CHR 0x5C \<notin> set a \<Longrightarrow> arrives 0 a = a"
  by (induction a) auto

lemma seen_arg_same: "CHR 0x5C \<notin> set a \<Longrightarrow> seen_arg a = a"
  by (simp add: seen_arg_def arrives_same)

section \<open>Registry and task scheduler\<close>

datatype os_call =
    Reg_Open
  | Reg_Set string
  | Reg_Delete
  | Reg_Close
  | Schtasks "string list"
  | Runas_Schtasks string
  | Runas_Self
  | Runas_Other string string

text \<open>\<open>oa_fails\<close>: whether a call fails, given those before it. \<open>oa_exe\<close> is the path of the program, if it is found.\<close>

record os_api =
  oa_fails :: "os_call list \<Rightarrow> os_call \<Rightarrow> bool"
  oa_exe :: "string option"
  oa_elevated :: bool

text \<open>The value under the \<^verbatim>\<open>Run\<close> key, and the schedule and command of the task.\<close>

record os_world =
  ow_run :: "string option"
  ow_task :: "(string \<times> string) option"
  ow_calls :: "os_call list"

fun arg_after :: "string \<Rightarrow> string list \<Rightarrow> string" where
  "arg_after k (a # b # as) = (if a = k then b else arg_after k (b # as))"
| "arg_after k _ = []"

definition task_effect :: "string list \<Rightarrow> (string \<times> string) option \<Rightarrow> (string \<times> string) option" where
  "task_effect args t = (case args of
     [] \<Rightarrow> t
   | a # _ \<Rightarrow> if a = ''/Create'' then Some (arg_after ''/SC'' args, arg_after ''/TR'' args) else if a = ''/Delete'' then None else t)"

definition os_effect :: "os_call \<Rightarrow> os_world \<Rightarrow> os_world" where
  "os_effect c w = (case c of
     Reg_Set v \<Rightarrow> w\<lparr>ow_run := Some v\<rparr>
   | Reg_Delete \<Rightarrow> w\<lparr>ow_run := None\<rparr>
   | Schtasks args \<Rightarrow> w\<lparr>ow_task := task_effect args (ow_task w)\<rparr>
   | Runas_Schtasks params \<Rightarrow> w\<lparr>ow_task := task_effect (argv_of params) (ow_task w)\<rparr>
   | _ \<Rightarrow> w)"

definition os_do :: "os_api \<Rightarrow> os_call \<Rightarrow> os_world \<Rightarrow> bool \<times> os_world" where
  "os_do api c w =
     (if oa_fails api (ow_calls w) c then (False, w\<lparr>ow_calls := ow_calls w @ [c]\<rparr>)
      else (True, os_effect c (w\<lparr>ow_calls := ow_calls w @ [c]\<rparr>)))"

definition quoted :: "string \<Rightarrow> string" where
  "quoted s = CHR 0x22 # s @ [CHR 0x22]"

text \<open>The result is whether it succeeded. A missing path of the program leaves at once, with the key open.\<close>

definition set_autostart :: "os_api \<Rightarrow> bool \<Rightarrow> os_world \<Rightarrow> bool \<times> os_world" where
  "set_autostart api enabled w =
     (case os_do api Reg_Open w of
        (False, w) \<Rightarrow> (False, w)
      | (True, w) \<Rightarrow>
          (if enabled then
             (case oa_exe api of
                None \<Rightarrow> (False, w)
              | Some exe \<Rightarrow> let (ok, w) = os_do api (Reg_Set (quoted exe)) w in (ok, snd (os_do api Reg_Close w)))
           else let (ok, w) = os_do api Reg_Delete w in (ok, snd (os_do api Reg_Close w))))"

definition query_args :: "string list" where
  "query_args = [''/Query'', ''/TN'', ''Penflow'']"

definition has_admin_task :: "os_api \<Rightarrow> os_world \<Rightarrow> bool \<times> os_world" where
  "has_admin_task api w = (let (ok, w) = os_do api (Schtasks query_args) w in (ok \<and> ow_task w \<noteq> None, w))"

definition run_schtasks :: "os_api \<Rightarrow> string list \<Rightarrow> os_world \<Rightarrow> bool \<times> os_world" where
  "run_schtasks api args w =
     (if oa_elevated api then os_do api (Schtasks args) w else os_do api (Runas_Schtasks (serialize_args args)) w)"

definition create_args :: "bool \<Rightarrow> string \<Rightarrow> string list" where
  "create_args with_logon_trigger tr =
     (if with_logon_trigger then [''/Create'', ''/TN'', ''Penflow'', ''/TR'', tr, ''/SC'', ''ONLOGON'', ''/RL'', ''HIGHEST'', ''/F'']
      else [''/Create'', ''/TN'', ''Penflow'', ''/TR'', tr, ''/SC'', ''ONCE'', ''/ST'', ''00:00'', ''/SD'', ''01/01/2099'',
        ''/RL'', ''HIGHEST'', ''/F''])"

definition create_admin_task :: "os_api \<Rightarrow> bool \<Rightarrow> os_world \<Rightarrow> bool \<times> os_world" where
  "create_admin_task api with_logon_trigger w =
     (case oa_exe api of
        None \<Rightarrow> (False, w)
      | Some exe \<Rightarrow> run_schtasks api (create_args with_logon_trigger (quoted exe)) w)"

definition delete_admin_task :: "os_api \<Rightarrow> os_world \<Rightarrow> bool \<times> os_world" where
  "delete_admin_task api w =
     (case has_admin_task api w of
        (False, w) \<Rightarrow> (True, w)
      | (True, w) \<Rightarrow> run_schtasks api [''/Delete'', ''/TN'', ''Penflow'', ''/F''] w)"

definition run_admin_task :: "os_api \<Rightarrow> os_world \<Rightarrow> bool \<times> os_world" where
  "run_admin_task api w = os_do api (Schtasks [''/Run'', ''/TN'', ''Penflow'']) w"

definition relaunch_elevated :: "os_api \<Rightarrow> os_world \<Rightarrow> bool \<times> os_world" where
  "relaunch_elevated api w = (case oa_exe api of None \<Rightarrow> (False, w) | Some _ \<Rightarrow> os_do api Runas_Self w)"

section \<open>Commands and start\<close>

datatype gui_error =
    Invalid_Settings settings_error
  | Save_Failed io_error
  | Autostart_Cleanup_Failed
  | Task_Create_Failed
  | Task_Delete_Failed
  | Autostart_Toggle_Failed
  | Vdd_Settings_Failed io_error

definition launchers :: "os_api \<Rightarrow> settings \<Rightarrow> os_world \<Rightarrow> (gui_error + unit) \<times> os_world" where
  "launchers api new w =
     (if st_run_as_admin new then
        (case set_autostart api False w of
           (False, w) \<Rightarrow> (Inl Autostart_Cleanup_Failed, w)
         | (True, w) \<Rightarrow>
             (case create_admin_task api (st_autostart new) w of
                (False, w) \<Rightarrow> (Inl Task_Create_Failed, w)
              | (True, w) \<Rightarrow> (Inr (), w)))
      else
        (case delete_admin_task api w of
           (False, w) \<Rightarrow> (Inl Task_Delete_Failed, w)
         | (True, w) \<Rightarrow>
             (case set_autostart api (st_autostart new) w of
                (False, w) \<Rightarrow> (Inl Autostart_Toggle_Failed, w)
              | (True, w) \<Rightarrow> (Inr (), w))))"

text \<open>\<open>gs_settings\<close> are the shared settings in memory.\<close>

record gui_state =
  gs_settings :: settings
  gs_os :: os_world
  gs_fs :: fs

record gui_env =
  ge_os :: os_api
  ge_fs :: fs_api
  ge_to_json :: "settings \<Rightarrow> string option"
  ge_appdata :: "string option"
  ge_devices :: "vdd_error + discovered_device list"

definition is_vdd_installed :: "gui_env \<Rightarrow> bool" where
  "is_vdd_installed env = (case detect (ge_devices env) of Inr (Some _) \<Rightarrow> True | _ \<Rightarrow> False)"

definition save_settings :: "gui_env \<Rightarrow> settings \<Rightarrow> gui_state \<Rightarrow> (gui_error + unit) \<times> gui_state" where
  "save_settings env new g =
     (case validate new of
        Inl e \<Rightarrow> (Inl (Invalid_Settings e), g)
      | Inr _ \<Rightarrow>
          (case save (ge_to_json env) (ge_fs env) (ge_appdata env) new (gs_fs g) of
             (Inl e, f) \<Rightarrow> (Inl (Save_Failed e), g\<lparr>gs_fs := f\<rparr>)
           | (Inr _, f) \<Rightarrow>
               (case launchers (ge_os env) new (gs_os g) of
                  (Inl e, w) \<Rightarrow> (Inl e, \<lparr>gs_settings = new, gs_os = w, gs_fs = f\<rparr>)
                | (Inr _, w) \<Rightarrow>
                    if is_vdd_installed env then
                      (case write_installed_vdd_settings (ge_fs env) new f of
                         (Inl e, f) \<Rightarrow> (Inl (Vdd_Settings_Failed e), \<lparr>gs_settings = new, gs_os = w, gs_fs = f\<rparr>)
                       | (Inr _, f) \<Rightarrow> (Inr (), \<lparr>gs_settings = new, gs_os = w, gs_fs = f\<rparr>))
                    else (Inr (), \<lparr>gs_settings = new, gs_os = w, gs_fs = f\<rparr>))))"

text \<open>The hand-over to an elevated copy, at the command \<^verbatim>\<open>relaunch_as_admin\<close> and at the start.\<close>

definition hand_over :: "os_api \<Rightarrow> os_world \<Rightarrow> bool \<times> os_world" where
  "hand_over api w =
     (case has_admin_task api w of
        (False, w) \<Rightarrow> relaunch_elevated api w
      | (True, w) \<Rightarrow> (case run_admin_task api w of (True, w) \<Rightarrow> (True, w) | (False, w) \<Rightarrow> relaunch_elevated api w))"

definition sync_launch :: "os_api \<Rightarrow> settings \<Rightarrow> os_world \<Rightarrow> bool \<times> os_world" where
  "sync_launch api initial w =
     (let w = snd (set_autostart api (st_autostart initial) w) in
      if st_run_as_admin initial \<and> \<not> oa_elevated api then hand_over api w else (False, w))"

text \<open>A virtual display that nothing holds is turned off at the start.\<close>

definition startup_vdd :: "service_env \<Rightarrow> pnp_world \<Rightarrow> pnp_world" where
  "startup_vdd env w =
     (case detect (se_devices env (pw_log w)) of
        Inr (Some ctrl) \<Rightarrow>
          (let (r, w) = list_monitors_now env w in
           if list_ex (\<lambda>m. mi_attached m \<and> mi_looks_virtual m) (or_empty r) then
             (case vdd_disable (se_shutdown env) (se_pnp env) ctrl w of
                (_, ctrl, w) \<Rightarrow> drop_controller (se_shutdown env) (se_pnp env) ctrl w)
           else w)
      | _ \<Rightarrow> w)"

text \<open>The program up to its windows: the settings it starts with, unless it handed over and ends.\<close>

definition gui_main :: "os_api \<Rightarrow> service_env \<Rightarrow> settings \<Rightarrow> os_world \<Rightarrow> pnp_world \<Rightarrow> settings option \<times> os_world \<times> pnp_world" where
  "gui_main api env initial ow pw =
     (case sync_launch api initial ow of
        (True, ow) \<Rightarrow> (None, ow, pw)
      | (False, ow) \<Rightarrow> (Some initial, ow, startup_vdd env pw))"

section \<open>Facts\<close>

lemma os_do_ok: "\<not> oa_fails api (ow_calls w) c \<Longrightarrow> os_do api c w = (True, os_effect c (w\<lparr>ow_calls := ow_calls w @ [c]\<rparr>))"
  by (simp add: os_do_def)

lemma os_do_True: "os_do api c w = (True, w') \<Longrightarrow> w' = os_effect c (w\<lparr>ow_calls := ow_calls w @ [c]\<rparr>)"
  by (simp add: os_do_def split: if_splits)

lemma seen_create:
  "map seen_arg (create_args b (quoted exe)) = create_args b (seen_arg (quoted exe))"
  by (simp add: create_args_def seen_arg_def needs_quote_def is_space_def)

lemma task_effect_create: "hd tr = CHR 0x22 \<Longrightarrow> task_effect (create_args b tr) t = Some (if b then ''ONLOGON'' else ''ONCE'', tr)"
  by (auto simp: task_effect_def create_args_def)

lemma seen_quoted: "hd (seen_arg (quoted exe)) = CHR 0x22" "hd (quoted exe) = CHR 0x22"
  by (simp_all add: seen_arg_def quoted_def needs_quote_def)

lemma set_autostart_True:
  assumes "set_autostart api b w = (True, w')"
  shows "ow_task w' = ow_task w \<and> ow_run w' = (if b then map_option quoted (oa_exe api) else None) \<and> (b \<longrightarrow> oa_exe api \<noteq> None)"
  using assms by (auto simp: set_autostart_def os_do_def os_effect_def Let_def split: if_splits option.splits)

lemma run_schtasks_True:
  assumes "run_schtasks api args w = (True, w')"
  shows "ow_run w' = ow_run w \<and> ow_task w' = task_effect (if oa_elevated api then args else map seen_arg args) (ow_task w)"
  using assms by (auto simp: run_schtasks_def os_do_def os_effect_def argv_serialize split: if_splits)

lemma create_admin_task_True:
  assumes "create_admin_task api b w = (True, w')"
  shows "ow_run w' = ow_run w \<and> (\<exists>tr. ow_task w' = Some (if b then ''ONLOGON'' else ''ONCE'', tr))"
  using assms by (auto simp: create_admin_task_def seen_create seen_quoted task_effect_create split: option.splits if_splits dest!: run_schtasks_True)

definition query_works :: "os_api \<Rightarrow> bool" where
  "query_works api \<longleftrightarrow> (\<forall>xs. \<not> oa_fails api xs (Schtasks query_args))"

lemma has_admin_task_eq:
  "query_works api \<Longrightarrow> has_admin_task api w = (ow_task w \<noteq> None, w\<lparr>ow_calls := ow_calls w @ [Schtasks query_args]\<rparr>)"
  by (simp add: has_admin_task_def query_works_def os_do_ok os_effect_def task_effect_def query_args_def)

lemma delete_admin_task_True:
  assumes "query_works api" "delete_admin_task api w = (True, w')"
  shows "ow_run w' = ow_run w \<and> ow_task w' = None"
proof -
  have "map seen_arg [''/Delete'', ''/TN'', ''Penflow'', ''/F''] = [''/Delete'', ''/TN'', ''Penflow'', ''/F'']"
    by (simp add: seen_arg_same)
  then show ?thesis
    using assms by (cases "ow_task w") (auto simp: delete_admin_task_def has_admin_task_eq task_effect_def dest!: run_schtasks_True)
qed

text \<open>The table at \<^verbatim>\<open>save_settings\<close>: which launchers there are for which settings.\<close>

definition launch_table :: "os_api \<Rightarrow> settings \<Rightarrow> os_world \<Rightarrow> bool" where
  "launch_table api s w \<longleftrightarrow>
     ow_run w = (if \<not> st_run_as_admin s \<and> st_autostart s then map_option quoted (oa_exe api) else None) \<and>
     map_option fst (ow_task w) = (if st_run_as_admin s then Some (if st_autostart s then ''ONLOGON'' else ''ONCE'') else None)"

lemma launchers_table:
  assumes "query_works api" "launchers api s w = (Inr (), w')"
  shows "launch_table api s w'"
proof (cases "st_run_as_admin s")
  case True
  then obtain w1 where "set_autostart api False w = (True, w1)" "create_admin_task api (st_autostart s) w1 = (True, w')"
    using assms(2) by (auto simp: launchers_def split: prod.splits bool.splits)
  from set_autostart_True [OF this(1)] create_admin_task_True [OF this(2)] True show ?thesis
    by (auto simp: launch_table_def)
next
  case False
  then obtain w1 where "delete_admin_task api w = (True, w1)" "set_autostart api (st_autostart s) w1 = (True, w')"
    using assms(2) by (auto simp: launchers_def split: prod.splits bool.splits)
  from delete_admin_task_True [OF assms(1) this(1)] set_autostart_True [OF this(2)] False show ?thesis
    by (auto simp: launch_table_def)
qed

lemma write_vdd_other:
  assumes "write_installed_vdd_settings api s f = (r, f')" "q \<noteq> installed_vdd_settings_path"
  shows "fs_files f' q = fs_files f q"
  using assms by (auto simp: write_installed_vdd_settings_def write_vdd_settings_file_def fs_do_def fs_effect_def
      split: sum.splits prod.splits option.splits if_splits)

lemma settings_path_other: "settings_path appdata \<noteq> installed_vdd_settings_path"
proof
  assume "settings_path appdata = installed_vdd_settings_path"
  then have "last (settings_path appdata) = last installed_vdd_settings_path" by simp
  then show False by (simp add: settings_paths(1) installed_vdd_settings_path_def)
qed

text \<open>When the command succeeds, everything agrees with the new settings.\<close>

lemma save_settings_ok:
  assumes "query_works (ge_os env)" "save_settings env new g = (Inr (), g')"
  shows "validate new = Inr () \<and> gs_settings g' = new \<and> launch_table (ge_os env) new (gs_os g') \<and>
    (\<exists>json. ge_to_json env new = Some json \<and> fs_files (gs_fs g') (settings_path (ge_appdata env)) = Some json)"
proof -
  obtain f w where v: "validate new = Inr ()"
    and f: "save (ge_to_json env) (ge_fs env) (ge_appdata env) new (gs_fs g) = (Inr (), f)"
    and w: "launchers (ge_os env) new (gs_os g) = (Inr (), w)" "gs_os g' = w" "gs_settings g' = new"
    and g: "gs_fs g' = f \<or> (\<exists>r. write_installed_vdd_settings (ge_fs env) new f = (r, gs_fs g'))"
    using assms(2) by (auto simp: save_settings_def split: sum.splits prod.splits if_splits)
  obtain json where json: "ge_to_json env new = Some json"
    using f by (auto simp: save_def Let_def split: sum.splits prod.splits option.splits)
  have "fs_files f (settings_path (ge_appdata env)) = Some json"
    using save_atomic [of "ge_fs env" 5 "ge_appdata env" json "gs_fs g" "Inr ()" f] f
    by (simp add: save_eq [where to_json = "ge_to_json env", OF json]) (simp add: save_calls_def Let_def)
  moreover have "fs_files (gs_fs g') (settings_path (ge_appdata env)) = fs_files f (settings_path (ge_appdata env))"
    using g write_vdd_other settings_path_other by auto
  ultimately show ?thesis using v w json launchers_table [OF assms(1) w(1)] by simp
qed

text \<open>The start of the program writes the entry of the registry again for a user who runs it as administrator.\<close>

lemma sync_launch_entry:
  assumes "launch_table api s w" "st_run_as_admin s" "st_autostart s" "oa_exe api = Some exe" "\<forall>xs c. \<not> oa_fails api xs c"
  shows "ow_run (snd (sync_launch api s w)) = Some (quoted exe) \<and>
    map_option fst (ow_task (snd (sync_launch api s w))) = Some ''ONLOGON''"
  using assms
  by (auto simp: launch_table_def sync_launch_def set_autostart_def hand_over_def has_admin_task_def run_admin_task_def
      relaunch_elevated_def os_do_def os_effect_def task_effect_def query_args_def Let_def split: option.splits if_splits prod.splits)

text \<open>The key of the registry stays open when the path of the program is not found.\<close>

lemma set_autostart_open_key:
  "oa_exe api = None \<Longrightarrow> \<not> oa_fails api (ow_calls w) Reg_Open \<Longrightarrow>
     set_autostart api True w = (False, w\<lparr>ow_calls := ow_calls w @ [Reg_Open]\<rparr>)"
  by (simp add: set_autostart_def os_do_ok os_effect_def)

end
