(* ===== verification/Scenario.thy ===== *)
theory Scenario
  imports SessionRunProps InjectKeys VddResident MfPipeline ServiceLoop Launch
begin

text \<open>
  One concrete environment, in which the hypotheses of the properties hold: a Windows that accepts
  every call, a tablet that says hello and moves its pen, an adapter with one monitor, and an encoder
  that puts out an H.264 keyframe in every turn.
\<close>

definition demo_win32 :: win32_api where
  "demo_win32 = \<lparr>api_accepts = \<lambda>_ _. True, api_screen = \<lambda>_. (0, 0, 1920, 1080)\<rparr>"

definition demo_adapter :: adapter_desc where
  "demo_adapter = \<lparr>ad_name = ''GPU'', ad_luid_high = 0, ad_luid_low = 5, ad_vendor_id = 1, ad_device_id = 2, ad_flags = 0\<rparr>"

definition demo_output :: output_desc where
  "demo_output = \<lparr>od_device_name = ''D1'', od_coords = (0, 0, 4, 2), od_rotation = 1, od_attached = True\<rparr>"

definition demo_monitor :: monitor_info where
  "demo_monitor = make_monitor 0 demo_adapter 0 demo_output"

definition demo_frame_info :: frame_info where
  "demo_frame_info = \<lparr>fi_last_present_time = 1, fi_last_mouse_update_time = 1, fi_pointer_x = 1, fi_pointer_y = 1,
     fi_pointer_visible = True, fi_pointer_shape_buffer_size = 0\<rparr>"

definition demo_frame :: dda_frame where
  "demo_frame = \<lparr>df_id = 7, df_format = 87, df_info = demo_frame_info, df_shape = Inl E_INVALIDARG\<rparr>"

definition demo_dda :: dda_api where
  "demo_dda = \<lparr>dda_acquire = \<lambda>_ _. Frame_Acquired (Inr demo_frame), dda_release = \<lambda>_. True,
     dda_open_output = \<lambda>_. Inr (), dda_has_output5 = \<lambda>_. True, dda_duplicate1 = \<lambda>_. True,
     dda_duplicate = \<lambda>_. Inr (), dda_execution_state = \<lambda>_. True\<rparr>"

definition demo_packet :: encoded_packet where
  "demo_packet = \<lparr>ep_bytes = [0, 0, 0, 1, 0x67, 1, 0, 0, 1, 0x68, 2, 0, 0, 1, 0x65, 3], ep_pts_ns = 9,
     ep_is_keyframe = True, ep_encode_us = Some 4\<rparr>"

definition demo_pipe :: pipe_api where
  "demo_pipe = \<lparr>pa_dda = demo_dda, pa_now = \<lambda>_. 3, pa_tonemap = \<lambda>_. True, pa_update_shape = \<lambda>_. True,
     pa_composite = \<lambda>_. True, pa_convert = \<lambda>_. Inr (), pa_submit = \<lambda>_ _ _. Inr (),
     pa_packets = \<lambda>_. ([demo_packet], None)\<rparr>"

definition demo_engine :: engine_api where
  "demo_engine = \<lparr>ea_factory = Inr (), ea_listing = ([Inr (demo_adapter, [Inr demo_output], NOT_FOUND)], NOT_FOUND),
     ea_adapter = \<lambda>_. Inr demo_adapter, ea_create_device = Inr (), ea_converter = \<lambda>_ _ _. Inr (),
     ea_backend = Inr (), ea_encoder = \<lambda>_. Inr (), ea_display_paths = None, ea_keepalive = \<lambda>_ _. Inr (),
     ea_cursor_blitter = True, ea_tonemap_blitter = True, ea_thread = True, ea_now = 0, ea_dda = demo_dda\<rparr>"

definition demo_capturer :: capturer where
  "demo_capturer = \<lparr>cap_monitor = demo_monitor, cap_width = 4, cap_height = 2, cap_frame_held = False,
     cap_display_required = True, cap_log = []\<rparr>"

definition demo_pipeline :: pipeline where
  "demo_pipeline = pipeline_start (pipeline_config_default 0) demo_capturer True True"

definition demo_sample :: pen_sample where
  "demo_sample = \<lparr>ps_x = 10, ps_y = 20, ps_x_logical = 100, ps_y_logical = 200, ps_pressure = 0x3F000000,
     ps_tilt_x_deg = 0, ps_tilt_y_deg = 0, ps_in_range = True, ps_in_contact = True, ps_eraser = False, ps_buttons = 1\<rparr>"

definition demo_touch :: touch_point where
  "demo_touch = \<lparr>tp_id = 3, tp_x = 10, tp_y = 20, tp_state = Touch_Update\<rparr>"

definition demo_near :: world where
  "demo_near = \<lparr>w_inj = (injector_new None)\<lparr>last_pen_in_range := True\<rparr>, w_log = []\<rparr>"

definition demo_hello :: hello_android where
  "demo_hello = \<lparr>ha_protocol_version = 0, ha_display_width = 100, ha_display_height = 50, ha_pen_max_pressure = 10,
     ha_pen_tilt_min_deg = 0, ha_pen_tilt_max_deg = 60, ha_pen_buttons_count = 2, ha_codec_caps = 1\<rparr>"

definition demo_in :: in_stream where
  "demo_in = \<lparr>pending = encode_frames [(MSG_HELLO_ANDROID, hello_android_encode demo_hello), (MSG_REQUEST_IDR, []),
     (MSG_ANDROID_GOODBYE, [])], at_end = UnexpectedEof\<rparr>"

definition demo_out :: out_stream where
  "demo_out = \<lparr>written = [], broken = None\<rparr>"

definition demo_os :: session_os where
  "demo_os = \<lparr>so_accept = Inr (demo_in, demo_out), so_injector = Inr True, so_monitors = Inr [demo_monitor],
     so_screen = (1920, 1080), so_api = demo_win32, so_iter = id, so_elapsed = id, so_finish = None\<rparr>"

definition demo_pnp :: pnp_api where
  "demo_pnp = \<lparr>pnp_elevated = True, pnp_devcon = \<lambda>_ _ _. Devcon_Exit (Some 0) [],
     pnp_install = \<lambda>_ _ _. Devcon_Exit (Some 0) [],
     pnp_devnode = \<lambda>_ _. Node_Status 0 0, pnp_monitors = \<lambda>_. Inr [demo_monitor], pnp_extend = \<lambda>_. True,
     pnp_change_mode = \<lambda>_ _ _ _ _. True, pnp_delay = \<lambda>_. 1, pnp_runas = \<lambda>_. None\<rparr>"

definition demo_world :: pnp_world where
  "demo_world = \<lparr>pw_clock = 0, pw_log = []\<rparr>"

definition demo_run :: run_os where
  "demo_run = \<lparr>ro_os = demo_os, ro_pnp = demo_pnp, ro_spawn = \<lambda>w. (Inr (), w), ro_shutdown = \<lambda>w. (Clean, w),
     ro_high_perf = Inr (), ro_engine = demo_engine, ro_pipe = demo_pipe, ro_session_start = 0, ro_wait_start = 0,
     ro_turns = [(0, 1)], ro_pump_start = 0\<rparr>"

definition demo_config :: session_config where
  "demo_config = session_config_default\<lparr>sc_monitor := demo_monitor, sc_codec := H264\<rparr>"

lemmas demo_defs = demo_win32_def demo_adapter_def demo_output_def demo_monitor_def demo_frame_info_def demo_frame_def
  demo_dda_def demo_packet_def demo_pipe_def demo_engine_def demo_hello_def demo_in_def demo_out_def demo_os_def
  demo_pnp_def demo_world_def demo_run_def demo_config_def


lemma demo_hello_read: "\<exists>r. read_hello demo_in = Inr (demo_hello, r)"
proof -
  let ?rest = "\<lparr>pending = encode_frames [(MSG_REQUEST_IDR, []), (MSG_ANDROID_GOODBYE, [])], at_end = UnexpectedEof\<rparr>"
  have s: "length (hello_android_encode demo_hello) \<le> MAX_PAYLOAD_LEN"
    by (simp add: size_simps size_defs MAX_PAYLOAD_LEN_def)
  have d: "demo_in = \<lparr>pending = encode_frame MSG_HELLO_ANDROID (hello_android_encode demo_hello) @
      encode_frames [(MSG_REQUEST_IDR, []), (MSG_ANDROID_GOODBYE, [])], at_end = UnexpectedEof\<rparr>"
    by (simp add: demo_in_def encode_frames_def)
  have "read_frame demo_in = Inr ((MSG_HELLO_ANDROID, hello_android_encode demo_hello), ?rest)"
    unfolding d by (rule read_frame_encode_frame [OF s])
  then show ?thesis by (simp add: read_hello_def protocol_try_def hello_android_decode_encode)
qed

lemma demo_engine_starts: "\<exists>eng. engine_start demo_engine (session_builder demo_run demo_config demo_monitor) = Inr eng"
proof -
  have "is_ok (engine_start demo_engine (session_builder demo_run demo_config demo_monitor))" by code_simp
  then show ?thesis by (auto simp: is_ok_def split: sum.splits)
qed

lemma demo_injector: "\<exists>iw. session_injector demo_os demo_config = Inr iw"
  by (simp add: session_injector_def demo_os_def)

lemma demo_parameter_sets: "parameter_sets H264 (ep_bytes demo_packet) \<noteq> []"
  by code_simp

lemma demo_keyframe:
  "\<exists>r. wait_for_keyframe (pipe_env demo_run) 5000 5000 (keyframe_turns demo_run) (pipe_started (pipeline_start cfg cap c t)) =
     (Some (Inr demo_packet), r)"
proof -
  let ?r = "pipe_event (pipe_env demo_run) Turn (pipe_started (pipeline_start cfg cap c t))"
  have "pq_deque (pl_queue (pr_pipe ?r)) = [demo_packet]"
    by (simp add: pipe_event_def pipe_started_def pipeline_start_def tick_def acquire_frame_def release_held_def
        pipe_env_def demo_run_def demo_pipe_def demo_engine_def demo_dda_def use_frame_def move_pixels_def
        demo_frame_def demo_frame_info_def is_bgra8_def DXGI_FORMAT_B8G8R8A8_UNORM_def copy_resource_def
        update_cursor_def take_shape_update_def update_pointer_def drop_frame_def composite_cursor_def
        encode_keepalive_def convert_keepalive_def submit_frame_def push_packets_def push_def packet_queue_new_def
        pointer_position_def Let_def)
  then have "\<exists>r. take_packet ?r = (Some demo_packet, r)"
    by (simp add: take_packet_def try_pop_def pop_turn_def)
  then show ?thesis
    by (auto simp: keyframe_turns_def demo_run_def demo_packet_def pipe_events_def)
qed

text \<open>The session gets ready in this environment.\<close>

lemma demo_ready: "\<exists>env lv evs vdd w'. run_setup demo_run demo_config demo_world = (Some (Inr (env, lv)), evs, vdd, w')"
proof -
  obtain r where h: "read_hello demo_in = Inr (demo_hello, r)" using demo_hello_read by blast
  obtain eng where e: "engine_start demo_engine (session_builder demo_run demo_config demo_monitor) = Inr eng"
    using demo_engine_starts by blast
  then obtain cfg cap c t where pl: "en_pipeline eng = Some (pipeline_start cfg cap c t)" by (rule engine_start_Inr)
  obtain iw where i: "session_injector demo_os demo_config = Inr iw" using demo_injector by blast
  obtain pipe where k: "wait_for_keyframe (pipe_env demo_run) 5000 5000 (keyframe_turns demo_run)
      (pipe_started (pipeline_start cfg cap c t)) = (Some (Inr demo_packet), pipe)" using demo_keyframe by blast
  have p: "ro_engine demo_run = demo_engine" "ro_os demo_run = demo_os" "ro_wait_start demo_run = 0" "sc_codec demo_config = H264"
    "so_accept demo_os = Inr (demo_in, demo_out)" "sc_vdd demo_config = None" "sc_monitor demo_config = demo_monitor"
    "broken demo_out = None"
    by (simp_all add: demo_run_def demo_config_def demo_os_def demo_out_def session_config_default_def)
  have "send_handshake demo_config (en_monitor eng) demo_packet demo_out =
      Inr (demo_out\<lparr>written := written demo_out @ encode_frames (handshake_messages demo_config (en_monitor eng) demo_packet)\<rparr>)"
    by (rule send_handshake_ok) (simp_all add: p demo_parameter_sets)
  then have "\<exists>env lv. run_engine demo_run demo_config demo_monitor r demo_out = Some (Inr (env, lv))"
    using e pl i k p by (simp add: run_engine_def)
  then show ?thesis using h p by (auto simp: run_setup_def acquire_monitor_def Let_def)
qed

lemma demo_encoder: "encoder_gives (pipe_env demo_run) small"
  by (simp add: encoder_gives_def pipe_env_def demo_run_def demo_pipe_def demo_packet_def small_def MAX_PAYLOAD_LEN_def)

lemma demo_turns: "running (pipe_events demo_pipe [Request, Turn, Turn] (pipe_started demo_pipeline))"
  by (simp add: pipe_events_def pipe_event_def pipe_started_def pipeline_start_def tick_def acquire_frame_def release_held_def
      request_idr_def demo_pipeline_def demo_capturer_def demo_pipe_def demo_dda_def use_frame_def move_pixels_def
      demo_frame_def demo_frame_info_def is_bgra8_def DXGI_FORMAT_B8G8R8A8_UNORM_def copy_resource_def
      update_cursor_def take_shape_update_def update_pointer_def drop_frame_def composite_cursor_def
      encode_keepalive_def convert_keepalive_def submit_frame_def push_packets_def running_def
      pointer_position_def Let_def)

lemma demo_tick:
  "\<exists>p'. tick demo_pipe demo_pipeline = Some (Inr (), p')"
  "fst (acquire_frame (pa_dda demo_pipe) (pc_acquire_timeout (pl_cfg demo_pipeline)) (pl_capturer demo_pipeline)) = Inr (Some demo_frame)"
  by (simp_all add: pipeline_start_def tick_def acquire_frame_def release_held_def
      demo_pipeline_def demo_capturer_def demo_pipe_def demo_dda_def use_frame_def move_pixels_def
      demo_frame_def demo_frame_info_def is_bgra8_def DXGI_FORMAT_B8G8R8A8_UNORM_def copy_resource_def
      update_cursor_def take_shape_update_def update_pointer_def drop_frame_def composite_cursor_def
      encode_keepalive_def convert_keepalive_def submit_frame_def push_packets_def
      pointer_position_def Let_def)

lemma demo_enable: "pnp_runas demo_pnp (pw_log demo_world) = None" "\<exists>w1. devcon_action demo_pnp Enable i demo_world = (Inr (), w1)"
  by (simp_all add: demo_pnp_def demo_world_def devcon_action_def contains_def starts_with_def)

lemma demo_accepts: "accepts_input demo_win32"
  by (simp add: accepts_input_def demo_win32_def)

section \<open>A Media Foundation\<close>

text \<open>An encoder that asks for one frame at a time and has one sample for each.\<close>

definition demo_mf :: mf_api where
  "demo_mf = \<lparr>
     mf_result = \<lambda>xs c. if c = ProcessOutput \<and> inputs xs \<le> length (samples xs) then Some (Hresult 1) else None,
     mf_encoders = \<lambda>_. [Some (Some ''ven_0001'')], mf_device_manager = True,
     mf_next_event = \<lambda>xs. if requests xs < inputs xs + 1 then Some (Event METransformNeedInput) else None,
     mf_poll_event = \<lambda>xs. if streak xs < 2 \<and> length (samples xs) < inputs xs then Event METransformHaveOutput
        else Get_Failed NO_EVENTS_AVAILABLE,
     mf_stream_info = \<lambda>_. (True, 0),
     mf_provided = \<lambda>_. Some \<lparr>sm_bytes = Inr (ep_bytes demo_packet), sm_time = Inr 0\<rparr>,
     mf_filled = \<lambda>_. \<lparr>sm_bytes = Inr [], sm_time = Inr 0\<rparr>, mf_now = \<lambda>_. 0\<rparr>"

definition demo_encoder_config :: encoder_config where
  "demo_encoder_config = \<lparr>ec_width = 4, ec_height = 2, ec_fps = 60, ec_bitrate_bps = 1000, ec_codec = H264\<rparr>"

lemma demo_mf_rules: "one_per_frame demo_mf" "prompt 1 2 demo_mf"
  by (auto simp: demo_mf_def one_per_frame_def prompt_def split: if_splits)

definition succeeds :: "'a mf_op \<Rightarrow> bool" where
  "succeeds m \<longleftrightarrow> (\<forall>env. \<exists>a env'. m env = (Inr a, env'))"

lemma succeeds_basic [intro]: "succeeds (mf_ok a)" "succeeds (mf_attempt api c)"
  by (auto simp: succeeds_def mf_ok_def mf_attempt_def)

lemma succeeds_call [intro]: "c \<noteq> ProcessOutput \<Longrightarrow> succeeds (mf_call demo_mf c)"
  by (simp add: succeeds_def mf_call_def demo_mf_def)

lemma succeeds_bind [intro]: "succeeds m \<Longrightarrow> (\<And>a. succeeds (f a)) \<Longrightarrow> succeeds (mf_bind m f)"
  unfolding succeeds_def mf_bind_def by (metis (no_types, lifting) case_prod_conv sum.case(2))

lemma succeeds_seq [intro]: "\<forall>m \<in> set ms. succeeds m \<Longrightarrow> succeeds (mf_seq ms)"
  by (induction ms) auto

lemma demo_pick: "succeeds (pick_mft_for_adapter demo_mf v c)"
  unfolding pick_mft_for_adapter_def Let_def
  by (intro succeeds_bind succeeds_call) (auto simp: demo_mf_def split: list.split if_split)

lemma demo_input_type: "succeeds (set_input_type demo_mf cfg)"
proof -
  have "succeeds (configure_nv12_input_type demo_mf cfg b)" for b
    unfolding configure_nv12_input_type_def by (rule succeeds_seq) (auto split: if_splits)
  then have "succeeds (mf_seq [mf_call demo_mf MFCreateMediaType, configure_nv12_input_type demo_mf cfg True])"
    by (intro succeeds_seq) auto
  moreover have "mf_call demo_mf SetInputType env = (Inr (), snd (mf_call demo_mf SetInputType env))" for env
    by (simp add: mf_call_def demo_mf_def)
  ultimately show ?thesis unfolding set_input_type_def succeeds_def mf_bind_def
    by (smt (verit) case_prod_conv sum.case(2))
qed

lemma demo_set_up: "succeeds (set_up_transform demo_mf cfg a)"
proof -
  have "succeeds (configure_video_output_type demo_mf cfg)"
    unfolding configure_video_output_type_def Let_def split_def by (rule succeeds_seq) auto
  moreover have "succeeds (create_dev_mgr demo_mf)"
  proof -
    have "mf_device_manager demo_mf" by (simp add: demo_mf_def)
    then show ?thesis unfolding create_dev_mgr_def by (intro succeeds_bind) auto
  qed
  ultimately show ?thesis unfolding set_up_transform_def
    by (intro succeeds_seq) (simp add: demo_input_type succeeds_basic succeeds_call)
qed

lemma demo_mf_new:
  "\<exists>s0 env. mf_session_new demo_mf 1 demo_encoder_config \<lparr>me_initialized = False, me_log = []\<rparr> = (Inr s0, env)"
proof -
  have "succeeds (ensure_mf_started demo_mf)"
    by (simp add: succeeds_def ensure_mf_started_def mf_call_def demo_mf_def)
  then have "succeeds (mf_session_new demo_mf 1 demo_encoder_config)"
    unfolding mf_session_new_def
    by (intro succeeds_bind demo_pick demo_set_up) (auto simp: succeeds_def)
  then show ?thesis by (simp add: succeeds_def)
qed

text \<open>A desktop application on a Windows that does as it is told.\<close>

definition demo_launch :: os_api where
  "demo_launch = \<lparr>oa_fails = \<lambda>_ _. False, oa_exe = Some ''penflow.exe'', oa_elevated = False\<rparr>"

definition demo_fs :: fs_api where
  "demo_fs = \<lparr>fs_fails = \<lambda>_ _. None\<rparr>"

definition demo_gui :: gui_env where
  "demo_gui = \<lparr>ge_os = demo_launch, ge_fs = demo_fs, ge_to_json = \<lambda>_. Some ''{}'', ge_appdata = None, ge_devices = Inr []\<rparr>"

definition demo_admin_settings :: settings where
  "demo_admin_settings = settings_default\<lparr>st_autostart := True, st_run_as_admin := True\<rparr>"

definition demo_gui_state :: gui_state where
  "demo_gui_state = \<lparr>gs_settings = settings_default, gs_os = \<lparr>ow_run = Some ''old'', ow_task = None, ow_calls = []\<rparr>,
     gs_fs = \<lparr>fs_files = \<lambda>_. None, fs_calls = []\<rparr>\<rparr>"

lemma demo_gui_saves: "fst (save_settings demo_gui demo_admin_settings demo_gui_state) = Inr ()"
  by code_simp

definition demo_service_env :: service_env where
  "demo_service_env = \<lparr>se_pnp = demo_pnp, se_shutdown = \<lambda>w. (Clean, w), se_devices = \<lambda>_. Inr [], se_fs = demo_fs\<rparr>"

definition demo_adb :: adb_api where
  "demo_adb = \<lparr>ad_shell = \<lparr>sh_path = None, sh_is_file = \<lambda>_. False, sh_read = \<lambda>_. None\<rparr>, ad_run = \<lambda>_ _. Exit_Success,
     ad_bind = \<lambda>_. Inr 5000\<rparr>"

lemma demo_adb_runs:
  "\<exists>t0 xs t. bind_with_adb demo_adb ''penflow'' ''adb'' [] = (Inr t0, xs) \<and>
     transport_run demo_adb [Accept_Begin, Accept_End, Shutdown] t0 = Some t"
  by (simp add: bind_with_adb_def run_adb_def demo_adb_def resolve_through_shim_def is_separator_def Let_def
      transport_step_def accept_begin_def accept_end_def transport_shutdown_def remove_rule_def)

end
