(* ===== verification/Spec2Isabelle.thy ===== *)
theory Spec2Isabelle
  imports SpsPacket PacketQueue InjectProps InjectKeys InjectFrames Coords CursorShape PipelineProps Engine VddResident MfPipeline SessionStats SessionProps SessionStream SessionRunProps ServiceLoop Launch Scenario
begin

text \<open>
  Verification of the host of Penflow, which turns an Android tablet into a pen display of a Windows PC
  (\<^verbatim>\<open>src/crates\<close>, \<^verbatim>\<open>src/apps/penflow-gui/src-tauri\<close>).

  \<^bold>\<open>The program.\<close> The tablet connects over an adb tunnel. For each connection the server runs a session
  (\<^verbatim>\<open>penflow-server/src/session.rs\<close>): it may turn on a virtual display (\<^verbatim>\<open>vdd.rs\<close>), starts an engine on
  the chosen monitor (\<^verbatim>\<open>penflow-core/src/lib.rs\<close>), waits for a keyframe and greets the tablet. From then
  on several tasks run beside each other. The engine's thread captures the desktop (\<^verbatim>\<open>capture/\<close>), draws
  the cursor, encodes (\<^verbatim>\<open>encoder/mf.rs\<close>), rewrites the SPS of each packet so that the decoder of the
  tablet does not hold pictures back (\<^verbatim>\<open>encoder/sps_patcher.rs\<close>), and puts the packets in a bounded queue
  (\<^verbatim>\<open>packet_queue.rs\<close>). The frame pump sends them as frames of the wire protocol
  (\<^verbatim>\<open>penflow-protocol/src/lib.rs\<close>), the telemetry pump sends statistics over the same socket, and the read
  loop turns the pen and touch messages of the tablet into Windows input (\<^verbatim>\<open>inject/\<close>). The desktop
  application (\<^verbatim>\<open>penflow-gui\<close>) keeps the user settings, and its service runs one session after another.

  \<^bold>\<open>How the code is modelled.\<close> Structures are records, enumerations datatypes, fixed-width integers
  words of their width in the release profile (arithmetic wraps), \<^verbatim>\<open>Result\<close> is a sum with \<open>Inl\<close> for the
  error, a panic is \<open>None\<close>. Floating point is computed: \<open>F32\<close> rounds to binary32. Windows, DXGI,
  Direct3D, Media Foundation, adb and the clock are not under \<^verbatim>\<open>src/\<close>: each is a record of functions, an
  argument of the definitions that call it, that answers a call from the log of the calls before it, so
  that it may fail or change its mind at any time. Concurrency is explicit: the critical sections of the
  queue, the stretches of the session's tasks between two points where the scheduler may switch, and
  the steps of the resident helper and its parent are interleaved in arbitrary order.

  \<^bold>\<open>Theories.\<close>
  \<^item> \<open>Prelude\<close>: machine types, results, byte strings, streams.
  \<^item> \<open>Protocol\<close>, \<open>Nal\<close>: \<^verbatim>\<open>penflow-protocol/src/lib.rs\<close>. Framing, every message with its encoder and
    decoder, all decode errors; the split of Annex-B streams and the extraction of parameter sets. The
    locale \<open>wire_message\<close> states what a message owes the framing layer and is interpreted for each.
  \<^item> \<open>Rbsp\<close>, \<open>BitIO\<close>, \<open>BitCodes\<close>, \<open>SpsSteps\<close>, \<open>SpsH264\<close>, \<open>SpsHevc\<close>, \<open>SpsPacket\<close>:
    \<^verbatim>\<open>encoder/sps_patcher.rs\<close>. Emulation prevention, bit reader and writer, Exp-Golomb codes, and the
    rewriters field by field. The locale \<open>bit_code\<close> is the contract of a code; a rewriter is characterised
    by the set of bit strings it accepts and what it makes of each.
  \<^item> \<open>PacketQueue\<close>: the drop-oldest queue; every interleaving of its critical sections. The locale of a
    bounded queue is interpreted on it.
  \<^item> \<open>Inject\<close>, \<open>InjectProps\<close>, \<open>InjectKeys\<close>, \<open>InjectFrames\<close>: \<^verbatim>\<open>inject/\<close> (bindings, pen, touch, VMulti
    reports): ranges of what is sent, balance of key presses, the pointer protocol as automata.
  \<^item> \<open>F32\<close>, \<open>Coords\<close>: \<^verbatim>\<open>inject/coords.rs\<close> in binary32 arithmetic.
  \<^item> \<open>Monitors\<close>, \<open>CursorShape\<close>, \<open>Capture\<close>: \<^verbatim>\<open>error.rs\<close>, \<^verbatim>\<open>monitors.rs\<close>, \<^verbatim>\<open>capture/\<close>.
  \<^item> \<open>Pipeline\<close>, \<open>PipelineProps\<close>, \<open>Engine\<close>: \<^verbatim>\<open>pipeline.rs\<close>, \<^verbatim>\<open>lib.rs\<close>, the adapter choice of
    \<^verbatim>\<open>d3d11.rs\<close>, \<^verbatim>\<open>sdr_white_level.rs\<close>.
  \<^item> \<open>MfEncoder\<close>, \<open>MfProps\<close>, \<open>MfPipeline\<close>: \<^verbatim>\<open>encoder/mf.rs\<close>, and the pipeline with this encoder behind
    it. The locale \<open>event_invariant\<close> is the contract of the event loops.
  \<^item> \<open>Vdd\<close>, \<open>VddResident\<close>: \<^verbatim>\<open>vdd.rs\<close>; the elevated helper and its parent as a step relation.
  \<^item> \<open>Session\<close>, \<open>SessionStats\<close>, \<open>SessionProps\<close>, \<open>SessionStream\<close>, \<open>SessionRun\<close>, \<open>SessionRunProps\<close>:
    \<^verbatim>\<open>session.rs\<close>, from the connection to the end, with every interleaving of its tasks.
  \<^item> \<open>Transport\<close>: \<^verbatim>\<open>penflow-transport/src/adb.rs\<close>, the adb tunnel, its rule on the tablet, and the search
    for the adb program through shims.
  \<^item> \<open>Settings\<close>, \<open>Service\<close>, \<open>ServiceLoop\<close>, \<open>Launch\<close>: \<^verbatim>\<open>settings.rs\<close>, \<^verbatim>\<open>service.rs\<close>, \<^verbatim>\<open>main.rs\<close> and \<^verbatim>\<open>os.rs\<close>
    of the desktop application: the settings file, the configuration of a session with its key names,
    the accept loop beside the commands that start and stop it, and what launches the program.
  \<^item> \<open>Scenario\<close>: one concrete environment in which the hypotheses of the properties hold.

  \<^bold>\<open>What is shown.\<close> This theory holds the properties. The protocol loses nothing and accepts exactly what
  it encodes. The SPS rewriters refine their specification on bit strings, on all inputs, and a decoder
  that reads their output finds no reorder delay. The queue accounts for every packet in every
  interleaving. Input is balanced and follows the pointer protocols, except at a change of the eraser,
  which is shown to break it. Points land on the monitor, except at a quarter turn, where the code uses
  the wrong side. The pipeline shows the encoder the last desktop with the cursor on it, the encoder's
  packets keep the order and the times of the frames, and a session hands them to the tablet whole, in
  order, after the handshake. The virtual display is verified off when a disable succeeds; two ways in
  which the resident helper fails its user are shown as well. The desktop application replaces its
  settings file as a whole, configures sessions consistently, runs one accept loop at a time unless a
  stop runs into its timeout, which is shown to happen because the stop waits for itself, and leaves no
  tunnel behind.

  \<^bold>\<open>Loops and bounds.\<close> Loops over data are recursive functions with termination proofs. Loops that wait
  for the outside are either given the turns they get (the wait for the keyframe, of which it is shown
  that it returns once the clock reaches the deadline; the pop loop of the queue) or are partial functions
  with \<open>None\<close> for not returning (the event loops of the encoder, which are shown to return for an encoder
  that keeps asking for frames). No fuel bounds a result: the read loop recurses on the bytes that
  arrive, the waits of \<open>Vdd\<close> on the time to their deadline.

  \<^bold>\<open>Not modelled.\<close> The GPU passes (\<^verbatim>\<open>cursor_blit.rs\<close>, \<^verbatim>\<open>tonemap_blit.rs\<close>, \<^verbatim>\<open>color.rs\<close>) are Direct3D
  resource set-up and shader source; the pipeline takes what they draw as a parameter. Creation and
  release of device handles in \<^verbatim>\<open>inject/\<close>, thread priorities, trace and diagnostic output, and the
  allocation failures of \<^verbatim>\<open>Vec::with_capacity\<close> have no effect on the modelled state. Of the desktop
  application, the windows, the tray icon, the installation of drivers and the wiring of Tauri are left
  out. Strings are their UTF-8 bytes; white space outside ASCII is not recognised as such.
  The examples under \<^verbatim>\<open>examples/\<close> are command-line probes of the library.
\<close>

section \<open>Wire protocol\<close>

text \<open>C1. Framing is lossless: any sequence of frames whose payloads are within the limit, written one
  after the other, is read back frame by frame, whatever follows on the stream.\<close>

theorem frames_round_trip:
  assumes "\<forall>(i, p) \<in> set fs. length p \<le> MAX_PAYLOAD_LEN"
  shows "read_frames (length fs) \<lparr>pending = encode_frames fs @ rest, at_end = e\<rparr> =
    Inr (fs, \<lparr>pending = rest, at_end = e\<rparr>)"
  using assms by (rule read_frames_encode_frames)

lemma frames_round_trip_witness:
  "read_frames (length [(MSG_PEN_EVENT, [1, 2]), (MSG_REQUEST_IDR, [] :: bytes)]) \<lparr>pending = encode_frames [(MSG_PEN_EVENT, [1, 2]), (MSG_REQUEST_IDR, [])] @ [9], at_end = UnexpectedEof\<rparr> =
    Inr ([(MSG_PEN_EVENT, [1, 2]), (MSG_REQUEST_IDR, [])], \<lparr>pending = [9], at_end = UnexpectedEof\<rparr>)"
  by (rule frames_round_trip) (simp add: MAX_PAYLOAD_LEN_def)

text \<open>C2. \<open>read_frame\<close> accepts exactly the streams that start with an encoded frame within the limit,
  and consumes exactly that frame.\<close>

theorem frame_accepted_iff:
  "read_frame s = Inr ((i, p), s') \<longleftrightarrow>
     pending s = encode_frame i p @ pending s' \<and> at_end s' = at_end s \<and> length p \<le> MAX_PAYLOAD_LEN"
  by (rule read_frame_Inr_iff)

text \<open>C3. Messages decode from exactly their encodings: a pen event from its encoding and nothing else, in
  particular from no payload of another size; a video frame from its encoding when its timing fields
  are present exactly under the extended flag; a client configuration also when a later version of the
  protocol appends bytes to it. A touch event loses its contacts beyond the 255th, which the one-byte
  count drops.\<close>

theorem messages_exact:
  "(pen_event_decode p = Inr pe \<longleftrightarrow> p = pen_event_encode pe) \<and>
   (video_frame_decode p = Inr vf \<longleftrightarrow> video_frame_wf vf \<and> p = video_frame_encode vf) \<and>
   client_config_decode (client_config_encode cc @ future) = Inr cc \<and>
   touch_event_decode (touch_event_encode te) = Inr (te\<lparr>te_contacts := take 255 (te_contacts te)\<rparr>)"
  using pen_event_msg.decode_iff [of p pe] video_frame_msg.decode_iff [of p vf]
    client_config_decode_encode [of cc future] touch_event_decode_encode_trunc [of te] by blast

text \<open>C4. On an Annex-B stream of NAL units that contain no start code and do not end in zero, the
  extraction of parameter sets keeps exactly the units of the wanted types, whole and in order, with
  the start codes they had.\<close>

theorem parameter_sets_extracted:
  assumes "\<forall>n \<in> set ns. clean (snd n)"
  shows "extract_hevc_nals (annex_b ns) keep =
      annex_b (filter (\<lambda>n. drop_bit 1 (hd (snd n)) AND 0x3F \<in> set keep) ns) \<and>
    extract_h264_nals (annex_b ns) keep = annex_b (filter (\<lambda>n. hd (snd n) AND 0x1F \<in> set keep) ns)"
  using extract_annex_b [OF assms, of keep hevc_nal_type] extract_annex_b [OF assms, of keep h264_nal_type]
  by (simp add: extract_hevc_nals_def extract_h264_nals_def split_hevc_nals_def split_h264_nals_def
      hevc_nal_type_def h264_nal_type_def)

lemma parameter_sets_extracted_witness:
  "extract_h264_nals (annex_b [(True, [0x67, 1]), (False, [0x68, 2]), (False, [0x65, 3])]) [7, 8] =
     annex_b [(True, [0x67, 1]), (False, [0x68, 2])]"
proof -
  have "\<forall>n \<in> set [(True, [0x67, 1]), (False, [0x68, 2]), (False, [0x65, 3 :: u8])]. clean (snd n)" by (simp add: clean_emulation_free)
  from parameter_sets_extracted [OF this, of "[7, 8]"] show ?thesis by simp
qed

section \<open>SPS rewriting\<close>

text \<open>C5. Removing emulation prevention undoes inserting it, on every byte string, and the escaped string
  never contains two zero bytes followed by a byte below three, so no decoder can take part of it for
  a start code.\<close>

theorem escape_exact:
  "rbsp_unescape (rbsp_escape xs) = xs \<and> emulation_free (rbsp_escape xs) \<and> no_start_code (rbsp_escape xs)"
  using rbsp_unescape_escape emulation_free_escape emulation_free_no_start_code by blast

text \<open>C6. The H.264 rewriter refines its specification on bit strings: it succeeds exactly when the RBSP
  starts with an SPS it can walk, and then its result is that SPS with \<^verbatim>\<open>max_num_ref_frames\<close> set
  to 1 and the VUI replaced as \<open>h264_vui_edit\<close> says, every other bit kept, ended by a stop bit.\<close>

theorem h264_patch_exact:
  "patch_h264_sps_rbsp rbsp = Some out \<longleftrightarrow>
     (\<exists>c e. prefix c (bits_of rbsp) \<and> h264_sps_edit c e \<and> rbsp_of e out)"
  by (rule patch_h264_sps_rbsp_iff)

text \<open>C7. Whatever SPS goes in, a decoder that parses the patched one reads one reference frame, full-range
  video and the restriction that lets it output without delay: no reordering, a buffer of one.\<close>

theorem h264_patch_decoder_view:
  "Option.bind (patch_h264_sps_rbsp rbsp) h264_decoder_view =
     map_option (\<lambda>_. (1, Some (1, Some (0, 1)))) (patch_h264_sps_rbsp rbsp)"
  by (cases "patch_h264_sps_rbsp rbsp") (simp_all add: patch_h264_decoder_view)

text \<open>C8. The HEVC fallback refines its specification: it succeeds exactly when the RBSP starts with
  fields it can walk, replaces the coded DPB triplets by zeros and keeps every bit before and after
  them, padding the last byte.\<close>

theorem hevc_dpb_patch_exact:
  "patch_hevc_sps_dpb_only rbsp = Some out \<longleftrightarrow>
     (\<exists>l c e rest. bits_of rbsp = c @ rest \<and> hevc_lead_edit l c e \<and> padded (e @ rest) out)"
  by (rule patch_hevc_sps_dpb_only_iff)

text \<open>C9. The full HEVC rewriter refines its specification for SPSs whose long-term picture fields fit the
  32-bit reader: it succeeds exactly on those it can walk to an absent extension, zeroes the DPB
  triplets, replaces the video signal type (or synthesises a VUI) and keeps the other bits.\<close>

theorem hevc_full_patch_exact:
  "patch_hevc_sps_full rbsp = Some out \<and> lt_width_ok rbsp \<longleftrightarrow>
     (\<exists>c e. prefix c (bits_of rbsp) \<and> hevc_sps_edit c e \<and> rbsp_of e out)"
  by (rule patch_hevc_sps_full_iff)




section \<open>Packet queue\<close>

text \<open>C12. Whatever threads push, pop and close in any interleaving, every accepted packet is delivered,
  dropped or still queued, exactly once: the queue holds the newest accepted packets and those before
  them are an order-preserving interleaving of the delivered and the dropped ones.\<close>

theorem queue_accounts_for_every_packet:
  "\<exists>ms. qr_accepted (fold run_op ops (run_start c)) = ms @ pq_deque (qr_queue (fold run_op ops (run_start c))) \<and>
     ms \<in> shuffles (qr_delivered (fold run_op ops (run_start c))) (qr_lost (fold run_op ops (run_start c)))"
  using run_inv_ops [OF run_inv_start, of ops c] unfolding run_inv_def by blast

text \<open>C13. In every interleaving the queue stays within its capacity, which is at least one, and its counter
  is the number of dropped packets, saturating at the top of \<^verbatim>\<open>u64\<close>.\<close>

theorem queue_bounded_and_counted:
  "qs_depth (stats (qr_queue (fold run_op ops (run_start c)))) \<le> max c 1 \<and>
   unat (qs_dropped_overflow (stats (qr_queue (fold run_op ops (run_start c))))) =
     min (length (qr_lost (fold run_op ops (run_start c)))) (2 ^ 64 - 1)"
  using run_inv_ops [OF run_inv_start, of ops c] capacity_ops [of ops "run_start c"]
  unfolding run_inv_def pq_ok_def stats_def by (simp add: run_start_def packet_queue_new_def)

section \<open>Pen and touch injection\<close>





text \<open>C16. When the eraser state changes while the pen is in range, the old pointer is lifted, at the position
  of the new sample, and the frame that follows is not marked as a new pointer although the pointer
  before it has gone up.\<close>

theorem eraser_flip_breaks_protocol:
  assumes "last_pen_in_range (w_inj w)" "last_pen_eraser (w_inj w) \<noteq> e" "inj_vmulti (w_inj w) = None"
  shows "\<exists>flush frame. w_log (snd (emit_pen \<lparr>api_accepts = \<lambda>_ _. True, api_screen = \<lambda>_. scr\<rparr> s e w)) =
      w_log w @ [(Inject_Pen_Frame flush, True), (Inject_Pen_Frame frame, True)] \<and>
    pf_flags flush = {UP, PRIMARY} \<and> pf_inverted flush = last_pen_eraser (w_inj w) \<and> pf_pressure flush = 0 \<and>
    pf_location flush = pf_location frame \<and> pf_inverted frame = e \<and> NEW \<notin> pf_flags frame"
  using assms by (rule eraser_flip)

lemma eraser_flip_breaks_protocol_witness:
  "\<exists>flush frame. w_log (snd (emit_pen \<lparr>api_accepts = \<lambda>_ _. True, api_screen = \<lambda>_. (0, 0, 9, 9)\<rparr> demo_sample True demo_near)) =
      w_log demo_near @ [(Inject_Pen_Frame flush, True), (Inject_Pen_Frame frame, True)] \<and>
    pf_flags flush = {UP, PRIMARY} \<and> pf_inverted flush = last_pen_eraser (w_inj demo_near) \<and> pf_pressure flush = 0 \<and>
    pf_location flush = pf_location frame \<and> pf_inverted frame = True \<and> NEW \<notin> pf_flags frame"
  by (rule eraser_flip_breaks_protocol) (simp_all add: demo_near_def injector_new_def)

text \<open>C17. For snapshots with distinct pointer ids, the touch frames follow the protocol for every contact:
  down once, then updates, then up once, and the contacts that are down are those of the last accepted
  snapshot. The order in which the hash map is walked does not matter.\<close>

theorem touch_protocol:
  assumes "\<forall>c \<in> set cs. touch_command_ok c" "\<And>m. mset (iter m) = mset m"
  shows "touch_run {} (w_log (run_commands api iter cs (world_new v))) =
    Some (fst ` set (last_touch_pos (w_inj (run_commands api iter cs (world_new v)))))"
  using run_commands_touch_inv [OF assms, of api v] by (simp add: touch_inv_def)

lemma touch_protocol_witness:
  "touch_run {} (w_log (run_commands demo_win32 id [Touch [demo_touch], Touch []] (world_new None))) =
    Some (fst ` set (last_touch_pos (w_inj (run_commands demo_win32 id [Touch [demo_touch], Touch []] (world_new None)))))"
  by (rule touch_protocol) simp_all

section \<open>Coordinates\<close>



section \<open>Capture and encoding\<close>

text \<open>C19. The decoder of cursor shapes agrees with a pixel-by-pixel description of each kind of shape: it
  fails exactly on an empty shape, an odd monochrome height or a short buffer, and otherwise gives the
  described picture. For monochrome shapes the pitch must cover the width; the code does not check it.\<close>

theorem cursor_shapes_decoded:
  assumes "shape_kind_from_raw t = Some k" "k = Monochrome \<Longrightarrow> unat w \<le> 8 * unat pitch"
  shows "decode_shape t w h pitch hx hy raw = Some (case shape_picture k (unat w) (unat h) (unat pitch) raw of
      None \<Rightarrow> Inl (Win32 E_INVALIDARG)
    | Some px \<Rightarrow> Inr \<lparr>cs_kind = k, cs_width = w, cs_height = (if k = Monochrome then h div 2 else h),
        cs_hot_x = hx, cs_hot_y = hy, cs_pixels = px\<rparr>)"
  using assms by (rule decode_shape_spec)

lemma cursor_shapes_decoded_witness:
  "decode_shape 1 8 2 1 0 0 [0xF0, 0x0F] = Some (case shape_picture Monochrome 8 2 1 [0xF0, 0x0F] of
      None \<Rightarrow> Inl (Win32 E_INVALIDARG)
    | Some px \<Rightarrow> Inr \<lparr>cs_kind = Monochrome, cs_width = 8, cs_height = 2 div 2, cs_hot_x = 0, cs_hot_y = 0, cs_pixels = px\<rparr>)"
  using cursor_shapes_decoded [of 1 Monochrome 8 1 2 0 0 "[0xF0, 0x0F]"] by (simp add: shape_kind_from_raw_def)



text \<open>C21. The encoder is told to make an IDR frame exactly in the first turn after a request: a request is never
  lost and never served twice, and requests between two turns coalesce.\<close>

theorem idr_requests_force_frames:
  assumes "running (pipe_events api evs (pipe_started (pipeline_start cfg cap c t)))"
  shows "map (snd \<circ> snd) (submits (pl_log (pr_pipe (pipe_events api evs (pipe_started (pipeline_start cfg cap c t)))))) =
    idr_flags False evs"
  using idr_flags_run [OF assms] by (simp add: pipe_started_def pipeline_start_def)

lemma idr_requests_force_frames_witness:
  "map (snd \<circ> snd) (submits (pl_log (pr_pipe (pipe_events demo_pipe [Request, Turn, Turn]
    (pipe_started (pipeline_start (pipeline_config_default 0) demo_capturer True True)))))) = [True, False]"
  using idr_requests_force_frames [OF demo_turns [unfolded demo_pipeline_def]] by simp



text \<open>C23. The keyframe flag agrees with the NAL units of the packet: on an Annex-B packet of units that are at
  least as long as their header, it is set exactly if the first slice is one of an IDR picture (for HEVC
  also of a CRA picture), whatever parameter sets and other units come before it.\<close>

theorem keyframe_flag_exact:
  assumes "\<forall>n \<in> set ns. clean (snd n) \<and> header_len codec \<le> length (snd n)"
  shows "first_nal_is_idr (annex_b ns) codec = first_slice_idr codec ns"
  using assms by (rule first_nal_is_idr_annex_b)

lemma keyframe_flag_exact_witness:
  "first_nal_is_idr (annex_b [(True, [0x67, 1]), (False, [0x65, 3])]) H264"
proof -
  have "\<forall>n \<in> set [(True, [0x67, 1]), (False, [0x65, 3 :: u8])]. clean (snd n) \<and> header_len H264 \<le> length (snd n)"
    by (simp add: clean_emulation_free header_len_def)
  from keyframe_flag_exact [OF this] show ?thesis
    by (simp add: nal_type_of_def is_slice_def is_idr_slice_def)
qed

text \<open>C24. With the Media Foundation encoder behind the pipeline, in every run: the packets that came out are
  those of the first frames that went in, in order, each with the time of its frame; their bytes are the
  encoder's with the SPS patched, and the keyframe flag is read off them; and every call of the encoder
  has returned, because the loop around its events never gives away the request the next frame needs.
  The encoder is assumed to put out at most one sample per frame and to ask for more frames.\<close>

theorem packets_keep_their_times:
  assumes "mf_session_new api vendor cfg \<lparr>me_initialized = b, me_log = []\<rparr> = (Inr s0, env)"
    "one_per_frame api" "prompt d k api" "mf_drives papi api s0" "pl_log p = []"
  shows "let calls = pl_log (pr_pipe (pipe_events papi evs (pipe_started p))) in
    map ep_pts_ns (encoded calls) = take (length (encoded calls)) (map (\<lambda>(pic, pts, force). pts) (submits calls)) \<and>
    (\<forall>pkt \<in> set (encoded calls). \<exists>raw. ep_bytes pkt = low_latency_bytes (ec_codec cfg) raw \<and>
       ep_is_keyframe pkt = first_nal_is_idr (ep_bytes pkt) (ec_codec cfg)) \<and>
    mf_after api s0 calls \<noteq> None"
  using mf_pipeline [OF assms, of evs] by (auto simp: packets_ok_def packet_of_def frame_times_def Let_def)

lemma packets_keep_their_times_witness:
  "\<exists>s0. let calls = pl_log (pr_pipe (pipe_events (with_mf demo_mf s0 demo_pipe) [Turn, Turn] (pipe_started demo_pipeline))) in
    map ep_pts_ns (encoded calls) = take (length (encoded calls)) (map (\<lambda>(pic, pts, force). pts) (submits calls))"
proof -
  obtain s0 env where "mf_session_new demo_mf 1 demo_encoder_config \<lparr>me_initialized = False, me_log = []\<rparr> = (Inr s0, env)"
    using demo_mf_new by blast
  moreover have "pl_log demo_pipeline = []" by (simp add: demo_pipeline_def pipeline_start_def)
  ultimately show ?thesis
    using packets_keep_their_times [OF _ demo_mf_rules with_mf_drives, of 1 demo_encoder_config False s0 env demo_pipeline demo_pipe "[Turn, Turn]"]
    unfolding Let_def by blast
qed

section \<open>Session\<close>

text \<open>C25. From the connection to any moment of a session, in any interleaving of its tasks and whatever the
  client sends: what the client has received is whole frames; they begin with the handshake; the video
  frames among them are a keyframe and then packets of the encoder, each with its bytes, time stamp and
  keyframe flag, in the order in which the encoder put them out. Only overflow of the queue, and
  packets before the first keyframe, may be missing. The encoder is assumed to keep its packets within
  the payload limit.\<close>

theorem session_stream:
  assumes "run_setup os cfg w = (Some (Inr (env, lv)), evs, vdd, w')" "so_accept (ro_os os) = Inr (r, out)"
    "written out = []" "encoder_gives (pipe_env os) small"
  shows "\<exists>ms pkt D. read_frames (length ms) \<lparr>pending = written (pu_out (lv_pumps (live_events os cfg env ops lv))), at_end = e\<rparr> =
      Inr (ms, \<lparr>pending = [], at_end = e\<rparr>) \<and>
    map fst (take 4 ms) = [MSG_HELLO_PC, MSG_CLIENT_CONFIG, MSG_VIDEO_CONFIG, MSG_VIDEO_FRAME] \<and>
    list_all2 same_video (pkt # D) (payloads MSG_VIDEO_FRAME ms) \<and> ep_is_keyframe pkt \<and>
    subseq (pkt # D) (encoded (pl_log (pr_pipe (lv_pipe (live_events os cfg env ops lv)))))"
  using assms by (rule session_delivers)

lemma session_stream_witness:
  "\<exists>env lv ms pkt D. read_frames (length ms)
      \<lparr>pending = written (pu_out (lv_pumps (live_events demo_run demo_config env [Frame 0 0, Encode, Read, Receive, Frame 1 1] lv))),
       at_end = UnexpectedEof\<rparr> = Inr (ms, \<lparr>pending = [], at_end = UnexpectedEof\<rparr>) \<and>
    map fst (take 4 ms) = [MSG_HELLO_PC, MSG_CLIENT_CONFIG, MSG_VIDEO_CONFIG, MSG_VIDEO_FRAME] \<and>
    list_all2 same_video (pkt # D) (payloads MSG_VIDEO_FRAME ms) \<and> ep_is_keyframe pkt \<and>
    subseq (pkt # D) (encoded (pl_log (pr_pipe (lv_pipe (live_events demo_run demo_config env
      [Frame 0 0, Encode, Read, Receive, Frame 1 1] lv)))))"
proof -
  obtain env lv evs vdd w' where r: "run_setup demo_run demo_config demo_world = (Some (Inr (env, lv)), evs, vdd, w')"
    using demo_ready by blast
  have a: "so_accept (ro_os demo_run) = Inr (demo_in, demo_out)" "written demo_out = []"
    by (simp_all add: demo_run_def demo_os_def demo_out_def)
  show ?thesis by (rule exI, rule exI, rule session_stream [OF r a demo_encoder])
qed

text \<open>C26. Whatever bytes a client sends, in a session with or without video, every call that injects input is
  well formed: pen frames have pressure at most 1024 and tilts within 90 degrees and are in range when
  in contact, VMulti reports have their header, ranges and padding, and mouse positions are within
  0..65535.\<close>

theorem session_input_well_formed:
  assumes "run_setup os cfg w = (Some (Inr (env, lv)), evs, vdd, w')"
  shows "calls_inv (ls_world (lv_loop (live_events os cfg env ops lv))) \<and>
    pred_option (\<lambda>s. calls_inv (ls_world s)) (snd (snd (run_screen_off (ro_os os) cfg)))"
proof -
  have "calls_inv (ls_world s)" if "snd (snd (run_screen_off (ro_os os) cfg)) = Some s" for s
    using run_screen_off_calls [of "ro_os os" cfg] that by (metis prod.collapse)
  then show ?thesis using session_calls [OF assms]
    by (cases "snd (snd (run_screen_off (ro_os os) cfg))") simp_all
qed

lemma session_input_well_formed_witness:
  "\<exists>env lv. calls_inv (ls_world (lv_loop (live_events demo_run demo_config env [Read, Read] lv)))"
  using demo_ready session_input_well_formed [of demo_run demo_config demo_world] by blast

text \<open>C27. Framing does not show: on a stream of well-formed frames that ends, cleanly or by a reset, the read
  loop does what handling the messages one after the other does, and gives its result.\<close>

theorem read_loop_delivers:
  assumes "\<forall>(i, p) \<in> set ms. length p \<le> MAX_PAYLOAD_LEN" "e = UnexpectedEof \<or> e = ConnectionReset"
  shows "\<exists>r. read_loop env (s\<lparr>ls_in := \<lparr>pending = encode_frames ms, at_end = e\<rparr>\<rparr>) =
    (fst (handle_all env ms s), (snd (handle_all env ms s))\<lparr>ls_in := r\<rparr>)"
  using assms by (rule read_loop_handles)

lemma read_loop_delivers_witness:
  "\<exists>r. read_loop (session_env demo_os demo_config demo_monitor)
      (\<lparr>ls_in = demo_in, ls_world = demo_near, ls_out = demo_out, ls_idr = 0, ls_readings = 0\<rparr>
        \<lparr>ls_in := \<lparr>pending = encode_frames [(MSG_REQUEST_IDR, []), (MSG_ANDROID_GOODBYE, [])], at_end = UnexpectedEof\<rparr>\<rparr>) =
    (Inr (), \<lparr>ls_in = r, ls_world = demo_near, ls_out = demo_out, ls_idr = 1, ls_readings = 0\<rparr>)"
  using read_loop_delivers [of "[(MSG_REQUEST_IDR, []), (MSG_ANDROID_GOODBYE, [])]" UnexpectedEof
      "session_env demo_os demo_config demo_monitor"
      "\<lparr>ls_in = demo_in, ls_world = demo_near, ls_out = demo_out, ls_idr = 0, ls_readings = 0\<rparr>"]
  by (simp add: handle_message_def client_msg_defs MAX_PAYLOAD_LEN_def)

text \<open>C28. The wait for the first keyframe returns once the clock reaches its deadline, if not before: with a
  keyframe, or with the error that none came.\<close>

theorem keyframe_wait_returns:
  assumes "\<exists>turn \<in> set turns. deadline \<le> fst turn"
  shows "\<exists>res r'. wait_for_keyframe api timeout deadline turns r = (Some res, r') \<and>
    ((\<exists>p. res = Inr p \<and> ep_is_keyframe p) \<or> res = Inl (NoKeyframe timeout))"
  using assms by (rule wait_for_keyframe_returns)

lemma keyframe_wait_returns_witness:
  "\<exists>res r'. wait_for_keyframe demo_pipe 5000 5000 [(0, [Turn]), (5000, [])] (pipe_started demo_pipeline) = (Some res, r') \<and>
    ((\<exists>p. res = Inr p \<and> ep_is_keyframe p) \<or> res = Inl (NoKeyframe 5000))"
  by (rule keyframe_wait_returns) simp



section \<open>Virtual display driver\<close>




text \<open>C32. When devcon cannot enable the device, the resident helper signals its event all the same and enable
  returns Ok although the helper has exited with an error.\<close>

theorem failed_enable_reported_ok:
  assumes "pnp_runas api (pw_log w) = None" "devcon_action api Enable i w = (Inl e, w1)"
  shows "\<exists>s. reachable api i w s \<and> sy_parent s = P_Resident \<and> sy_result s = Some (Inr ()) \<and>
    sy_helper s = H_Exited 1 \<and> sy_world s = w1"
  using assms by (rule failed_enable_ok)

lemma failed_enable_reported_ok_witness:
  "\<exists>s. reachable (demo_pnp\<lparr>pnp_devcon := \<lambda>_ _ _. Devcon_Missing\<rparr>) ''ROOT'' demo_world s \<and> sy_parent s = P_Resident \<and>
    sy_result s = Some (Inr ()) \<and> sy_helper s = H_Exited 1 \<and> sy_world s = demo_world"
  by (rule failed_enable_reported_ok) (simp_all add: demo_pnp_def devcon_action_def)

text \<open>C33. When the parent dies while its helper is enabling the device, the helper cannot open it afterwards and
  waits for the stop event alone: the device stays enabled and, unless a wait of Windows fails, nothing
  happens any more.\<close>

theorem orphaned_helper_waits_forever:
  assumes "pnp_runas api (pw_log w) = None" "devcon_action api Enable i w = (Inr (), w1)"
  shows "\<exists>s. reachable api i w s \<and> \<not> sy_alive s \<and> sy_helper s = H_Waiting False \<and>
    last_devcon (pw_log (sy_world s)) = Some (Enable, i) \<and> (\<forall>s'. \<not> helper_step api i s s' \<and> \<not> parent_step api i s s')"
  using assms by (rule orphan_stranded)

lemma orphaned_helper_waits_forever_witness:
  "\<exists>s. reachable demo_pnp ''ROOT'' demo_world s \<and> \<not> sy_alive s \<and> sy_helper s = H_Waiting False \<and>
    last_devcon (pw_log (sy_world s)) = Some (Enable, ''ROOT'') \<and>
    (\<forall>s'. \<not> helper_step demo_pnp ''ROOT'' s s' \<and> \<not> parent_step demo_pnp ''ROOT'' s s')"
  using demo_enable(2) [of "''ROOT''"] orphaned_helper_waits_forever [OF demo_enable(1), of "''ROOT''"] by blast

section \<open>The desktop application\<close>



text \<open>C35. The settings file is replaced as a whole. Saving is a fixed sequence of calls, each of which may fail,
  and wherever it stops, at a failure or because the process dies after any of the calls or within one,
  the file has its old content or the new one; if all calls succeed, it has the new one.\<close>

theorem settings_replaced_atomically:
  assumes "to_json s = Some json" "fs_all api (take n (save_calls appdata json)) f = (r, f')"
  shows "save to_json api appdata s f = fs_all api (save_calls appdata json) f \<and>
    fs_files f' (settings_path appdata) \<in> {fs_files f (settings_path appdata), Some json} \<and>
    (r = Inr () \<and> 5 \<le> n \<longrightarrow> fs_files f' (settings_path appdata) = Some json)"
  using save_eq [of to_json s json, OF assms(1)] save_atomic [OF assms(2)] by blast

lemma settings_replaced_atomically_witness:
  "fs_files (snd (fs_all demo_fs (take 3 (save_calls None ''{}'')) \<lparr>fs_files = Map.empty, fs_calls = []\<rparr>)) (settings_path None) \<in> {None, Some ''{}''}"
  using settings_replaced_atomically [of "\<lambda>_. Some ''{}''" settings_default "''{}''" demo_fs 3 None "\<lparr>fs_files = Map.empty, fs_calls = []\<rparr>",
    OF refl prod.collapse [symmetric]] by simp

text \<open>C36. The configuration that the service builds for a session: the virtual display is used only to extend the
  desktop, screen-off and the blocking of touch only to duplicate it; the resolution for the display is
  set exactly if there is one; the monitor comes from the monitors of that moment, and if one of them is
  attached, real and (when duplicating) not virtual, then so is the chosen one; and a binding that holds
  keys has keys.\<close>

theorem session_config_sound:
  assumes "build_session_config env s w f = (cfg, w', f')"
  shows "(sc_vdd cfg \<noteq> None \<longrightarrow> st_topology s = Extend) \<and>
    (sc_screen_off cfg \<or> sc_disable_touch cfg \<longrightarrow> st_topology s = Duplicate) \<and>
    (sc_vdd cfg = None) = (sc_vdd_target_resolution cfg = None) \<and>
    (\<exists>xs. let usable = (\<lambda>m. mi_attached m \<and> \<not> mi_adapter_is_software m \<and> (st_topology s = Duplicate \<longrightarrow> \<not> mi_looks_virtual m));
        ms = or_empty (pnp_monitors (se_pnp env) xs) in
      (ms \<noteq> [] \<longrightarrow> sc_monitor cfg \<in> set ms) \<and> (list_ex usable ms \<longrightarrow> usable (sc_monitor cfg))) \<and>
    barrel_1 (sc_pen_profile cfg) \<noteq> Key_Hold [] \<and> barrel_2 (sc_pen_profile cfg) \<noteq> Key_Hold [] \<and>
    tertiary (sc_pen_profile cfg) \<noteq> Key_Hold []"
  using config_monitor [OF assms] config_sound [OF assms] config_bindings [OF assms] by blast

lemma session_config_sound_witness:
  "sc_vdd (fst (build_session_config demo_service_env (settings_default\<lparr>st_topology := Duplicate\<rparr>) demo_world
     \<lparr>fs_files = Map.empty, fs_calls = []\<rparr>)) = None"
proof -
  obtain cfg w f where "build_session_config demo_service_env (settings_default\<lparr>st_topology := Duplicate\<rparr>) demo_world
      \<lparr>fs_files = Map.empty, fs_calls = []\<rparr> = (cfg, w, f)" by (metis prod.exhaust)
  with session_config_sound [OF this] show ?thesis by (simp add: settings_default_def)
qed

text \<open>C37. Key names: a combination joined by plus signs is known exactly if each of its names is, with their keys
  in order, and case does not matter. F1 to F24 are the keys they name, and every digit and letter is its
  own key, but for the letter F: it enters the arm for function keys, and the failed number there leaves
  the function, so the letter F cannot be bound.\<close>

theorem key_names_exact:
  assumes "ks \<noteq> []" "\<forall>k \<in> set ks. clean_name k"
  shows "parse_key_combo (join_plus ks) = those (map parse_key_token ks) \<and>
    parse_key_token (map to_upper name) = parse_key_token name \<and>
    list_all (\<lambda>n. parse_key_token (CHR ''F'' # decimal n) = Some (0x6F + of_nat n)) [1..<25] \<and>
    list_all (\<lambda>c. parse_key_token [c] = (if c = CHR ''F'' then None else Some (of_char c))) (letters @ ''0123456789'')"
  using parse_key_combo_join [OF assms] parse_key_token_upper function_keys letters_keys by simp

lemma key_names_exact_witness:
  "parse_key_combo ''Ctrl+Shift+e'' = Some [VK_CONTROL, VK_SHIFT, 0x45]"
proof -
  have "parse_key_combo (join_plus [''Ctrl'', ''Shift'', ''e'']) = those (map parse_key_token [''Ctrl'', ''Shift'', ''e''])"
    using key_names_exact [of "[''Ctrl'', ''Shift'', ''e'']"] by (simp add: clean_name_def is_space_def)
  also have "those (map parse_key_token [''Ctrl'', ''Shift'', ''e'']) = Some [VK_CONTROL, VK_SHIFT, 0x45]" by code_simp
  finally show ?thesis by simp
qed

text \<open>C38. The service runs one accept loop at a time: in every interleaving of starts, stops, the loops and the
  tasks that forward session events in which no stop runs into its timeout, two loops that run are the
  same, and when no start is in effect and no stop is waiting, every loop has returned and the state is
  \<open>Stopped\<close> and stays so.\<close>

theorem one_loop_at_a_time:
  assumes "service_steps as service_new s" "Stop_Timeout \<notin> set as"
  shows "(\<forall>i < length (sv_loops s). \<forall>j < length (sv_loops s).
      al_pc (sv_loops s ! i) \<noteq> Returned \<and> al_pc (sv_loops s ! j) \<noteq> Returned \<longrightarrow> i = j) \<and>
    (sv_task s = None \<and> sv_stopping s = None \<longrightarrow> sv_last s = Stopped \<and> (\<forall>l \<in> set (sv_loops s). al_pc l = Returned))"
  using assms by (rule one_loop)

lemma one_loop_at_a_time_witness:
  "\<exists>s. service_steps [Start_Service, Stop_Service, Turn_Of 0 Go, Stop_Joined] service_new s \<and> sv_last s = Stopped"
proof -
  obtain s where s: "service_steps [Start_Service, Stop_Service, Turn_Of 0 Go, Stop_Joined] service_new s"
    "sv_task s = None" "sv_stopping s = None" using stop_at_once by blast
  with one_loop_at_a_time [OF s(1)] show ?thesis by auto
qed

text \<open>C39. A stop can wait for itself. It keeps the mutex while it waits for the loop, and a loop that has a state
  to emit waits for the mutex: whatever the other tasks do, nothing but the timeout ends the stop, the
  loop does not move before, and after the timeout it emits its state over \<open>Stopped\<close>.\<close>

theorem stop_waits_for_itself:
  assumes "sv_stopping s = Some i" "i < length (sv_loops s)" "about_to_emit (sv_loops s ! i)"
    "service_steps as s s'" "Stop_Timeout \<notin> set as"
  shows "sv_stopping s' = Some i \<and> al_pc (sv_loops s' ! i) = al_pc (sv_loops s ! i) \<and>
    (\<exists>s''. service_steps [Stop_Timeout, Turn_Of i Go] s' s'' \<and> sv_last s'' \<noteq> Stopped)"
  using stuck_steps [OF assms(4) _ assms(5), of i] stuck_after_timeout [of i s'] assms(1-3) unfolding stuck_def by blast

lemma stop_waits_for_itself_witness:
  "\<exists>s. service_steps stop_while_binding service_new s \<and>
     (\<exists>s''. service_steps [Stop_Timeout, Turn_Of 0 Go] s s'' \<and> sv_last s'' \<noteq> Stopped)"
proof -
  obtain s where s: "service_steps stop_while_binding service_new s" "stuck 0 s" using stop_while_binding_stuck by blast
  then show ?thesis using stop_waits_for_itself [of s 0 "[]" s] unfolding stuck_def by auto
qed



section \<open>Further theorems\<close>

text \<open>A stream that ends inside a frame, at any of its bytes, gives the stream's own error and never
  a shortened frame.\<close>

theorem frame_truncated:
  assumes "length p \<le> MAX_PAYLOAD_LEN" "pending s = take k (encode_frame i p)" "k < 5 + length p"
  shows "read_frame s = Inl (Io (at_end s))"
  using assms by (rule read_frame_truncated)

text \<open>\<open>read_ue\<close> accepts exactly the Exp-Golomb code words of the values below \<open>2 ^ 32 - 1\<close>
  and moves past exactly the code word.\<close>

theorem read_ue_exact:
  "read_ue r = Some (v, r') \<longleftrightarrow>
     v \<noteq> - 1 \<and> prefix (ue_bits v) (rbits r) \<and> r' = adv (length (ue_bits v)) r"
  by (rule ue.rd_iff)

text \<open>Patching a patched H.264 packet changes nothing: the units it writes are again free of start
  codes and already patched.\<close>

theorem packet_patch_idempotent:
  assumes "\<forall>n \<in> set ns. clean (snd n)"
  shows "Option.bind (patch_packet_for_low_latency_dpb H264 (annex_b ns)) (patch_packet_for_low_latency_dpb H264) =
    patch_packet_for_low_latency_dpb H264 (annex_b ns)"
  using patch_packet_h264_idem [OF assms]
  by (cases "patch_packet_for_low_latency_dpb H264 (annex_b ns)") simp_all

text \<open>A burst of pushes into a new queue leaves the newest packets up to the capacity, in order, and a
  consumer that then drains the queue gets exactly these.\<close>

theorem queue_keeps_newest:
  "pq_deque (fold (\<lambda>x g. snd (push x g)) xs (packet_queue_new c)) = drop (length xs - max c 1) xs \<and>
   pq.drain (length xs) (fold (\<lambda>x g. snd (push x g)) xs (packet_queue_new c)) = drop (length xs - max c 1) xs"
proof -
  have new: "pq_ok (packet_queue_new c) \<and> \<not> pq_closed (packet_queue_new c)" by (simp add: packet_queue_new_def pq_ok_def)
  note burst = pq.enq_all [OF new, of xs]
  then show ?thesis
    using pq.drain_contents [OF conjunct1 [OF burst], of "length xs"] by (simp add: packet_queue_new_def)
qed

text \<open>Once closed, a queue accepts and drops nothing more, and the pops that follow, in any interleaving
  with other operations, deliver what was queued, oldest first, until it is empty.\<close>

theorem closed_queue_drains:
  "qr_delivered (fold run_op ops (run_op Close s)) =
     qr_delivered s @ take (length (filter is_pop ops)) (pq_deque (qr_queue s)) \<and>
   pq_deque (qr_queue (fold run_op ops (run_op Close s))) =
     drop (length (filter is_pop ops)) (pq_deque (qr_queue s)) \<and>
   qr_accepted (fold run_op ops (run_op Close s)) = qr_accepted s \<and>
   qr_lost (fold run_op ops (run_op Close s)) = qr_lost s"
  using closed_run [OF closed_by_close(1), of ops s] by (simp add: closed_by_close)

text \<open>At 90 degrees the far end of the vertical axis is the width of the monitor below its top, not the
  height: on a monitor that is wider than high the pen leaves the monitor, on one that is higher than
  wide it cannot reach the bottom.\<close>

theorem quarter_turn_uses_width:
  assumes "rect_ok l t w h" "rot mod 360 = 90"
  shows "sint (snd (map_to_pixel (from_normalized_to_rect l t w h rot) (Fin 1) (Fin 0))) = sint t + uint w"
  using assms by (rule map_to_pixel_90_far_end)

text \<open>Once stopped, the capture thread ends at its next turn at the latest, whatever else happens before it.\<close>

theorem stopped_pipeline_ends:
  assumes "Turn \<in> set evs"
  shows "\<not> running (pipe_events api evs (pipe_event api Stop r))"
  using assms by (rule pipeline_stops)

text \<open>The IDR requests that large frames trigger are at least the configured interval apart.\<close>

theorem motion_idr_spaced:
  assumes "\<forall>ev \<in> set evs. clock_ok ev"
  shows "spaced d (pu_idr (pump_events thr d evs (pumps_start now d out)))"
  using motion_spaced [OF assms motion_inv_start] by (auto simp: motion_inv_def)

text \<open>The encode-time statistics are those of the newest 256 samples: the exact mean, rounded down, without
  overflow, and a sample that at most one in a hundred, rounded up, exceeds; the index is computed in
  f64 as the code does.\<close>

theorem encode_summary_exact:
  assumes "xs \<noteq> []"
  shows "unat (fst (encode_us_summary (fold record_encode_us xs session_stats_default))) =
      sum_list (map unat (drop (length xs - 256) xs)) div length (drop (length xs - 256) xs) \<and>
    snd (encode_us_summary (fold record_encode_us xs session_stats_default)) \<in> set (drop (length xs - 256) xs) \<and>
    length (filter (\<lambda>v. snd (encode_us_summary (fold record_encode_us xs session_stats_default)) < v) (drop (length xs - 256) xs)) \<le>
      (length (drop (length xs - 256) xs) + 98) div 100"
  using assms by (rule encode_us_summary_recorded)

end
